(* ===== verification/Prelude.thy ===== *)
theory Prelude
  imports Main "HOL-Library.Word"
begin

text \<open>
  Shared vocabulary of the development: the names of Go's machine types, the outcome of a call that
  may panic, the transition-system locales that the concurrent components interpret, and the
  lemmas on lists and words that several components use.

  Go strings and byte slices are both sequences of bytes; a HOL \<open>char\<close> is exactly one byte, so
  both are lists of \<open>char\<close> and the conversions \<open>[]byte(s)\<close> and \<open>string(b)\<close> are
  the identity on contents.  An \<open>error\<close> value is its message.
\<close>

section \<open>Machine types, errors and panics\<close>

type_synonym int64 = "64 word"
type_synonym uint64 = "64 word"
type_synonym uint32 = "32 word"
type_synonym bytes = "char list"
type_synonym goerror = string

text \<open>A call either returns or panics with a message; a call that may also run for ever has type
  \<open>'a outcome option\<close> or \<open>'a option\<close>, with \<open>None\<close> for the run that does not end.\<close>

datatype 'a outcome = Ret 'a | Panic string

fun bind_outcome :: "'a outcome \<Rightarrow> ('a \<Rightarrow> 'b outcome) \<Rightarrow> 'b outcome" where
  "bind_outcome (Ret x) f = f x"
| "bind_outcome (Panic m) f = Panic m"

lemma bind_outcome_Ret_iff:
  "bind_outcome x f = Ret y \<longleftrightarrow> (\<exists>z. x = Ret z \<and> f z = Ret y)"
  by (cases x) auto

definition strlen :: "string \<Rightarrow> int64" where
  "strlen s = word_of_nat (length s)"

text \<open>Signed comparison of two 64-bit integers, the operator \<open><\<close> of Go on \<open>int64\<close>.\<close>

definition int64_less :: "int64 \<Rightarrow> int64 \<Rightarrow> bool" where
  "int64_less a b \<longleftrightarrow> sint a < sint b"

lemma int64_less_irrefl [simp]: "\<not> int64_less a a"
  by (simp add: int64_less_def)

lemma sint_of_int_small:
  fixes x :: int
  assumes "- (2 ^ 63) \<le> x" and "x < 2 ^ 63"
  shows "sint (word_of_int x :: int64) = x"
  using assms by (simp add: sint_sbintrunc' signed_take_bit_int_eq_self)

lemma word_of_int_sum_list:
  "(word_of_int (sum_list xs) :: int64) = sum_list (map word_of_int xs)"
  by (induction xs) auto

section \<open>Transition systems\<close>

text \<open>
  A concurrent component is a set of initial states and a relation between states.  A state is
  reachable when finitely many steps lead to it from an initial one.
\<close>

locale transition_system =
  fixes init :: "'s \<Rightarrow> bool"
    and step :: "'s \<Rightarrow> 's \<Rightarrow> bool"
begin

definition reachable :: "'s \<Rightarrow> bool" where
  "reachable s \<longleftrightarrow> (\<exists>s0. init s0 \<and> step\<^sup>*\<^sup>* s0 s)"

lemma reachable_init: "init s \<Longrightarrow> reachable s"
  unfolding reachable_def by blast

lemma reachable_step: "reachable s \<Longrightarrow> step s t \<Longrightarrow> reachable t"
  unfolding reachable_def by (meson rtranclp.rtrancl_into_rtrancl)

lemma reachable_steps: "reachable s \<Longrightarrow> step\<^sup>*\<^sup>* s t \<Longrightarrow> reachable t"
  unfolding reachable_def by (meson rtranclp_trans)

end

text \<open>An inductive invariant holds in every reachable state, and along every run.\<close>

locale invariant_system = transition_system init step
  for init :: "'s \<Rightarrow> bool" and step :: "'s \<Rightarrow> 's \<Rightarrow> bool" +
  fixes inv :: "'s \<Rightarrow> bool"
  assumes inv_init: "init s \<Longrightarrow> inv s"
    and inv_step: "inv s \<Longrightarrow> step s t \<Longrightarrow> inv t"
begin

lemma inv_steps: "step\<^sup>*\<^sup>* s t \<Longrightarrow> inv s \<Longrightarrow> inv t"
  by (induction rule: rtranclp_induct) (auto intro: inv_step)

lemma reachable_inv: "reachable s \<Longrightarrow> inv s"
  unfolding reachable_def using inv_init inv_steps by blast

lemma run_inv: "init s0 \<Longrightarrow> step\<^sup>*\<^sup>* s0 s \<Longrightarrow> inv s"
  using inv_init inv_steps by blast

end

section \<open>Lists and association lists\<close>

lemma map_of_filter_ne:
  "map_of (filter (\<lambda>p. fst p \<noteq> k) xs) = (map_of xs)(k := None)"
  by (induction xs) (auto simp: fun_eq_iff)

lemma map_of_filter_ne_same [simp]: "map_of (filter (\<lambda>p. fst p \<noteq> k) xs) k = None"
  by (simp add: map_of_filter_ne)

lemma distinct_map_fst_filter:
  "distinct (map fst xs) \<Longrightarrow> distinct (map fst (filter P xs))"
  by (induction xs) auto

lemma map_of_take_Some:
  assumes "distinct (map fst xs)" and "map_of (take n xs) k = Some v"
  shows "map_of xs k = Some v"
  using assms by (metis in_set_takeD map_of_SomeD map_of_eq_Some_iff)

lemma remove1_last_butlast: "distinct xs \<Longrightarrow> xs \<noteq> [] \<Longrightarrow> remove1 (last xs) xs = butlast xs"
  by (induction xs) auto

lemma insert_set_remove1: "x \<in> set xs \<Longrightarrow> insert x (set (remove1 x xs)) = set xs"
  by (induction xs) auto

end
