(* ===== verification/GoStrings.thy ===== *)
theory GoStrings
  imports Prelude
begin

text \<open>
  The string functions of Go's standard library that the program calls, on byte strings:
  \<^verbatim>\<open>strings.HasPrefix\<close>, \<^verbatim>\<open>Split\<close>, \<^verbatim>\<open>SplitN(s, sep, 2)\<close>, \<^verbatim>\<open>Join\<close>, \<^verbatim>\<open>LastIndex\<close>,
  \<^verbatim>\<open>TrimSpace\<close>, \<^verbatim>\<open>strconv.Itoa\<close>, \<^verbatim>\<open>url.QueryEscape\<close> and the unescaping of a URL path that
  \<^verbatim>\<open>net/http\<close> performs before it calls a handler.  Separators are single bytes, as in every call
  of the program.  The lemmas are the round trips the components rely on.
\<close>

section \<open>Prefixes, splitting and joining\<close>

definition has_prefix :: "string \<Rightarrow> string \<Rightarrow> bool" where
  "has_prefix s p \<longleftrightarrow> take (length p) s = p"

lemma has_prefix_append [simp]: "has_prefix (p @ s) p"
  by (simp add: has_prefix_def)

fun split_char :: "char \<Rightarrow> string \<Rightarrow> string list" where
  "split_char c [] = [[]]"
| "split_char c (x # xs) =
     (if x = c then [] # split_char c xs
      else (case split_char c xs of [] \<Rightarrow> [[x]] | y # ys \<Rightarrow> (x # y) # ys))"

text \<open>\<open>SplitN(s, c, 2)\<close>: at most two parts, cut at the first separator.\<close>

definition split_n2 :: "char \<Rightarrow> string \<Rightarrow> string list" where
  "split_n2 c s =
     (let a = takeWhile (\<lambda>x. x \<noteq> c) s in
      if length a < length s then [a, drop (Suc (length a)) s] else [s])"

fun join :: "string \<Rightarrow> string list \<Rightarrow> string" where
  "join sep [] = []"
| "join sep [x] = x"
| "join sep (x # y # ys) = x @ sep @ join sep (y # ys)"

lemma split_char_no_sep: "c \<notin> set s \<Longrightarrow> split_char c s = [s]"
  by (induction s) auto

lemma split_char_append: "c \<notin> set s \<Longrightarrow> split_char c (s @ c # t) = s # split_char c t"
  by (induction s) auto

lemma split_join:
  assumes "xs \<noteq> []" and "list_all (\<lambda>x. c \<notin> set x) xs"
  shows "split_char c (join [c] xs) = xs"
  using assms
  by (induction "[c]" xs rule: join.induct) (auto simp: split_char_no_sep split_char_append)

lemma takeWhile_until [simp]:
  "c \<notin> set s \<Longrightarrow> takeWhile (\<lambda>x. x \<noteq> c) (s @ c # t) = s"
  "c \<notin> set s \<Longrightarrow> takeWhile (\<lambda>x. x \<noteq> c) s = s"
  by (induction s) auto

lemma split_n2_append:
  "c \<notin> set s \<Longrightarrow> split_n2 c (s @ c # t) = [s, t]"
  by (simp add: split_n2_def Let_def)

lemma split_n2_none: "c \<notin> set s \<Longrightarrow> split_n2 c s = [s]"
  by (simp add: split_n2_def Let_def)

lemma length_split_n2: "length (split_n2 c s) = (if c \<in> set s then 2 else 1)"
proof (cases "c \<in> set s")
  case True
  then obtain a b where "s = a @ c # b" "c \<notin> set a" by (meson split_list_first)
  then show ?thesis by (simp add: split_n2_append)
qed (simp add: split_n2_none)

text \<open>\<open>LastIndex(s, c)\<close>: the last position of the byte, or -1.\<close>

definition last_index :: "char \<Rightarrow> string \<Rightarrow> int" where
  "last_index c s =
     (if c \<in> set s then int (length s) - 1 - int (length (takeWhile (\<lambda>x. x \<noteq> c) (rev s))) else -1)"

lemma last_index_append:
  assumes "c \<notin> set t"
  shows "last_index c (s @ c # t) = int (length s)"
  using assms takeWhile_until(1) [of c "rev t" "rev s"] by (simp add: last_index_def)

lemma last_index_absent: "c \<notin> set s \<Longrightarrow> last_index c s = -1"
  by (simp add: last_index_def)

text \<open>\<open>TrimSpace\<close> on ASCII text; the multi-byte Unicode spaces are not modelled.\<close>

definition is_space :: "char \<Rightarrow> bool" where
  "is_space c \<longleftrightarrow> c = CHR '' '' \<or> c \<in> {CHR 0x09, CHR 0x0A, CHR 0x0B, CHR 0x0C, CHR 0x0D}"

definition trim_space :: "string \<Rightarrow> string" where
  "trim_space s = rev (dropWhile is_space (rev (dropWhile is_space s)))"

lemma dropWhile_hd: "xs = [] \<or> \<not> P (hd xs) \<Longrightarrow> dropWhile P xs = xs"
  by (cases xs) auto

lemma trim_space_id: "s \<noteq> [] \<Longrightarrow> \<not> is_space (hd s) \<Longrightarrow> \<not> is_space (last s) \<Longrightarrow> trim_space s = s"
  by (simp add: trim_space_def dropWhile_hd hd_rev)

lemma trim_space_Nil [simp]: "trim_space [] = []"
  by (simp add: trim_space_def)

section \<open>Decimal numbers\<close>

definition digit_char :: "nat \<Rightarrow> char" where
  "digit_char d = char_of (48 + d)"

fun nat_decimal :: "nat \<Rightarrow> string" where
  "nat_decimal n =
     (if n < 10 then [digit_char n] else nat_decimal (n div 10) @ [digit_char (n mod 10)])"

declare nat_decimal.simps [simp del]

definition itoa :: "int \<Rightarrow> string" where
  "itoa i = (if i < 0 then ''-'' @ nat_decimal (nat (- i)) else nat_decimal (nat i))"

section \<open>URL escaping\<close>

definition hex_digit :: "nat \<Rightarrow> char" where
  "hex_digit d = (if d < 10 then char_of (48 + d) else char_of (55 + d))"

definition hex_value :: "char \<Rightarrow> nat option" where
  "hex_value c =
     (let n = of_char c :: nat in
      if 48 \<le> n \<and> n \<le> 57 then Some (n - 48)
      else if 65 \<le> n \<and> n \<le> 70 then Some (n - 55)
      else if 97 \<le> n \<and> n \<le> 102 then Some (n - 87) else None)"

definition unreserved :: "char \<Rightarrow> bool" where
  "unreserved c =
     (let n = of_char c :: nat in
      (48 \<le> n \<and> n \<le> 57) \<or> (65 \<le> n \<and> n \<le> 90) \<or> (97 \<le> n \<and> n \<le> 122)
      \<or> c = CHR ''-'' \<or> c = CHR ''_'' \<or> c = CHR ''.'' \<or> c = CHR 0x7E)"

definition escape_char :: "char \<Rightarrow> string" where
  "escape_char c =
     (if unreserved c then [c]
      else if c = CHR '' '' then [CHR ''+'']
      else [CHR ''%'', hex_digit (of_char c div 16), hex_digit (of_char c mod 16)])"

definition query_escape :: "string \<Rightarrow> string" where
  "query_escape s = concat (map escape_char s)"

text \<open>Unescaping in path mode: a plus sign stands for itself; a bad escape is an error.\<close>

fun path_unescape :: "string \<Rightarrow> string option" where
  "path_unescape [] = Some []"
| "path_unescape (c # s) =
     (if c = CHR ''%'' then
        (case s of
           a # b # t \<Rightarrow>
             (case (hex_value a, hex_value b) of
                (Some x, Some y) \<Rightarrow> map_option ((#) (char_of (16 * x + y))) (path_unescape t)
              | _ \<Rightarrow> None)
         | _ \<Rightarrow> None)
      else map_option ((#) c) (path_unescape s))"

text \<open>What a byte becomes when it is escaped for a query and unescaped as part of a path.\<close>

definition space_to_plus :: "char \<Rightarrow> char" where
  "space_to_plus c = (if c = CHR '' '' then CHR ''+'' else c)"

lemma hex_value_digit: "d < 16 \<Longrightarrow> hex_value (hex_digit d) = Some d"
  by (auto simp: hex_value_def hex_digit_def)

lemma hex_pair:
  fixes c :: char
  shows "char_of (16 * (of_char c div 16) + of_char c mod 16 :: nat) = c"
  by (simp only: mult_div_mod_eq char_of_char)

lemma unescape_escape_char:
  "path_unescape (escape_char c @ t) = map_option ((#) (space_to_plus c)) (path_unescape t)"
proof (cases "unreserved c \<or> c = CHR '' ''")
  case True
  moreover have "\<not> unreserved CHR ''%''" "\<not> unreserved CHR '' ''" by code_simp+
  ultimately show ?thesis by (auto simp: escape_char_def space_to_plus_def)
next
  case False
  have "of_char c < (256 :: nat)" by (rule nat_of_char_less_256)
  then have "of_char c div 16 < (16 :: nat)" by (simp add: less_mult_imp_div_less)
  with False show ?thesis
    by (auto simp: escape_char_def space_to_plus_def hex_value_digit hex_pair)
qed

lemma unescape_query_escape:
  "path_unescape (query_escape s @ t)
     = map_option ((@) (map space_to_plus s)) (path_unescape t)"
  by (induction s)
    (auto simp: query_escape_def unescape_escape_char option.map_comp o_def option.map_ident
      cong: map_option_cong)

lemma append_Nil_fun: "(@) [] = (\<lambda>x. x)"
  by (simp add: fun_eq_iff)

lemma path_unescape_plain:
  "CHR ''%'' \<notin> set s \<Longrightarrow> path_unescape (s @ t) = map_option ((@) s) (path_unescape t)"
  by (induction s) (auto simp: append_Nil_fun option.map_comp option.map_ident
      intro: map_option_cong)

lemma space_to_plus_id: "CHR '' '' \<notin> set s \<Longrightarrow> map space_to_plus s = s"
  by (induction s) (auto simp: space_to_plus_def)

end
