(* ===== verification/CacheStore.thy ===== *)
theory CacheStore
  imports Prelude
begin

text \<open>
  The contract between a bounded cache and the code that fills it: a lookup reports what the cache
  holds and changes no association, and a store returns and leaves at most the old associations
  plus the new one.  Entries may vanish at any store; nothing else may appear.  From this alone it
  follows that a cache filled from a source only ever holds what the source says.
\<close>

locale cache_store =
  fixes inv :: "'c \<Rightarrow> bool"
    and view :: "'c \<Rightarrow> string \<rightharpoonup> 'v"
    and lookup :: "string \<Rightarrow> 'c \<Rightarrow> 'v option \<times> 'c"
    and store :: "string \<Rightarrow> 'v \<Rightarrow> 'c \<Rightarrow> 'c option"
  assumes lookup_result: "inv c \<Longrightarrow> fst (lookup k c) = view c k"
    and lookup_view: "inv c \<Longrightarrow> view (snd (lookup k c)) = view c"
    and lookup_inv: "inv c \<Longrightarrow> inv (snd (lookup k c))"
    and store_total:
      "inv c \<Longrightarrow> \<exists>c'. store k v c = Some c' \<and> inv c' \<and> view c' \<subseteq>\<^sub>m (view c)(k \<mapsto> v)"
begin

text \<open>The cache agrees with the source \<open>src\<close> wherever it has an entry.\<close>

definition coherent :: "(string \<Rightarrow> 'v option) \<Rightarrow> 'c \<Rightarrow> bool" where
  "coherent src c \<longleftrightarrow> view c \<subseteq>\<^sub>m src"

lemma lookup_coherent: "inv c \<Longrightarrow> coherent src c \<Longrightarrow> coherent src (snd (lookup k c))"
  by (simp add: coherent_def lookup_view)

lemma lookup_sound:
  "inv c \<Longrightarrow> coherent src c \<Longrightarrow> lookup k c = (Some v, c') \<Longrightarrow> src k = Some v"
  by (metis coherent_def domI fst_conv lookup_result map_le_def)

lemma store_coherent:
  assumes "inv c" and "coherent src c" and "src k = Some v"
  shows "\<exists>c'. store k v c = Some c' \<and> inv c' \<and> coherent src c'"
proof -
  have "(view c)(k \<mapsto> v) \<subseteq>\<^sub>m src"
    using assms(2,3) by (auto simp: coherent_def map_le_def)
  with store_total [OF assms(1), of k v] show ?thesis
    unfolding coherent_def using map_le_trans by blast
qed

end

end
