(* ===== verification/Lru.thy ===== *)
theory Lru
  imports CacheStore
begin

text \<open>
  The least-recently-used cache of \<^verbatim>\<open>geecache/geecache/lru/lru.go\<close>.

  The Go structure is a doubly linked list of elements whose payload is a pointer to an \<open>entry\<close>,
  and a map from keys to list elements; an update goes through the pointer.  The model keeps that
  sharing: an element is an address, \<open>ll\<close> is the list of element addresses from front to back,
  \<open>elems\<close> is the store of the entries the elements point to, and \<open>cache\<close> maps a key to
  the address of its element.  The first part models the operations, the second states the
  representation invariant and the abstraction to a recency list of key-value pairs, the third
  proves that every operation refines its abstract counterpart.
\<close>

section \<open>State and operations\<close>

record 'v lru_entry =
  entry_key :: string
  entry_value :: 'v

text \<open>\<open>OnEvicted\<close> is a user callback; its effect is on a state \<open>evicted_state\<close> of its own.\<close>

record ('v, 'st) lru_cache =
  maxBytes :: int64
  nbytes :: int64
  ll :: "nat list"
  elems :: "nat \<rightharpoonup> 'v lru_entry"
  next_elem :: nat
  cache :: "string \<rightharpoonup> nat"
  OnEvicted :: "(string \<Rightarrow> 'v \<Rightarrow> 'st \<Rightarrow> 'st) option"
  evicted_state :: 'st

text \<open>The operations of \<open>container/list\<close> that the code calls, on the list of addresses.\<close>

definition list_move_to_front :: "nat \<Rightarrow> nat list \<Rightarrow> nat list" where
  "list_move_to_front ele l = (if ele \<in> set l then ele # remove1 ele l else l)"

definition list_back :: "nat list \<Rightarrow> nat option" where
  "list_back l = (if l = [] then None else Some (last l))"

definition lru_new ::
    "int64 \<Rightarrow> (string \<Rightarrow> 'v \<Rightarrow> 'st \<Rightarrow> 'st) option \<Rightarrow> 'st \<Rightarrow> ('v, 'st) lru_cache" where
  "lru_new limit cb st =
     \<lparr>maxBytes = limit, nbytes = 0, ll = [], elems = (\<lambda>_. None), next_elem = 0,
      cache = (\<lambda>_. None), OnEvicted = cb, evicted_state = st\<rparr>"

text \<open>
  A key that maps to an address without an entry cannot occur in Go, whose pointers are valid;
  the invariant below excludes it, and the model treats it like a missing key.
\<close>

definition lru_get :: "string \<Rightarrow> ('v, 'st) lru_cache \<Rightarrow> 'v option \<times> ('v, 'st) lru_cache" where
  "lru_get key c =
     (case cache c key of
        Some ele \<Rightarrow>
          (case elems c ele of
             Some kv \<Rightarrow> (Some (entry_value kv), c\<lparr>ll := list_move_to_front ele (ll c)\<rparr>)
           | None \<Rightarrow> (None, c))
      | None \<Rightarrow> (None, c))"

text \<open>\<open>value_len\<close> is the method \<open>Len\<close> of the interface \<open>Value\<close>.\<close>

definition lru_remove_oldest ::
    "('v \<Rightarrow> int64) \<Rightarrow> ('v, 'st) lru_cache \<Rightarrow> ('v, 'st) lru_cache" where
  "lru_remove_oldest value_len c =
     (case list_back (ll c) of
        None \<Rightarrow> c
      | Some ele \<Rightarrow>
          (case elems c ele of
             None \<Rightarrow> c
           | Some kv \<Rightarrow>
               (let c' = c\<lparr>ll := remove1 ele (ll c),
                           cache := (cache c)(entry_key kv := None),
                           nbytes := nbytes c
                             - (strlen (entry_key kv) + value_len (entry_value kv))\<rparr>
                in case OnEvicted c' of
                     None \<Rightarrow> c'
                   | Some f \<Rightarrow>
                       c'\<lparr>evicted_state :=
                            f (entry_key kv) (entry_value kv) (evicted_state c')\<rparr>)))"

text \<open>The first half of \<open>Add\<close>: update the entry in place, or push a new element.\<close>

definition lru_put ::
    "('v \<Rightarrow> int64) \<Rightarrow> string \<Rightarrow> 'v \<Rightarrow> ('v, 'st) lru_cache \<Rightarrow> ('v, 'st) lru_cache" where
  "lru_put value_len key value c =
     (case cache c key of
        Some ele \<Rightarrow>
          (case elems c ele of
             Some kv \<Rightarrow>
               c\<lparr>ll := list_move_to_front ele (ll c),
                 nbytes := nbytes c + (value_len value - value_len (entry_value kv)),
                 elems := (elems c)(ele \<mapsto> kv\<lparr>entry_value := value\<rparr>)\<rparr>
           | None \<Rightarrow> c)
      | None \<Rightarrow>
          c\<lparr>ll := next_elem c # ll c,
            elems := (elems c)(next_elem c \<mapsto> \<lparr>entry_key = key, entry_value = value\<rparr>),
            next_elem := Suc (next_elem c),
            cache := (cache c)(key \<mapsto> next_elem c),
            nbytes := nbytes c + (strlen key + value_len value)\<rparr>)"

definition lru_over :: "('v, 'st) lru_cache \<Rightarrow> bool" where
  "lru_over c \<longleftrightarrow> maxBytes c \<noteq> 0 \<and> int64_less (maxBytes c) (nbytes c)"

text \<open>The second half of \<open>Add\<close>: the eviction loop, which need not end (\<open>None\<close>).\<close>

partial_function (option) lru_evict_loop ::
    "('v \<Rightarrow> int64) \<Rightarrow> ('v, 'st) lru_cache \<Rightarrow> ('v, 'st) lru_cache option" where
  "lru_evict_loop value_len c =
     (if lru_over c then lru_evict_loop value_len (lru_remove_oldest value_len c) else Some c)"

definition lru_add ::
    "('v \<Rightarrow> int64) \<Rightarrow> string \<Rightarrow> 'v \<Rightarrow> ('v, 'st) lru_cache \<Rightarrow> ('v, 'st) lru_cache option" where
  "lru_add value_len key value c = lru_evict_loop value_len (lru_put value_len key value c)"

definition lru_len :: "('v, 'st) lru_cache \<Rightarrow> nat" where
  "lru_len c = length (ll c)"

section \<open>Invariant and abstraction\<close>

text \<open>The abstraction: the key-value pairs from the most to the least recently used.\<close>

definition lru_entry_at :: "('v, 'st) lru_cache \<Rightarrow> nat \<Rightarrow> string \<times> 'v" where
  "lru_entry_at c ele = (entry_key (the (elems c ele)), entry_value (the (elems c ele)))"

definition lru_contents :: "('v, 'st) lru_cache \<Rightarrow> (string \<times> 'v) list" where
  "lru_contents c = map (lru_entry_at c) (ll c)"

definition pair_size :: "('v \<Rightarrow> int64) \<Rightarrow> string \<times> 'v \<Rightarrow> int64" where
  "pair_size value_len p = strlen (fst p) + value_len (snd p)"

definition total_size :: "('v \<Rightarrow> int64) \<Rightarrow> (string \<times> 'v) list \<Rightarrow> int64" where
  "total_size value_len xs = sum_list (map (pair_size value_len) xs)"

text \<open>
  The list and the map describe the same set of elements, no address is on the list twice, the
  allocator is ahead of every address, and \<open>nbytes\<close> is the sum of the sizes modulo \<open>2 ^ 64\<close>.
\<close>

definition lru_inv :: "('v \<Rightarrow> int64) \<Rightarrow> ('v, 'st) lru_cache \<Rightarrow> bool" where
  "lru_inv value_len c \<longleftrightarrow>
     distinct (ll c) \<and>
     (\<forall>ele \<in> set (ll c). \<exists>kv. elems c ele = Some kv \<and> cache c (entry_key kv) = Some ele) \<and>
     (\<forall>k ele. cache c k = Some ele \<longrightarrow>
        ele \<in> set (ll c) \<and> (\<exists>kv. elems c ele = Some kv \<and> entry_key kv = k)) \<and>
     (\<forall>ele. elems c ele \<noteq> None \<longrightarrow> ele < next_elem c) \<and>
     nbytes c = total_size value_len (lru_contents c)"

text \<open>The abstract operations on recency lists.\<close>

definition recency_touch :: "string \<Rightarrow> (string \<times> 'v) list \<Rightarrow> (string \<times> 'v) list" where
  "recency_touch k xs =
     (case map_of xs k of None \<Rightarrow> xs | Some v \<Rightarrow> (k, v) # filter (\<lambda>p. fst p \<noteq> k) xs)"

definition recency_put :: "string \<Rightarrow> 'v \<Rightarrow> (string \<times> 'v) list \<Rightarrow> (string \<times> 'v) list" where
  "recency_put k v xs = (k, v) # filter (\<lambda>p. fst p \<noteq> k) xs"

definition exceeds :: "('v \<Rightarrow> int64) \<Rightarrow> int64 \<Rightarrow> (string \<times> 'v) list \<Rightarrow> bool" where
  "exceeds value_len limit xs \<longleftrightarrow> limit \<noteq> 0 \<and> int64_less limit (total_size value_len xs)"

text \<open>The length of the longest prefix, of at most \<open>n\<close> entries, that does not exceed the limit.\<close>

primrec fit_prefix ::
    "('v \<Rightarrow> int64) \<Rightarrow> int64 \<Rightarrow> (string \<times> 'v) list \<Rightarrow> nat \<Rightarrow> nat" where
  "fit_prefix value_len limit xs 0 = 0"
| "fit_prefix value_len limit xs (Suc n) =
     (if exceeds value_len limit (take (Suc n) xs) then fit_prefix value_len limit xs n else Suc n)"

definition recency_trim ::
    "('v \<Rightarrow> int64) \<Rightarrow> int64 \<Rightarrow> (string \<times> 'v) list \<Rightarrow> (string \<times> 'v) list" where
  "recency_trim value_len limit xs = take (fit_prefix value_len limit xs (length xs)) xs"

section \<open>Refinement of the recency list\<close>

lemma lru_entry_at_fst_snd [simp]:
  "elems c ele = Some kv \<Longrightarrow> lru_entry_at c ele = (entry_key kv, entry_value kv)"
  by (simp add: lru_entry_at_def)

lemma lru_inv_entry:
  assumes "lru_inv value_len c" and "ele \<in> set (ll c)"
  obtains kv where "elems c ele = Some kv" and "cache c (entry_key kv) = Some ele"
  using assms unfolding lru_inv_def by blast

lemma lru_inv_cached:
  assumes "lru_inv value_len c" and "cache c k = Some ele"
  obtains kv where "ele \<in> set (ll c)" and "elems c ele = Some kv" and "entry_key kv = k"
  using assms unfolding lru_inv_def by blast

lemma lru_inv_cached_key:
  "lru_inv value_len c \<Longrightarrow> cache c k = Some ele \<Longrightarrow> elems c ele = Some kv \<Longrightarrow> entry_key kv = k"
  unfolding lru_inv_def by fastforce

lemma lru_keys_distinct:
  assumes "lru_inv value_len c"
  shows "distinct (map fst (lru_contents c))"
proof -
  have "inj_on (\<lambda>ele. fst (lru_entry_at c ele)) (set (ll c))"
    by (rule inj_onI) (metis assms fst_conv lru_entry_at_fst_snd lru_inv_entry option.inject)
  then show ?thesis
    using assms by (simp add: lru_contents_def distinct_map lru_inv_def o_def)
qed

lemma lru_contents_lookup:
  assumes inv: "lru_inv value_len c"
  shows "map_of (lru_contents c) k =
           map_option (\<lambda>ele. entry_value (the (elems c ele))) (cache c k)"
proof (cases "cache c k")
  case None
  have "k \<notin> fst ` set (lru_contents c)"
  proof
    assume "k \<in> fst ` set (lru_contents c)"
    then obtain ele where ele: "ele \<in> set (ll c)" "fst (lru_entry_at c ele) = k"
      by (auto simp: lru_contents_def)
    from lru_inv_entry [OF inv ele(1)] ele(2) None show False
      by (metis fst_conv lru_entry_at_fst_snd option.distinct(1))
  qed
  with None show ?thesis by (simp add: map_of_eq_None_iff)
next
  case (Some ele)
  from lru_inv_cached [OF inv Some] obtain kv
    where kv: "ele \<in> set (ll c)" "elems c ele = Some kv" "entry_key kv = k" .
  then have "(k, entry_value kv) \<in> set (lru_contents c)"
    unfolding lru_contents_def by (auto intro: rev_image_eqI)
  with Some kv(2) lru_keys_distinct [OF inv] show ?thesis by simp
qed

lemma lru_contents_remove:
  assumes inv: "lru_inv value_len c" and ele: "cache c k = Some ele"
  shows "map (lru_entry_at c) (remove1 ele (ll c)) = filter (\<lambda>p. fst p \<noteq> k) (lru_contents c)"
proof -
  have same: "e \<noteq> ele \<longleftrightarrow> fst (lru_entry_at c e) \<noteq> k" if "e \<in> set (ll c)" for e
    using lru_inv_entry [OF inv that] lru_inv_cached [OF inv ele] ele
    by (metis fst_conv lru_entry_at_fst_snd option.inject)
  have "remove1 ele (ll c) = filter (\<lambda>e. e \<noteq> ele) (ll c)"
    using inv by (simp add: distinct_remove1_removeAll removeAll_filter_not_eq lru_inv_def eq_commute)
  also have "\<dots> = filter (\<lambda>e. fst (lru_entry_at c e) \<noteq> k) (ll c)"
    using same by (intro filter_cong) auto
  finally show ?thesis by (simp add: lru_contents_def filter_map o_def)
qed

lemma total_size_Nil [simp]: "total_size value_len [] = 0"
  and total_size_Cons [simp]:
    "total_size value_len (p # xs) = pair_size value_len p + total_size value_len xs"
  and total_size_append [simp]:
    "total_size value_len (xs @ ys) = total_size value_len xs + total_size value_len ys"
  by (simp_all add: total_size_def)

lemma filter_key_absent: "k \<notin> fst ` set xs \<Longrightarrow> filter (\<lambda>p. fst p \<noteq> k) xs = xs"
  by (induction xs) auto

lemma total_size_filter:
  assumes "distinct (map fst xs)" and "map_of xs k = Some v"
  shows "total_size value_len (filter (\<lambda>p. fst p \<noteq> k) xs)
           = total_size value_len xs - pair_size value_len (k, v)"
  using assms
proof (induction xs)
  case (Cons p xs)
  then show ?case
    by (cases "fst p = k") (auto simp: filter_key_absent map_of_eq_None_iff)
qed simp

lemma list_move_to_front_set [simp]: "set (list_move_to_front ele l) = set l"
  by (simp add: list_move_to_front_def insert_set_remove1)

lemma list_move_to_front_distinct: "distinct l \<Longrightarrow> distinct (list_move_to_front ele l)"
  by (simp add: list_move_to_front_def)

lemma lru_contents_front:
  assumes inv: "lru_inv value_len c" and ele: "cache c k = Some ele"
    and kv: "elems c ele = Some kv"
  shows "map (lru_entry_at c) (list_move_to_front ele (ll c))
           = (k, entry_value kv) # filter (\<lambda>p. fst p \<noteq> k) (lru_contents c)"
proof -
  from lru_inv_cached [OF inv ele] kv have "ele \<in> set (ll c)" "entry_key kv = k"
    by auto
  then show ?thesis
    using lru_contents_remove [OF inv ele] kv by (simp add: list_move_to_front_def)
qed

lemma lru_get_result:
  assumes "lru_inv value_len c"
  shows "fst (lru_get k c) = map_of (lru_contents c) k"
  using assms lru_inv_cached [OF assms]
  by (fastforce simp: lru_get_def lru_contents_lookup split: option.splits)

lemma lru_get_contents:
  assumes inv: "lru_inv value_len c"
  shows "lru_contents (snd (lru_get k c)) = recency_touch k (lru_contents c)"
proof (cases "cache c k")
  case None
  with inv show ?thesis
    by (simp add: lru_get_def recency_touch_def lru_contents_lookup)
next
  case (Some ele)
  from lru_inv_cached [OF inv Some] obtain kv
    where kv: "elems c ele = Some kv" "entry_key kv = k" .
  have same: "lru_entry_at (c\<lparr>ll := l\<rparr>) = lru_entry_at c" for l
    by (simp add: lru_entry_at_def fun_eq_iff)
  show ?thesis
    using lru_contents_front [OF inv Some kv(1)] Some kv inv
    by (simp add: lru_get_def recency_touch_def lru_contents_lookup)
      (simp add: lru_contents_def same)
qed

lemma lru_get_inv:
  assumes inv: "lru_inv value_len c"
  shows "lru_inv value_len (snd (lru_get k c))"
proof -
  have "total_size value_len (recency_touch k (lru_contents c))
          = total_size value_len (lru_contents c)"
    using lru_keys_distinct [OF inv]
    by (auto simp: recency_touch_def total_size_filter split: option.splits)
  moreover have "lru_contents (snd (lru_get k c)) = recency_touch k (lru_contents c)"
    by (rule lru_get_contents [OF inv])
  ultimately show ?thesis
    using inv unfolding lru_inv_def
    by (auto simp: lru_get_def list_move_to_front_distinct split: option.splits)
qed

lemma lru_put_contents:
  assumes inv: "lru_inv value_len c"
  shows "lru_contents (lru_put value_len k v c) = recency_put k v (lru_contents c)"
proof (cases "cache c k")
  case None
  let ?n = "next_elem c"
  have fresh: "?n \<notin> set (ll c)"
    using inv unfolding lru_inv_def by (metis less_irrefl option.distinct(1))
  have absent: "k \<notin> fst ` set (lru_contents c)"
    using None lru_contents_lookup [OF inv, of k] by (simp add: map_of_eq_None_iff)
  have old: "map (lru_entry_at (lru_put value_len k v c)) (ll c) = lru_contents c"
    using fresh None by (auto simp: lru_contents_def lru_put_def lru_entry_at_def)
  have new: "lru_entry_at (lru_put value_len k v c) ?n = (k, v)"
    using None by (simp add: lru_put_def lru_entry_at_def)
  have "lru_contents (lru_put value_len k v c) = (k, v) # lru_contents c"
    unfolding lru_contents_def [of "lru_put value_len k v c"]
    using None old new by (simp add: lru_put_def)
  then show ?thesis by (simp add: recency_put_def filter_key_absent [OF absent])
next
  case (Some ele)
  from lru_inv_cached [OF inv Some] obtain kv
    where kv: "ele \<in> set (ll c)" "elems c ele = Some kv" "entry_key kv = k" .
  let ?c = "lru_put value_len k v c"
  have ll: "ll ?c = ele # remove1 ele (ll c)"
    using Some kv by (simp add: lru_put_def list_move_to_front_def)
  have "ele \<notin> set (remove1 ele (ll c))"
    using inv by (simp add: lru_inv_def)
  then have "map (lru_entry_at ?c) (remove1 ele (ll c))
               = map (lru_entry_at c) (remove1 ele (ll c))"
    using Some kv by (auto simp: lru_put_def lru_entry_at_def)
  moreover have "lru_entry_at ?c ele = (k, v)"
    using Some kv by (simp add: lru_put_def lru_entry_at_def)
  ultimately show ?thesis
    using lru_contents_remove [OF inv Some] by (simp add: lru_contents_def ll recency_put_def)
qed

lemma lru_put_inv:
  assumes inv: "lru_inv value_len c"
  shows "lru_inv value_len (lru_put value_len k v c)"
proof -
  let ?c = "lru_put value_len k v c"
  have size: "nbytes ?c = total_size value_len (lru_contents ?c)"
  proof (cases "cache c k")
    case None
    then have "k \<notin> fst ` set (lru_contents c)"
      using lru_contents_lookup [OF inv, of k] by (simp add: map_of_eq_None_iff)
    with None inv show ?thesis
      by (simp add: lru_put_contents [OF inv] recency_put_def filter_key_absent)
        (simp add: lru_put_def lru_inv_def pair_size_def)
  next
    case (Some ele)
    from lru_inv_cached [OF inv Some] obtain kv
      where kv: "ele \<in> set (ll c)" "elems c ele = Some kv" "entry_key kv = k" .
    have "map_of (lru_contents c) k = Some (entry_value kv)"
      using Some kv by (simp add: lru_contents_lookup [OF inv])
    with Some kv inv show ?thesis
      by (simp add: lru_put_contents [OF inv] recency_put_def total_size_filter lru_keys_distinct)
        (simp add: lru_put_def lru_inv_def pair_size_def)
  qed
  have fresh: "next_elem c \<notin> set (ll c)" "elems c (next_elem c) = None"
    using inv unfolding lru_inv_def by (metis less_irrefl option.distinct(1))+
  show ?thesis
  proof (cases "cache c k")
    case None
    have fields: "ll ?c = next_elem c # ll c" "cache ?c = (cache c)(k \<mapsto> next_elem c)"
      "elems ?c = (elems c)(next_elem c \<mapsto> \<lparr>entry_key = k, entry_value = v\<rparr>)"
      "next_elem ?c = Suc (next_elem c)"
      using None by (simp_all add: lru_put_def)
    have entry: "\<exists>kv. elems c e = Some kv \<and> cache c (entry_key kv) = Some e \<and> entry_key kv \<noteq> k"
      if "e \<in> set (ll c)" for e
      using lru_inv_entry [OF inv that] None by (metis option.distinct(1))
    have "\<exists>kv. elems ?c e = Some kv \<and> cache ?c (entry_key kv) = Some e"
      if "e \<in> set (ll ?c)" for e
      using that entry fresh by (cases "e = next_elem c") (auto simp: fields)
    with inv fresh size None show ?thesis unfolding lru_inv_def
      by (intro conjI) (auto simp: fields less_Suc_eq)
  next
    case (Some ele)
    from lru_inv_cached [OF inv Some] obtain kv
      where kv: "ele \<in> set (ll c)" "elems c ele = Some kv" "entry_key kv = k" .
    have fields: "ll ?c = list_move_to_front ele (ll c)" "cache ?c = cache c"
      "elems ?c = (elems c)(ele \<mapsto> kv\<lparr>entry_value := v\<rparr>)" "next_elem ?c = next_elem c"
      using Some kv by (simp_all add: lru_put_def)
    have listed: "\<exists>kv. elems ?c e = Some kv \<and> cache ?c (entry_key kv) = Some e"
      if "e \<in> set (ll ?c)" for e
    proof (cases "e = ele")
      case True
      then show ?thesis using kv Some by (simp add: fields)
    next
      case False
      with that have "e \<in> set (ll c)" by (simp add: fields)
      from lru_inv_entry [OF inv this] False show ?thesis by (auto simp: fields)
    qed
    have cached: "e \<in> set (ll ?c) \<and> (\<exists>kv. elems ?c e = Some kv \<and> entry_key kv = j)"
      if "cache ?c j = Some e" for j e
    proof -
      from that have j: "cache c j = Some e" by (simp add: fields)
      from lru_inv_cached [OF inv j] obtain kv'
        where "e \<in> set (ll c)" "elems c e = Some kv'" "entry_key kv' = j" .
      with kv(2) show ?thesis by (cases "e = ele") (auto simp: fields)
    qed
    have "distinct (ll ?c)" "\<And>e. elems ?c e \<noteq> None \<Longrightarrow> e < next_elem ?c"
      using inv kv(2) by (auto simp: fields lru_inv_def list_move_to_front_distinct
          split: if_splits)
    with listed cached size show ?thesis unfolding lru_inv_def by blast
  qed
qed

section \<open>Eviction\<close>

lemma lru_remove_oldest_empty: "ll c = [] \<Longrightarrow> lru_remove_oldest value_len c = c"
  by (simp add: lru_remove_oldest_def list_back_def)

lemma lru_remove_oldest_fields:
  assumes inv: "lru_inv value_len c" and ne: "ll c \<noteq> []"
  obtains kv where "elems c (last (ll c)) = Some kv"
    and "lru_entry_at c (last (ll c)) = (entry_key kv, entry_value kv)"
    and "cache c (entry_key kv) = Some (last (ll c))"
    and "ll (lru_remove_oldest value_len c) = butlast (ll c)"
    and "elems (lru_remove_oldest value_len c) = elems c"
    and "next_elem (lru_remove_oldest value_len c) = next_elem c"
    and "cache (lru_remove_oldest value_len c) = (cache c)(entry_key kv := None)"
    and "nbytes (lru_remove_oldest value_len c)
           = nbytes c - pair_size value_len (entry_key kv, entry_value kv)"
proof -
  have "last (ll c) \<in> set (ll c)" using ne by simp
  from lru_inv_entry [OF inv this] obtain kv
    where kv: "elems c (last (ll c)) = Some kv" "cache c (entry_key kv) = Some (last (ll c))" .
  have "remove1 (last (ll c)) (ll c) = butlast (ll c)"
    using inv ne by (simp add: lru_inv_def remove1_last_butlast)
  with kv ne show ?thesis
    by (intro that [of kv])
      (simp_all add: lru_remove_oldest_def list_back_def pair_size_def Let_def
        split: option.splits)
qed

lemma lru_remove_oldest_limit [simp]:
  "maxBytes (lru_remove_oldest value_len c) = maxBytes c"
  "OnEvicted (lru_remove_oldest value_len c) = OnEvicted c"
  by (simp_all add: lru_remove_oldest_def Let_def split: option.splits)

lemma lru_remove_oldest_contents:
  assumes "lru_inv value_len c"
  shows "lru_contents (lru_remove_oldest value_len c) = butlast (lru_contents c)"
proof (cases "ll c = []")
  case True
  then show ?thesis by (simp add: lru_remove_oldest_empty lru_contents_def)
next
  case False
  from lru_remove_oldest_fields [OF assms False]
  have fields: "ll (lru_remove_oldest value_len c) = butlast (ll c)"
    "elems (lru_remove_oldest value_len c) = elems c" by blast+
  then have "lru_entry_at (lru_remove_oldest value_len c) = lru_entry_at c"
    by (simp add: lru_entry_at_def fun_eq_iff)
  with fields show ?thesis by (simp add: lru_contents_def map_butlast)
qed

lemma lru_remove_oldest_inv:
  assumes inv: "lru_inv value_len c"
  shows "lru_inv value_len (lru_remove_oldest value_len c)"
proof (cases "ll c = []")
  case True
  then show ?thesis using inv by (simp add: lru_remove_oldest_empty)
next
  case False
  let ?e = "last (ll c)" and ?c = "lru_remove_oldest value_len c"
  from lru_remove_oldest_fields [OF inv False] obtain kv
    where kv: "elems c ?e = Some kv" "lru_entry_at c ?e = (entry_key kv, entry_value kv)"
        "cache c (entry_key kv) = Some ?e"
      and fields: "ll ?c = butlast (ll c)" "elems ?c = elems c" "next_elem ?c = next_elem c"
        "cache ?c = (cache c)(entry_key kv := None)"
        "nbytes ?c = nbytes c - pair_size value_len (entry_key kv, entry_value kv)" .
  have split: "ll c = butlast (ll c) @ [?e]" using False by simp
  have dist: "distinct (butlast (ll c))" "?e \<notin> set (butlast (ll c))"
    using inv split unfolding lru_inv_def by (metis distinct_butlast, metis distinct_append
      disjoint_iff list.set_intros(1))
  have "lru_contents c = butlast (lru_contents c) @ [(entry_key kv, entry_value kv)]"
    unfolding lru_contents_def by (subst split) (simp add: map_butlast kv(1))
  then have "total_size value_len (lru_contents c)
      = total_size value_len (butlast (lru_contents c))
        + pair_size value_len (entry_key kv, entry_value kv)"
    by (metis (no_types) add.right_neutral total_size_Cons total_size_Nil total_size_append)
  then have size: "nbytes ?c = total_size value_len (lru_contents ?c)"
    using inv by (simp add: fields lru_remove_oldest_contents [OF inv] lru_inv_def)
  have key: "j \<noteq> entry_key kv \<Longrightarrow> cache c j = Some e \<Longrightarrow> e \<noteq> ?e" for j e
    using lru_inv_cached_key [OF inv _ kv(1)] by blast
  have mem: "e \<in> set (ll c) \<longleftrightarrow> e \<in> set (butlast (ll c)) \<or> e = ?e" for e
    by (subst split) auto
  show ?thesis
    unfolding lru_inv_def
  proof (intro conjI ballI allI impI)
    show "distinct (ll ?c)" using dist(1) by (simp add: fields)
    show "nbytes ?c = total_size value_len (lru_contents ?c)" by (rule size)
  next
    fix e assume "e \<in> set (ll ?c)"
    then have "e \<in> set (ll c)" "e \<noteq> ?e" using dist(2) mem by (auto simp: fields)
    then show "\<exists>kv. elems ?c e = Some kv \<and> cache ?c (entry_key kv) = Some e"
      using lru_inv_entry [OF inv] kv(3) by (metis fields(2,4) fun_upd_other option.inject)
  next
    fix j e assume "cache ?c j = Some e"
    then have j: "j \<noteq> entry_key kv" "cache c j = Some e"
      by (auto simp: fields split: if_splits)
    from lru_inv_cached [OF inv j(2)] key [OF j] mem
    show "e \<in> set (ll ?c)" "\<exists>kv. elems ?c e = Some kv \<and> entry_key kv = j"
      by (metis fields(1), metis fields(2))
  next
    fix e assume "elems ?c e \<noteq> None"
    then show "e < next_elem ?c" using inv by (simp add: fields lru_inv_def)
  qed
qed

text \<open>The eviction callback is called once per dropped entry, the oldest first.\<close>

definition lru_notify ::
    "(string \<Rightarrow> 'v \<Rightarrow> 'st \<Rightarrow> 'st) option \<Rightarrow> (string \<times> 'v) list \<Rightarrow> 'st \<Rightarrow> 'st" where
  "lru_notify cb xs st =
     (case cb of None \<Rightarrow> st | Some f \<Rightarrow> fold (\<lambda>p. f (fst p) (snd p)) xs st)"

lemma lru_notify_Nil [simp]: "lru_notify cb [] st = st"
  by (simp add: lru_notify_def split: option.splits)

lemma lru_notify_Cons: "lru_notify cb (p # xs) st = lru_notify cb xs (lru_notify cb [p] st)"
  by (simp add: lru_notify_def split: option.splits)

lemma lru_remove_oldest_notifies:
  assumes inv: "lru_inv value_len c" and ne: "ll c \<noteq> []"
  shows "evicted_state (lru_remove_oldest value_len c)
           = lru_notify (OnEvicted c) [last (lru_contents c)] (evicted_state c)"
proof -
  from lru_remove_oldest_fields [OF inv ne] obtain kv
    where kv: "elems c (last (ll c)) = Some kv" by blast
  with ne show ?thesis
    by (simp add: lru_remove_oldest_def list_back_def Let_def lru_notify_def lru_contents_def
        last_map split: option.splits)
qed

lemma lru_over_exceeds:
  "lru_inv value_len c \<Longrightarrow> lru_over c \<longleftrightarrow> exceeds value_len (maxBytes c) (lru_contents c)"
  by (simp add: lru_over_def exceeds_def lru_inv_def)

lemma exceeds_Nil: "0 \<le> sint limit \<Longrightarrow> \<not> exceeds value_len limit []"
  by (simp add: exceeds_def int64_less_def)

lemma fit_prefix_le: "fit_prefix value_len limit xs n \<le> n"
  by (induction n) (auto simp: le_SucI)

lemma fit_prefix_fits:
  "0 \<le> sint limit \<Longrightarrow> \<not> exceeds value_len limit (take (fit_prefix value_len limit xs n) xs)"
  by (induction n) (auto simp: exceeds_Nil)

lemma fit_prefix_maximal:
  "fit_prefix value_len limit xs n < m \<Longrightarrow> m \<le> n \<Longrightarrow> exceeds value_len limit (take m xs)"
  by (induction n) (auto split: if_splits simp: le_Suc_eq)

lemma fit_prefix_cong:
  "n \<le> length ys \<Longrightarrow> fit_prefix value_len limit (ys @ zs) n = fit_prefix value_len limit ys n"
  by (induction n) auto

lemma recency_trim_not_exceeds: "\<not> exceeds value_len limit xs \<Longrightarrow> recency_trim value_len limit xs = xs"
  by (cases "length xs") (auto simp: recency_trim_def)

lemma fit_prefix_step:
  assumes "xs \<noteq> []" and "exceeds value_len limit xs"
  shows "fit_prefix value_len limit xs (length xs)
           = fit_prefix value_len limit (butlast xs) (length (butlast xs))"
proof -
  have xs: "xs = butlast xs @ [last xs]" and len: "length xs = Suc (length (butlast xs))"
    using assms(1) by simp_all
  have "fit_prefix value_len limit xs (length xs)
          = fit_prefix value_len limit xs (length (butlast xs))"
    by (subst len) (simp add: len [symmetric] assms(2))
  also have "\<dots> = fit_prefix value_len limit (butlast xs) (length (butlast xs))"
    using fit_prefix_cong [of "length (butlast xs)" "butlast xs" value_len limit "[last xs]"]
    by (simp flip: xs)
  finally show ?thesis .
qed

text \<open>With a limit that is not negative the loop ends, and keeps the longest prefix that fits.\<close>

lemma lru_evict_loop_refines:
  assumes "lru_inv value_len c" and "0 \<le> sint (maxBytes c)"
    and "n = fit_prefix value_len (maxBytes c) (lru_contents c) (length (lru_contents c))"
  shows "\<exists>c'. lru_evict_loop value_len c = Some c' \<and> lru_inv value_len c'
           \<and> maxBytes c' = maxBytes c \<and> OnEvicted c' = OnEvicted c
           \<and> lru_contents c' = take n (lru_contents c)
           \<and> evicted_state c'
               = lru_notify (OnEvicted c) (rev (drop n (lru_contents c))) (evicted_state c)"
  using assms
proof (induction "length (ll c)" arbitrary: c n)
  case 0
  then have "lru_contents c = []" by (simp add: lru_contents_def)
  with 0 have "\<not> lru_over c" "n = 0" by (simp_all add: lru_over_exceeds exceeds_Nil)
  with 0 \<open>lru_contents c = []\<close> show ?case by (subst lru_evict_loop.simps) simp
next
  case (Suc len)
  show ?case
  proof (cases "lru_over c")
    case False
    with Suc.prems have "n = length (lru_contents c)"
      by (metis fit_prefix.simps exceeds_Nil list.size(3) lru_over_exceeds not0_implies_Suc take_all_iff order_refl)
    with False Suc.prems show ?thesis by (subst lru_evict_loop.simps) simp
  next
    case True
    let ?d = "lru_remove_oldest value_len c"
    have ne: "ll c \<noteq> []" using Suc.hyps(2) by auto
    then have cne: "lru_contents c \<noteq> []" by (simp add: lru_contents_def)
    have cont: "lru_contents ?d = butlast (lru_contents c)"
      by (rule lru_remove_oldest_contents [OF Suc.prems(1)])
    have n: "n = fit_prefix value_len (maxBytes ?d) (lru_contents ?d) (length (lru_contents ?d))"
      using fit_prefix_step [OF cne] True Suc.prems cont by (simp add: lru_over_exceeds)
    have "len = length (ll ?d)"
      using lru_remove_oldest_fields [OF Suc.prems(1) ne] Suc.hyps(2)
      by (metis diff_Suc_1 length_butlast)
    from Suc.hyps(1) [OF this lru_remove_oldest_inv [OF Suc.prems(1)] _ n] Suc.prems(2)
    obtain c' where c': "lru_evict_loop value_len ?d = Some c'" "lru_inv value_len c'"
      "maxBytes c' = maxBytes c" "OnEvicted c' = OnEvicted c"
      "lru_contents c' = take n (butlast (lru_contents c))"
      "evicted_state c' = lru_notify (OnEvicted c) (rev (drop n (butlast (lru_contents c))))
         (evicted_state ?d)"
      by (auto simp: cont)
    have le: "n \<le> length (butlast (lru_contents c))"
      using n fit_prefix_le cont by metis
    have "n < length (lru_contents c)"
      using le cne length_greater_0_conv [of "lru_contents c"] unfolding length_butlast by linarith
    then have "take n (lru_contents c) = take n (butlast (lru_contents c))"
      by (simp add: take_butlast)
    moreover have "drop n (lru_contents c)
        = drop n (butlast (lru_contents c)) @ [last (lru_contents c)]"
      using arg_cong [OF append_butlast_last_id [OF cne], of "drop n"] le by simp
    moreover have "lru_evict_loop value_len c = lru_evict_loop value_len ?d"
      by (subst lru_evict_loop.simps) (simp add: True)
    moreover have "lru_notify (OnEvicted c) (rev (drop n (lru_contents c))) (evicted_state c)
        = lru_notify (OnEvicted c) (rev (drop n (butlast (lru_contents c)))) (evicted_state ?d)"
      unfolding lru_remove_oldest_notifies [OF Suc.prems(1) ne] calculation(2)
      by (simp add: lru_notify_def split: option.splits)
    ultimately show ?thesis using c' by auto
  qed
qed

lemma lru_get_limit [simp]: "maxBytes (snd (lru_get k c)) = maxBytes c"
  by (simp add: lru_get_def split: option.splits)

lemma lru_put_fields [simp]:
  "maxBytes (lru_put value_len k v c) = maxBytes c"
  "OnEvicted (lru_put value_len k v c) = OnEvicted c"
  "evicted_state (lru_put value_len k v c) = evicted_state c"
  by (simp_all add: lru_put_def split: option.splits)

lemma lru_add_step:
  assumes inv: "lru_inv value_len c" and limit: "0 \<le> sint (maxBytes c)"
  shows "\<exists>c'. lru_add value_len k v c = Some c' \<and> lru_inv value_len c'
           \<and> maxBytes c' = maxBytes c \<and> OnEvicted c' = OnEvicted c
           \<and> lru_contents c'
               = recency_trim value_len (maxBytes c) (recency_put k v (lru_contents c))
           \<and> evicted_state c' = lru_notify (OnEvicted c)
               (rev (drop (length (lru_contents c')) (recency_put k v (lru_contents c))))
               (evicted_state c)"
proof -
  let ?xs = "recency_put k v (lru_contents c)"
  let ?n = "fit_prefix value_len (maxBytes c) ?xs (length ?xs)"
  from lru_evict_loop_refines [OF lru_put_inv [OF inv], of k v ?n] limit
  obtain c' where "lru_add value_len k v c = Some c'" "lru_inv value_len c'"
    "maxBytes c' = maxBytes c" "OnEvicted c' = OnEvicted c" "lru_contents c' = take ?n ?xs"
    "evicted_state c' = lru_notify (OnEvicted c) (rev (drop ?n ?xs)) (evicted_state c)"
    by (auto simp: lru_add_def lru_put_contents [OF inv])
  then show ?thesis
    by (auto simp: recency_trim_def min_absorb2 fit_prefix_le)
qed

section \<open>The cache contract\<close>

lemma map_of_recency_touch: "map_of (recency_touch k xs) = map_of xs"
  by (auto simp: recency_touch_def map_of_filter_ne fun_eq_iff split: option.splits)

lemma map_of_recency_put: "map_of (recency_put k v xs) = (map_of xs)(k \<mapsto> v)"
  by (auto simp: recency_put_def map_of_filter_ne fun_eq_iff)

lemma distinct_recency_put:
  "distinct (map fst xs) \<Longrightarrow> distinct (map fst (recency_put k v xs))"
  by (auto simp: recency_put_def distinct_map_fst_filter)

lemma map_of_recency_trim:
  "distinct (map fst xs) \<Longrightarrow> map_of (recency_trim value_len limit xs) \<subseteq>\<^sub>m map_of xs"
  unfolding recency_trim_def map_le_def using map_of_take_Some by (metis domD)

interpretation lru_store: cache_store
  "\<lambda>c. lru_inv value_len c \<and> 0 \<le> sint (maxBytes c)" "\<lambda>c. map_of (lru_contents c)"
  lru_get "lru_add value_len" for value_len :: "'v \<Rightarrow> int64"
proof unfold_locales
  fix c :: "('v, 'b) lru_cache" and k v
  assume inv: "lru_inv value_len c \<and> 0 \<le> sint (maxBytes c)"
  show "fst (lru_get k c) = map_of (lru_contents c) k"
    using inv by (intro lru_get_result) blast
  show "map_of (lru_contents (snd (lru_get k c))) = map_of (lru_contents c)"
    using inv lru_get_contents [of value_len c k] by (simp add: map_of_recency_touch)
  show "lru_inv value_len (snd (lru_get k c)) \<and> 0 \<le> sint (maxBytes (snd (lru_get k c)))"
    using inv by (simp add: lru_get_inv)
  show "\<exists>c'. lru_add value_len k v c = Some c' \<and> (lru_inv value_len c' \<and> 0 \<le> sint (maxBytes c'))
      \<and> map_of (lru_contents c') \<subseteq>\<^sub>m (map_of (lru_contents c))(k \<mapsto> v)"
    using inv lru_add_step [of value_len c k v]
      map_of_recency_trim [OF distinct_recency_put [OF lru_keys_distinct [of value_len c]]]
    by (fastforce simp: map_of_recency_put)
qed

section \<open>Sizes as integers\<close>

definition pair_bytes :: "('v \<Rightarrow> int64) \<Rightarrow> string \<times> 'v \<Rightarrow> int" where
  "pair_bytes value_len p = int (length (fst p)) + sint (value_len (snd p))"

definition total_bytes :: "('v \<Rightarrow> int64) \<Rightarrow> (string \<times> 'v) list \<Rightarrow> int" where
  "total_bytes value_len xs = sum_list (map (pair_bytes value_len) xs)"

definition lens_nonneg :: "('v \<Rightarrow> int64) \<Rightarrow> (string \<times> 'v) list \<Rightarrow> bool" where
  "lens_nonneg value_len xs \<longleftrightarrow> list_all (\<lambda>p. 0 \<le> sint (value_len (snd p))) xs"

lemma total_size_word: "total_size value_len xs = word_of_int (total_bytes value_len xs)"
  by (induction xs) (simp_all add: total_size_def total_bytes_def pair_size_def pair_bytes_def
      strlen_def)

lemma pair_bytes_nonneg: "0 \<le> sint (value_len (snd p)) \<Longrightarrow> 0 \<le> pair_bytes value_len p"
  by (simp add: pair_bytes_def)

lemma total_bytes_prefix:
  assumes "lens_nonneg value_len xs"
  shows "0 \<le> total_bytes value_len (take n xs)"
    and "total_bytes value_len (take n xs) \<le> total_bytes value_len xs"
proof -
  have nonneg: "0 \<le> total_bytes value_len ys" if "lens_nonneg value_len ys" for ys
    using that by (induction ys) (auto simp: total_bytes_def lens_nonneg_def pair_bytes_nonneg)
  have parts: "lens_nonneg value_len (take n xs)" "lens_nonneg value_len (drop n xs)"
    using assms by (auto simp: lens_nonneg_def list_all_iff dest: in_set_takeD in_set_dropD)
  have "total_bytes value_len xs
      = total_bytes value_len (take n xs) + total_bytes value_len (drop n xs)"
    by (simp add: total_bytes_def flip: sum_list_append map_append)
  with nonneg [OF parts(1)] nonneg [OF parts(2)]
  show "0 \<le> total_bytes value_len (take n xs)"
    "total_bytes value_len (take n xs) \<le> total_bytes value_len xs" by simp_all
qed

lemma sint_total_size:
  assumes "lens_nonneg value_len xs" and "total_bytes value_len xs < 2 ^ 63"
  shows "sint (total_size value_len (take n xs)) = total_bytes value_len (take n xs)"
  unfolding total_size_word
  by (rule sint_of_int_small) (use total_bytes_prefix [OF assms(1), of n] assms(2) in simp_all)

lemma exceeds_iff_bytes:
  assumes "lens_nonneg value_len xs" and "total_bytes value_len xs < 2 ^ 63"
  shows "exceeds value_len limit (take n xs)
           \<longleftrightarrow> limit \<noteq> 0 \<and> sint limit < total_bytes value_len (take n xs)"
  by (simp add: exceeds_def int64_less_def sint_total_size [OF assms])

section \<open>Sequences of operations\<close>

datatype 'v lru_op = LruGet string | LruAdd string 'v | LruRemoveOldest | LruLen

datatype 'v lru_result = Found "'v option" | Done | Size nat

fun lru_exec ::
    "('v \<Rightarrow> int64) \<Rightarrow> 'v lru_op \<Rightarrow> ('v, 'st) lru_cache
       \<Rightarrow> ('v lru_result \<times> ('v, 'st) lru_cache) option" where
  "lru_exec value_len (LruGet k) c = (let (v, c') = lru_get k c in Some (Found v, c'))"
| "lru_exec value_len (LruAdd k v) c = map_option (Pair Done) (lru_add value_len k v c)"
| "lru_exec value_len LruRemoveOldest c = Some (Done, lru_remove_oldest value_len c)"
| "lru_exec value_len LruLen c = Some (Size (lru_len c), c)"

fun lru_run ::
    "('v \<Rightarrow> int64) \<Rightarrow> 'v lru_op list \<Rightarrow> ('v, 'st) lru_cache
       \<Rightarrow> ('v lru_result list \<times> ('v, 'st) lru_cache) option" where
  "lru_run value_len [] c = Some ([], c)"
| "lru_run value_len (x # xs) c =
     (case lru_exec value_len x c of
        None \<Rightarrow> None
      | Some (r, c') \<Rightarrow> map_option (\<lambda>(rs, c''). (r # rs, c'')) (lru_run value_len xs c'))"

text \<open>The specification machine, whose whole state is the recency list.\<close>

fun recency_exec ::
    "('v \<Rightarrow> int64) \<Rightarrow> int64 \<Rightarrow> 'v lru_op \<Rightarrow> (string \<times> 'v) list
       \<Rightarrow> 'v lru_result \<times> (string \<times> 'v) list" where
  "recency_exec value_len limit (LruGet k) xs = (Found (map_of xs k), recency_touch k xs)"
| "recency_exec value_len limit (LruAdd k v) xs =
     (Done, recency_trim value_len limit (recency_put k v xs))"
| "recency_exec value_len limit LruRemoveOldest xs = (Done, butlast xs)"
| "recency_exec value_len limit LruLen xs = (Size (length xs), xs)"

fun recency_run ::
    "('v \<Rightarrow> int64) \<Rightarrow> int64 \<Rightarrow> 'v lru_op list \<Rightarrow> (string \<times> 'v) list
       \<Rightarrow> 'v lru_result list \<times> (string \<times> 'v) list" where
  "recency_run value_len limit [] xs = ([], xs)"
| "recency_run value_len limit (x # ops) xs =
     (let (r, ys) = recency_exec value_len limit x xs;
          (rs, zs) = recency_run value_len limit ops ys
      in (r # rs, zs))"

lemma lru_exec_refines:
  assumes inv: "lru_inv value_len c" and limit: "0 \<le> sint (maxBytes c)"
  shows "\<exists>c'. lru_exec value_len x c
             = Some (fst (recency_exec value_len (maxBytes c) x (lru_contents c)), c')
           \<and> lru_inv value_len c' \<and> maxBytes c' = maxBytes c
           \<and> lru_contents c' = snd (recency_exec value_len (maxBytes c) x (lru_contents c))"
proof (cases x)
  case (LruGet k)
  then show ?thesis
    using lru_get_result [OF inv, of k] lru_get_contents [OF inv, of k] lru_get_inv [OF inv, of k]
      lru_get_limit [of k c]
    by (simp add: split_beta)
next
  case (LruAdd k v)
  then show ?thesis using lru_add_step [OF inv limit, of k v] by auto
next
  case LruRemoveOldest
  then show ?thesis
    using lru_remove_oldest_contents [OF inv] lru_remove_oldest_inv [OF inv] by simp
next
  case LruLen
  then show ?thesis using inv by (simp add: lru_len_def lru_contents_def)
qed

lemma lru_new_inv: "lru_inv value_len (lru_new limit cb st)"
  by (simp add: lru_inv_def lru_new_def lru_contents_def total_size_def)

lemma lru_new_contents [simp]: "lru_contents (lru_new limit cb st) = []"
  and lru_new_limit [simp]: "maxBytes (lru_new limit cb st) = limit"
  by (simp_all add: lru_new_def lru_contents_def)

lemma lru_run_from:
  assumes "lru_inv value_len c" and "0 \<le> sint (maxBytes c)"
  shows "\<exists>c'. lru_run value_len ops c
             = Some (fst (recency_run value_len (maxBytes c) ops (lru_contents c)), c')
           \<and> lru_inv value_len c' \<and> maxBytes c' = maxBytes c
           \<and> lru_contents c' = snd (recency_run value_len (maxBytes c) ops (lru_contents c))"
  using assms
proof (induction ops arbitrary: c)
  case (Cons x ops)
  from lru_exec_refines [OF Cons.prems, of x] obtain d
    where d: "lru_exec value_len x c
        = Some (fst (recency_exec value_len (maxBytes c) x (lru_contents c)), d)"
      "lru_inv value_len d" "maxBytes d = maxBytes c"
      "lru_contents d = snd (recency_exec value_len (maxBytes c) x (lru_contents c))"
    by blast
  from Cons.IH [OF d(2)] Cons.prems d show ?case by (auto simp: split_beta Let_def)
qed simp

text \<open>With a negative limit every state of the loop is over it, so the loop returns in none.\<close>

lemma lru_evict_loop_negative:
  assumes ret: "lru_evict_loop value_len c = Some r"
  shows "\<not> (lru_inv value_len c \<and> sint (maxBytes c) < 0 \<and> lens_nonneg value_len (lru_contents c)
             \<and> total_bytes value_len (lru_contents c) < 2 ^ 63)"
proof (rule lru_evict_loop.raw_induct [where P = "\<lambda>value_len c r. \<not> (lru_inv value_len c
    \<and> sint (maxBytes c) < 0 \<and> lens_nonneg value_len (lru_contents c)
    \<and> total_bytes value_len (lru_contents c) < 2 ^ 63)", OF _ ret], rule notI, elim conjE)
  fix f :: "('a \<Rightarrow> int64) \<Rightarrow> ('a, 'b) lru_cache \<Rightarrow> ('a, 'b) lru_cache option"
    and value_len c r
  assume IH: "\<And>value_len c r. f value_len c = Some r \<Longrightarrow>
      \<not> (lru_inv value_len c \<and> sint (maxBytes c) < 0 \<and> lens_nonneg value_len (lru_contents c)
         \<and> total_bytes value_len (lru_contents c) < 2 ^ 63)"
    and ret: "(if lru_over c then f value_len (lru_remove_oldest value_len c) else Some c) = Some r"
    and inv: "lru_inv value_len c" and neg: "sint (maxBytes c) < 0"
    and nonneg: "lens_nonneg value_len (lru_contents c)"
    and small: "total_bytes value_len (lru_contents c) < 2 ^ 63"
  let ?xs = "lru_contents c"
  have "lru_over c"
    using exceeds_iff_bytes [OF nonneg small, of "maxBytes c" "length ?xs"] neg
      total_bytes_prefix(1) [OF nonneg, of "length ?xs"]
    by (auto simp: lru_over_exceeds [OF inv])
  with ret have "f value_len (lru_remove_oldest value_len c) = Some r" by simp
  moreover have "lens_nonneg value_len (butlast ?xs)"
    using nonneg by (auto simp: lens_nonneg_def list_all_iff dest: in_set_butlastD)
  moreover have "total_bytes value_len (butlast ?xs) < 2 ^ 63"
    using total_bytes_prefix(2) [OF nonneg, of "length ?xs - 1"] small by (simp add: butlast_conv_take)
  moreover have "sint (maxBytes (lru_remove_oldest value_len c)) < 0" using neg by simp
  ultimately show False
    using IH [of value_len "lru_remove_oldest value_len c" r] lru_remove_oldest_inv [OF inv]
    by (simp only: lru_remove_oldest_contents [OF inv]) blast
qed

section \<open>Properties\<close>

text \<open>C1: A fresh cache with a limit that is not negative, driven by any sequence of \<open>Get\<close>,
  \<open>Add\<close>, \<open>RemoveOldest\<close> and \<open>Len\<close> calls, always returns, returns exactly what the
  recency-list machine returns, and ends in a well-formed state that represents its list: the
  linked list, the map and the byte counter together implement a list of pairs in order of last
  use, trimmed at its end to the longest prefix within the limit.\<close>

theorem lru_run_refines_recency:
  assumes "0 \<le> sint limit"
  shows "\<exists>c. lru_run value_len ops (lru_new limit cb st)
               = Some (fst (recency_run value_len limit ops []), c)
             \<and> lru_contents c = snd (recency_run value_len limit ops [])
             \<and> lru_inv value_len c"
  using lru_run_from [OF lru_new_inv, of limit cb st value_len ops] assms by auto

theorem lru_run_refines_recency_witness:
  "\<exists>c. lru_run strlen
         [LruAdd ''key1'' ''1234'', LruAdd ''k2'' ''v2'', LruAdd ''k3'' ''v3'', LruGet ''k2'',
          LruAdd ''k4'' ''v4'', LruGet ''key1'', LruGet ''k3'', LruLen]
         (lru_new 10 (None :: (string \<Rightarrow> string \<Rightarrow> unit \<Rightarrow> unit) option) ())
       = Some ([Done, Done, Done, Found (Some ''v2''), Done, Found None, Found None, Size 2], c)
     \<and> lru_contents c = [(''k4'', ''v4''), (''k2'', ''v2'')]"
proof -
  let ?ops = "[LruAdd ''key1'' ''1234'', LruAdd ''k2'' ''v2'', LruAdd ''k3'' ''v3'', LruGet ''k2'',
          LruAdd ''k4'' ''v4'', LruGet ''key1'', LruGet ''k3'', LruLen]"
  have "recency_run strlen 10 ?ops []
      = ([Done, Done, Done, Found (Some ''v2''), Done, Found None, Found None, Size 2],
         [(''k4'', ''v4''), (''k2'', ''v2'')])"
    by code_simp
  then show ?thesis
    using lru_run_refines_recency [of 10 strlen ?ops None "()"] by auto
qed

text \<open>C2: \<open>Add\<close> puts the pair in front of the other keys and then drops entries from the old
  end only: what stays is the longest prefix within the limit (the next longer one exceeds it),
  and the callback \<open>OnEvicted\<close> is called once for each dropped pair, the oldest first.\<close>

theorem lru_add_evicts_oldest:
  assumes "lru_inv value_len c" and "0 \<le> sint (maxBytes c)"
  shows "\<exists>c' n. lru_add value_len k v c = Some c'
           \<and> lru_contents c' = take n (recency_put k v (lru_contents c))
           \<and> \<not> exceeds value_len (maxBytes c) (lru_contents c')
           \<and> (\<forall>m. n < m \<longrightarrow> m \<le> length (recency_put k v (lru_contents c)) \<longrightarrow>
                exceeds value_len (maxBytes c) (take m (recency_put k v (lru_contents c))))
           \<and> evicted_state c'
               = lru_notify (OnEvicted c) (rev (drop n (recency_put k v (lru_contents c))))
                   (evicted_state c)"
proof -
  let ?xs = "recency_put k v (lru_contents c)"
  let ?n = "fit_prefix value_len (maxBytes c) ?xs (length ?xs)"
  have "drop (length (take ?n ?xs)) ?xs = drop ?n ?xs"
    by (simp add: min_absorb2 fit_prefix_le)
  moreover obtain c' where "lru_add value_len k v c = Some c'"
    "lru_contents c' = take ?n ?xs"
    "evicted_state c' = lru_notify (OnEvicted c)
       (rev (drop (length (lru_contents c')) ?xs)) (evicted_state c)"
    using lru_add_step [OF assms, of k v] by (auto simp: recency_trim_def)
  ultimately show ?thesis
    using fit_prefix_maximal [of value_len "maxBytes c" ?xs "length ?xs"]
      fit_prefix_fits [OF assms(2)]
    by (intro exI [of _ c'] exI [of _ ?n]) auto
qed

definition lru_example :: "(string, string list) lru_cache" where
  "lru_example =
     lru_put strlen ''k2'' ''v2''
       (lru_put strlen ''key1'' ''1234'' (lru_new 10 (Some (\<lambda>k v ks. ks @ [k])) []))"

lemma lru_example_inv: "lru_inv strlen lru_example"
  unfolding lru_example_def by (intro lru_put_inv lru_new_inv)

lemma lru_example_contents: "lru_contents lru_example = [(''k2'', ''v2''), (''key1'', ''1234'')]"
  unfolding lru_example_def
  by (simp add: lru_put_contents lru_put_inv lru_new_inv recency_put_def)

lemma lru_example_limit [simp]: "maxBytes lru_example = 10"
  by (simp add: lru_example_def)

theorem lru_add_evicts_oldest_witness:
  "\<exists>c' n. lru_add strlen ''k3'' ''v3'' lru_example = Some c'
     \<and> lru_contents c' = take n (recency_put ''k3'' ''v3'' (lru_contents lru_example))"
  using lru_add_evicts_oldest [of strlen lru_example "''k3''" "''v3''"] lru_example_inv
  by auto

text \<open>C3: When no \<open>Len\<close> is negative and the sizes do not overflow, an \<open>Add\<close> with a positive
  limit leaves at most \<open>maxBytes\<close> bytes of keys and values in the cache, the counter
  \<open>nbytes\<close> is that number of bytes, and no entry is evicted unless the bytes up to and
  including it exceed the limit.\<close>

theorem lru_add_memory_bound:
  assumes "lru_inv value_len c" and "0 < sint (maxBytes c)"
    and "lens_nonneg value_len (recency_put k v (lru_contents c))"
    and "total_bytes value_len (recency_put k v (lru_contents c)) < 2 ^ 63"
  shows "\<exists>c'. lru_add value_len k v c = Some c'
           \<and> total_bytes value_len (lru_contents c') \<le> sint (maxBytes c)
           \<and> sint (nbytes c') = total_bytes value_len (lru_contents c')
           \<and> (\<forall>m. length (lru_contents c') < m
                \<longrightarrow> m \<le> length (recency_put k v (lru_contents c))
                \<longrightarrow> sint (maxBytes c)
                      < total_bytes value_len (take m (recency_put k v (lru_contents c))))"
proof -
  let ?xs = "recency_put k v (lru_contents c)"
  let ?n = "fit_prefix value_len (maxBytes c) ?xs (length ?xs)"
  note bytes = exceeds_iff_bytes [OF assms(3,4), of "maxBytes c"]
  have nz: "maxBytes c \<noteq> 0" using assms(2) by auto
  obtain c' where c': "lru_add value_len k v c = Some c'" "lru_inv value_len c'"
    "lru_contents c' = take ?n ?xs"
    using lru_add_step [OF assms(1), of k v] assms(2) by (auto simp: recency_trim_def)
  have "\<not> exceeds value_len (maxBytes c) (take ?n ?xs)"
    by (rule fit_prefix_fits) (use assms(2) in simp)
  then have "total_bytes value_len (take ?n ?xs) \<le> sint (maxBytes c)"
    using bytes [of ?n] nz by auto
  moreover have "sint (nbytes c') = total_bytes value_len (lru_contents c')"
    using c' sint_total_size [OF assms(3,4), of ?n] by (simp add: lru_inv_def)
  moreover have "sint (maxBytes c) < total_bytes value_len (take m ?xs)"
    if "?n < m" "m \<le> length ?xs" for m
    using fit_prefix_maximal [OF that] bytes [of m] by simp
  ultimately show ?thesis
    using c' fit_prefix_le [of value_len "maxBytes c" ?xs "length ?xs"] by auto
qed

theorem lru_add_memory_bound_witness:
  "\<exists>c'. lru_add strlen ''k3'' ''v3'' lru_example = Some c'
     \<and> total_bytes strlen (lru_contents c') \<le> 10"
  using lru_add_memory_bound [of strlen lru_example "''k3''" "''v3''"] lru_example_inv
  by (auto simp: lru_example_contents recency_put_def lens_nonneg_def total_bytes_def
      pair_bytes_def strlen_def)

text \<open>C4: With a negative limit and entries whose sizes are not negative and do not overflow,
  \<open>Add\<close> never returns: the eviction loop empties the cache, \<open>nbytes\<close> is 0, which is still
  above the limit, and \<open>RemoveOldest\<close> does nothing on an empty list.\<close>

theorem lru_add_negative_limit_diverges:
  assumes "lru_inv value_len c" and "sint (maxBytes c) < 0"
    and "lens_nonneg value_len (recency_put k v (lru_contents c))"
    and "total_bytes value_len (recency_put k v (lru_contents c)) < 2 ^ 63"
  shows "lru_add value_len k v c = None"
proof -
  have never: False
    if "lru_evict_loop value_len d = Some r" "lru_inv value_len d" "sint (maxBytes d) < 0"
      "lens_nonneg value_len (lru_contents d)" "total_bytes value_len (lru_contents d) < 2 ^ 63"
    for d r
    using lru_evict_loop_negative [OF that(1)] that(2-) by blast
  show ?thesis
    using never [of "lru_put value_len k v c"] assms lru_put_inv [OF assms(1)]
    by (cases "lru_add value_len k v c") (auto simp: lru_add_def lru_put_contents)
qed

theorem lru_add_negative_limit_diverges_witness:
  "lru_add strlen ''k'' ''v'' (lru_new (- 1) (None :: (string \<Rightarrow> string \<Rightarrow> unit \<Rightarrow> unit) option) ())
     = None"
  by (rule lru_add_negative_limit_diverges)
    (simp_all add: lru_new_inv recency_put_def lens_nonneg_def total_bytes_def pair_bytes_def
      strlen_def)

end
