(* ===== verification/ConsistentHash.thy ===== *)
theory ConsistentHash
  imports GoStrings
begin

text \<open>
  The consistent-hash ring of \<^verbatim>\<open>geecache/geecache/consistenthash/consistenthash.go\<close>, with the two
  functions of Go's standard library it rests on: the CRC-32 checksum (the default hash) and
  \<^verbatim>\<open>sort.Search\<close>, the binary search.  A node is placed at \<open>replicas\<close> points of the ring; a key
  belongs to the node of the first point at or after the key's hash.

  The interface that a peer picker needs from a ring is the locale \<open>key_router\<close>: a key is routed
  to a member, and a node that joins attracts keys but never moves a key between two old nodes.
\<close>

section \<open>Library functions\<close>

unbundle bit_operations_syntax

definition crc_shift :: "uint32 \<Rightarrow> uint32" where
  "crc_shift x = (if bit x 0 then drop_bit 1 x XOR 0xEDB88320 else drop_bit 1 x)"

definition crc_byte :: "char \<Rightarrow> uint32 \<Rightarrow> uint32" where
  "crc_byte b crc = (crc_shift ^^ 8) (crc XOR word_of_nat (of_char b))"

definition crc32_ChecksumIEEE :: "bytes \<Rightarrow> uint32" where
  "crc32_ChecksumIEEE data = NOT (fold crc_byte data 0xFFFFFFFF)"

text \<open>\<open>sort.Search\<close>: the loop keeps \<open>\<not> f (i - 1)\<close> and \<open>f j\<close>.\<close>

function search_loop :: "(nat \<Rightarrow> bool) \<Rightarrow> nat \<Rightarrow> nat \<Rightarrow> nat" where
  "search_loop f i j =
     (if i < j then
        (let h = (i + j) div 2 in
         if \<not> f h then search_loop f (h + 1) j else search_loop f i h)
      else i)"
  by pat_completeness auto
termination
  by (relation "measure (\<lambda>(f, i, j). j - i)") auto

declare search_loop.simps [simp del]

definition sort_Search :: "nat \<Rightarrow> (nat \<Rightarrow> bool) \<Rightarrow> nat" where
  "sort_Search n f = search_loop f 0 n"

section \<open>The ring\<close>

record ring =
  ring_hash :: "bytes \<Rightarrow> uint32"
  replicas :: int
  ring_keys :: "int list"
  hashmap :: "int \<rightharpoonup> string"

definition ring_new :: "int \<Rightarrow> (bytes \<Rightarrow> uint32) option \<Rightarrow> ring" where
  "ring_new n fn =
     \<lparr>ring_hash = (case fn of None \<Rightarrow> crc32_ChecksumIEEE | Some f \<Rightarrow> f),
      replicas = n, ring_keys = [], hashmap = (\<lambda>_. None)\<rparr>"

text \<open>\<open>int(m.hash(...))\<close>: a 32-bit value always fits in a Go \<open>int\<close> of 64 bits.\<close>

definition hash_int :: "ring \<Rightarrow> bytes \<Rightarrow> int" where
  "hash_int m data = uint (ring_hash m data)"

text \<open>The body of the inner loop of \<open>Add\<close>: place replica \<open>i\<close> of the node on the ring.\<close>

definition ring_place :: "string \<Rightarrow> nat \<Rightarrow> ring \<Rightarrow> ring" where
  "ring_place key i m =
     (let hash = hash_int m (itoa (int i) @ key) in
      m\<lparr>ring_keys := ring_keys m @ [hash], hashmap := (hashmap m)(hash \<mapsto> key)\<rparr>)"

definition ring_place_all :: "string \<Rightarrow> ring \<Rightarrow> ring" where
  "ring_place_all key m = fold (ring_place key) [0..<nat (replicas m)] m"

definition ring_add :: "string list \<Rightarrow> ring \<Rightarrow> ring" where
  "ring_add keys m =
     (let m' = fold ring_place_all keys m in m'\<lparr>ring_keys := sort (ring_keys m')\<rparr>)"

definition ring_get :: "ring \<Rightarrow> string \<Rightarrow> string" where
  "ring_get m key =
     (if ring_keys m = [] then ''''
      else
        (let hash = hash_int m key;
             idx = sort_Search (length (ring_keys m)) (\<lambda>i. hash \<le> ring_keys m ! i)
         in case hashmap m (ring_keys m ! (idx mod length (ring_keys m))) of
              None \<Rightarrow> '''' | Some node \<Rightarrow> node))"

section \<open>Binary search\<close>

lemma search_loop_bounds:
  assumes "i \<le> j" and "\<forall>k < i. \<not> f k" and "\<forall>k. j \<le> k \<longrightarrow> k < n \<longrightarrow> f k" and "j \<le> n"
    and mono: "\<forall>a b. a \<le> b \<longrightarrow> b < n \<longrightarrow> f a \<longrightarrow> f b"
  shows "search_loop f i j \<le> n \<and> (\<forall>k < search_loop f i j. \<not> f k)
           \<and> (search_loop f i j < n \<longrightarrow> f (search_loop f i j))"
  using assms(1-4)
proof (induction "j - i" arbitrary: i j rule: less_induct)
  case less
  show ?case
  proof (cases "i < j")
    case True
    let ?h = "(i + j) div 2"
    have h: "i \<le> ?h" "?h < j" using True by auto
    show ?thesis
    proof (cases "f ?h")
      case True
      have "f k" if "?h \<le> k" "k < n" for k
        using mono True that by blast
      moreover have "search_loop f i j = search_loop f i ?h"
        using True \<open>i < j\<close> by (simp add: search_loop.simps [of f i j])
      moreover have "search_loop f i ?h \<le> n \<and> (\<forall>k < search_loop f i ?h. \<not> f k)
          \<and> (search_loop f i ?h < n \<longrightarrow> f (search_loop f i ?h))"
        using calculation h less.prems by (intro less.hyps) auto
      ultimately show ?thesis by simp
    next
      case False
      have "\<not> f k" if "k < Suc ?h" for k
        using mono False that h(2) less.prems(4) by (meson less_Suc_eq_le less_le_trans)
      moreover have "search_loop f i j = search_loop f (?h + 1) j"
        using False \<open>i < j\<close> by (simp add: search_loop.simps [of f i j])
      moreover have "search_loop f (?h + 1) j \<le> n \<and> (\<forall>k < search_loop f (?h + 1) j. \<not> f k)
          \<and> (search_loop f (?h + 1) j < n \<longrightarrow> f (search_loop f (?h + 1) j))"
        using calculation h less.prems by (intro less.hyps) auto
      ultimately show ?thesis by simp
    qed
  next
    case False
    then have "search_loop f i j = i" by (simp add: search_loop.simps [of f i j])
    with False less.prems show ?thesis by simp
  qed
qed

lemma sort_Search_sorted:
  fixes ks :: "int list"
  assumes "sorted ks" and "idx = sort_Search (length ks) (\<lambda>i. h \<le> ks ! i)"
  shows "idx \<le> length ks" and "k < idx \<Longrightarrow> ks ! k < h" and "idx < length ks \<Longrightarrow> h \<le> ks ! idx"
proof -
  have "\<forall>a b. a \<le> b \<longrightarrow> b < length ks \<longrightarrow> h \<le> ks ! a \<longrightarrow> h \<le> ks ! b"
    using assms(1) by (meson order_trans sorted_nth_mono)
  then have "idx \<le> length ks \<and> (\<forall>k < idx. \<not> h \<le> ks ! k) \<and> (idx < length ks \<longrightarrow> h \<le> ks ! idx)"
    unfolding assms(2) sort_Search_def by (intro search_loop_bounds) auto
  then show "idx \<le> length ks" "k < idx \<Longrightarrow> ks ! k < h" "idx < length ks \<Longrightarrow> h \<le> ks ! idx"
    by (auto simp: not_le)
qed

section \<open>Successors on the ring\<close>

text \<open>\<open>p\<close> is the first point at or after \<open>h\<close>, or the least point when every point is
  before \<open>h\<close>.\<close>

definition ring_successor :: "int set \<Rightarrow> int \<Rightarrow> int \<Rightarrow> bool" where
  "ring_successor K h p \<longleftrightarrow>
     p \<in> K \<and> ((h \<le> p \<and> (\<forall>q \<in> K. h \<le> q \<longrightarrow> p \<le> q))
               \<or> ((\<forall>q \<in> K. q < h) \<and> (\<forall>q \<in> K. p \<le> q)))"

lemma ring_successor_unique: "ring_successor K h p \<Longrightarrow> ring_successor K h q \<Longrightarrow> p = q"
  unfolding ring_successor_def by (meson antisym not_le)

lemma ring_successor_subset:
  "ring_successor K h p \<Longrightarrow> K' \<subseteq> K \<Longrightarrow> p \<in> K' \<Longrightarrow> ring_successor K' h p"
  unfolding ring_successor_def by blast

lemma sorted_search_successor:
  fixes ks :: "int list"
  assumes "sorted ks" and "ks \<noteq> []"
    and idx: "idx = sort_Search (length ks) (\<lambda>i. h \<le> ks ! i)"
  shows "ring_successor (set ks) h (ks ! (idx mod length ks))"
proof (cases "idx < length ks")
  case True
  have "ks ! idx \<le> q" if "q \<in> set ks" "h \<le> q" for q
  proof -
    from that(1) obtain k where k: "k < length ks" "q = ks ! k" by (metis in_set_conv_nth)
    with sort_Search_sorted(2) [OF assms(1) idx, of k] that(2) have "idx \<le> k" by force
    with k assms(1) show ?thesis by (simp add: sorted_nth_mono)
  qed
  with True sort_Search_sorted(3) [OF assms(1) idx True] show ?thesis
    by (simp add: ring_successor_def)
next
  case False
  then have eq: "idx = length ks" using sort_Search_sorted(1) [OF assms(1) idx] by simp
  have "q < h" "ks ! 0 \<le> q" if "q \<in> set ks" for q
    using that sort_Search_sorted(2) [OF assms(1) idx] eq assms(1)
    by (metis in_set_conv_nth, metis in_set_conv_nth le0 sorted_nth_mono)
  with eq assms(2) show ?thesis by (simp add: ring_successor_def)
qed

section \<open>The representation of the ring\<close>

definition ring_inv :: "ring \<Rightarrow> bool" where
  "ring_inv m \<longleftrightarrow> sorted (ring_keys m) \<and> set (ring_keys m) = dom (hashmap m)"

text \<open>The points of a node.\<close>

definition ring_points :: "ring \<Rightarrow> string \<Rightarrow> int list" where
  "ring_points m key = map (\<lambda>i. hash_int m (itoa (int i) @ key)) [0..<nat (replicas m)]"

lemma hash_int_cong: "ring_hash m = ring_hash m' \<Longrightarrow> hash_int m = hash_int m'"
  by (simp add: hash_int_def fun_eq_iff)

lemma ring_points_cong:
  "ring_hash m = ring_hash m' \<Longrightarrow> replicas m = replicas m' \<Longrightarrow> ring_points m = ring_points m'"
  by (simp add: ring_points_def hash_int_def fun_eq_iff)

lemma ring_place_frame [simp]:
  "ring_hash (ring_place key i m) = ring_hash m"
  "replicas (ring_place key i m) = replicas m"
  by (simp_all add: ring_place_def Let_def)

lemma fold_ring_place_frame [simp]:
  "ring_hash (fold (ring_place key) is m) = ring_hash m"
  "replicas (fold (ring_place key) is m) = replicas m"
  by (induction "is" arbitrary: m) auto

lemma hash_int_place [simp]: "hash_int (ring_place key i m) = hash_int m"
  by (rule hash_int_cong) simp

lemma fold_ring_place_keys:
  "ring_keys (fold (ring_place key) is m)
     = ring_keys m @ map (\<lambda>i. hash_int m (itoa (int i) @ key)) is"
  by (induction "is" arbitrary: m) (simp_all, simp add: ring_place_def Let_def)

lemma fold_ring_place_hashmap:
  "hashmap (fold (ring_place key) is m) p
     = (if p \<in> set (map (\<lambda>i. hash_int m (itoa (int i) @ key)) is) then Some key else hashmap m p)"
  by (induction "is" arbitrary: m) (simp_all, simp add: ring_place_def Let_def)

lemma ring_place_all_simps [simp]:
  "ring_hash (ring_place_all key m) = ring_hash m"
  "replicas (ring_place_all key m) = replicas m"
  "ring_keys (ring_place_all key m) = ring_keys m @ ring_points m key"
  "hashmap (ring_place_all key m) p = (if p \<in> set (ring_points m key) then Some key else hashmap m p)"
  by (simp_all only: ring_place_all_def fold_ring_place_frame fold_ring_place_keys
      fold_ring_place_hashmap ring_points_def)

lemma fold_ring_place_all_frame [simp]:
  "ring_hash (fold ring_place_all keys m) = ring_hash m"
  "replicas (fold ring_place_all keys m) = replicas m"
  by (induction keys arbitrary: m) auto

lemma ring_points_place_all [simp]: "ring_points (ring_place_all key m) = ring_points m"
  by (rule ring_points_cong) simp_all

lemma fold_ring_place_all_keys:
  "set (ring_keys (fold ring_place_all keys m))
     = set (ring_keys m) \<union> (\<Union>key \<in> set keys. set (ring_points m key))"
  by (induction keys arbitrary: m) auto

lemma fold_ring_place_all_hashmap:
  "hashmap (fold ring_place_all keys m) p = Some node \<Longrightarrow>
     (node \<in> set keys \<and> p \<in> set (ring_points m node)) \<or> hashmap m p = Some node"
  by (induction keys arbitrary: m) (fastforce split: if_splits)+

lemma fold_ring_place_all_dom:
  "dom (hashmap (fold ring_place_all keys m))
     = dom (hashmap m) \<union> (\<Union>key \<in> set keys. set (ring_points m key))"
  by (induction keys arbitrary: m) (auto split: if_splits)

lemma ring_add_simps [simp]:
  "ring_hash (ring_add keys m) = ring_hash m"
  "replicas (ring_add keys m) = replicas m"
  "ring_keys (ring_add keys m) = sort (ring_keys (fold ring_place_all keys m))"
  "hashmap (ring_add keys m) = hashmap (fold ring_place_all keys m)"
  by (simp_all add: ring_add_def Let_def)

lemma ring_new_inv: "ring_inv (ring_new n fn)"
  by (simp add: ring_inv_def ring_new_def)

lemma ring_add_inv: "ring_inv m \<Longrightarrow> ring_inv (ring_add keys m)"
  by (simp add: ring_inv_def fold_ring_place_all_keys fold_ring_place_all_dom)

lemma ring_get_successor:
  assumes inv: "ring_inv m" and ne: "ring_keys m \<noteq> []"
  shows "\<exists>p. ring_successor (set (ring_keys m)) (hash_int m key) p
             \<and> hashmap m p = Some (ring_get m key)"
proof -
  let ?idx = "sort_Search (length (ring_keys m)) (\<lambda>i. hash_int m key \<le> ring_keys m ! i)"
  let ?p = "ring_keys m ! (?idx mod length (ring_keys m))"
  have succ: "ring_successor (set (ring_keys m)) (hash_int m key) ?p"
    using inv ne by (intro sorted_search_successor) (simp_all add: ring_inv_def)
  then have "?p \<in> dom (hashmap m)"
    using inv by (simp add: ring_successor_def ring_inv_def)
  then have "hashmap m ?p = Some (ring_get m key)"
    using ne by (auto simp: ring_get_def Let_def)
  with succ show ?thesis by blast
qed

lemma ring_get_eqI:
  assumes "ring_inv m" and "ring_successor (set (ring_keys m)) (hash_int m key) p"
  shows "hashmap m p = Some (ring_get m key)"
proof -
  have "ring_keys m \<noteq> []" using assms(2) by (auto simp: ring_successor_def)
  from ring_get_successor [OF assms(1) this, of key] ring_successor_unique [OF assms(2)]
  show ?thesis by blast
qed

section \<open>The interface of a ring\<close>

text \<open>
  What a peer picker relies on: a key is routed to a member, and when a node joins a non-empty
  ring a key keeps its owner or goes to the new node.
\<close>

locale key_router =
  fixes inv :: "'m \<Rightarrow> bool"
    and route :: "'m \<Rightarrow> string \<Rightarrow> string"
    and join_nodes :: "string list \<Rightarrow> 'm \<Rightarrow> 'm"
    and members :: "'m \<Rightarrow> string set"
  assumes join_inv: "inv m \<Longrightarrow> inv (join_nodes ns m)"
    and route_member: "inv m \<Longrightarrow> members m \<noteq> {} \<Longrightarrow> route m k \<in> members m"
    and members_join: "inv m \<Longrightarrow> members (join_nodes ns m) \<subseteq> members m \<union> set ns"
    and members_kept: "inv m \<Longrightarrow> members m \<noteq> {} \<Longrightarrow> members (join_nodes ns m) \<noteq> {}"
    and route_stable:
      "inv m \<Longrightarrow> members m \<noteq> {} \<Longrightarrow> route (join_nodes ns m) k \<in> insert (route m k) (set ns)"
begin

text \<open>Several joins in a row: a key is with its old owner or with one of the newcomers.\<close>

lemma route_stable_fold:
  "inv m \<Longrightarrow> members m \<noteq> {} \<Longrightarrow>
     route (fold join_nodes nss m) k \<in> insert (route m k) (set (concat nss))"
proof (induction nss arbitrary: m)
  case (Cons ns nss)
  from Cons.IH [OF join_inv [OF Cons.prems(1)] members_kept [OF Cons.prems], of ns]
    route_stable [OF Cons.prems, of ns k]
  show ?case by auto
qed simp

lemma inv_fold: "inv m \<Longrightarrow> inv (fold join_nodes nss m)"
  by (induction nss arbitrary: m) (auto intro: join_inv)

lemma members_fold: "inv m \<Longrightarrow> members (fold join_nodes nss m) \<subseteq> members m \<union> set (concat nss)"
proof (induction nss arbitrary: m)
  case (Cons ns nss)
  from Cons.IH [OF join_inv [OF Cons.prems], of ns] members_join [OF Cons.prems, of ns]
  show ?case by auto
qed simp

lemma routed_to_joined:
  assumes "inv m" and "members (fold join_nodes nss m) \<noteq> {}"
  shows "route (fold join_nodes nss m) k \<in> members m \<union> set (concat nss)"
  using route_member [OF inv_fold [OF assms(1)] assms(2)] members_fold [OF assms(1)] by blast

end

text \<open>The nodes that own a point of the ring.\<close>

definition ring_members :: "ring \<Rightarrow> string set" where
  "ring_members m = ran (hashmap m)"

lemma ring_members_empty_iff: "ring_inv m \<Longrightarrow> ring_members m = {} \<longleftrightarrow> ring_keys m = []"
  by (auto simp: ring_members_def ring_inv_def ran_def dom_def)

lemma ring_add_stable:
  assumes inv: "ring_inv m" and ne: "ring_keys m \<noteq> []"
  shows "ring_get (ring_add ns m) k \<in> insert (ring_get m k) (set ns)"
proof -
  let ?m = "ring_add ns m"
  have inv': "ring_inv ?m" by (rule ring_add_inv [OF inv])
  have keys: "set (ring_keys m) \<subseteq> set (ring_keys ?m)"
    by (auto simp: fold_ring_place_all_keys)
  then have "ring_keys ?m \<noteq> []" using ne by (metis list.set_intros(1) neq_Nil_conv subsetD empty_iff empty_set)
  from ring_get_successor [OF inv' this, of k] obtain p
    where p: "ring_successor (set (ring_keys ?m)) (hash_int ?m k) p"
      "hashmap ?m p = Some (ring_get ?m k)" by blast
  have hash: "hash_int ?m = hash_int m" by (rule hash_int_cong) simp
  from p(2) consider "ring_get ?m k \<in> set ns" | "hashmap m p = Some (ring_get ?m k)"
    using fold_ring_place_all_hashmap by fastforce
  then show ?thesis
  proof cases
    case 2
    then have "p \<in> set (ring_keys m)" using inv by (auto simp: ring_inv_def)
    with ring_successor_subset [OF p(1) keys] have "ring_successor (set (ring_keys m)) (hash_int m k) p"
      by (simp add: hash)
    from ring_get_eqI [OF inv this] 2 show ?thesis by simp
  qed simp
qed

interpretation hash_ring: key_router ring_inv ring_get ring_add ring_members
proof unfold_locales
  fix m ns k
  assume inv: "ring_inv m"
  show "ring_inv (ring_add ns m)" by (rule ring_add_inv [OF inv])
  show "ring_members (ring_add ns m) \<subseteq> ring_members m \<union> set ns"
    using fold_ring_place_all_hashmap by (fastforce simp: ring_members_def ran_def)
  assume ne: "ring_members m \<noteq> {}"
  then have keys: "ring_keys m \<noteq> []" using ring_members_empty_iff [OF inv] by simp
  from ring_get_successor [OF inv keys, of k] show "ring_get m k \<in> ring_members m"
    by (auto simp: ring_members_def ran_def)
  show "ring_get (ring_add ns m) k \<in> insert (ring_get m k) (set ns)"
    by (rule ring_add_stable [OF inv keys])
  show "ring_members (ring_add ns m) \<noteq> {}"
    using keys ring_members_empty_iff [OF ring_add_inv [OF inv]]
    by (auto simp: fold_ring_place_all_keys dest!: arg_cong [where f = set])
qed

section \<open>The order of the nodes does not matter\<close>

text \<open>No two different nodes share a point of the ring.\<close>

definition collision_free :: "ring \<Rightarrow> string list \<Rightarrow> bool" where
  "collision_free m ns \<longleftrightarrow>
     (\<forall>a \<in> set ns. \<forall>b \<in> set ns. a \<noteq> b \<longrightarrow> set (ring_points m a) \<inter> set (ring_points m b) = {})"

lemma collision_free_hashmap:
  assumes free: "collision_free m ns" and new: "hashmap m = (\<lambda>_. None)"
  shows "hashmap (ring_add ns m) p = Some node
           \<longleftrightarrow> node \<in> set ns \<and> p \<in> set (ring_points m node)"
proof
  assume "hashmap (ring_add ns m) p = Some node"
  then show "node \<in> set ns \<and> p \<in> set (ring_points m node)"
    using fold_ring_place_all_hashmap [of ns m p node] new by simp
next
  assume node: "node \<in> set ns \<and> p \<in> set (ring_points m node)"
  then have "p \<in> dom (hashmap (ring_add ns m))"
    by (auto simp: fold_ring_place_all_dom)
  then obtain node' where node': "hashmap (ring_add ns m) p = Some node'" by auto
  then have "node' \<in> set ns" "p \<in> set (ring_points m node')"
    using fold_ring_place_all_hashmap [of ns m p node'] new by auto
  with free node have "node' = node" unfolding collision_free_def by blast
  with node' show "hashmap (ring_add ns m) p = Some node" by simp
qed

lemma ring_get_cong:
  assumes "ring_inv m" and "ring_inv m'" and "ring_hash m = ring_hash m'"
    and "hashmap m = hashmap m'"
  shows "ring_get m k = ring_get m' k"
proof (cases "ring_keys m = []")
  case True
  with assms have "ring_keys m' = []" by (metis dom_eq_empty_conv ring_inv_def set_empty)
  with True show ?thesis by (simp add: ring_get_def)
next
  case False
  from ring_get_successor [OF assms(1) this, of k] obtain p
    where p: "ring_successor (set (ring_keys m)) (hash_int m k) p"
      "hashmap m p = Some (ring_get m k)" by blast
  have "ring_successor (set (ring_keys m')) (hash_int m' k) p"
    using p(1) assms by (simp add: ring_inv_def hash_int_def)
  from ring_get_eqI [OF assms(2) this] p(2) assms(4) show ?thesis by simp
qed

section \<open>Properties\<close>

text \<open>The hash function of the repository's own test: the number the key spells.\<close>

definition decimal_hash :: "bytes \<Rightarrow> uint32" where
  "decimal_hash bs = word_of_nat (fold (\<lambda>c n. n * 10 + (of_char c - 48)) bs 0)"

definition ring_example :: ring where
  "ring_example = ring_add [''6'', ''4'', ''2''] (ring_new 3 (Some decimal_hash))"

lemma ring_example_values:
  "ring_get ring_example ''11'' = ''2''" "ring_get ring_example ''27'' = ''2''"
  "hash_int ring_example ''11'' = 11" "ring_keys ring_example \<noteq> []"
  "ring_keys ring_example = [2, 4, 6, 12, 14, 16, 22, 24, 26]"
  by code_simp+

lemma ring_example_built:
  "ring_example = fold ring_add [[''6'', ''4'', ''2'']] (ring_new 3 (Some decimal_hash))"
  by (simp add: ring_example_def)

lemma ring_built_inv: "ring_inv (fold ring_add nss (ring_new n fn))"
  by (rule hash_ring.inv_fold [OF ring_new_inv])

lemma fold_ring_add_frame [simp]:
  "ring_hash (fold ring_add nss m) = ring_hash m" "replicas (fold ring_add nss m) = replicas m"
  by (induction nss arbitrary: m) auto

lemma fold_ring_add_hashmap:
  "hashmap (fold ring_add nss m) p = Some node \<Longrightarrow>
     (node \<in> set (concat nss) \<and> p \<in> set (ring_points m node)) \<or> hashmap m p = Some node"
proof (induction nss arbitrary: m)
  case (Cons ns nss)
  have "ring_points (ring_add ns m) = ring_points m" by (rule ring_points_cong) simp_all
  with Cons.IH [of "ring_add ns m"] Cons.prems fold_ring_place_all_hashmap [of ns m p node]
  show ?case by auto
qed simp

text \<open>C5: On a ring built by any sequence of \<open>Add\<close> calls, \<open>Get\<close> finds by binary search the owner
  of the clockwise successor of the key's hash: the least point that is not below the hash, or
  the least point of all when every point is below it.  That owner is an added node and the point
  is one of its replicas.\<close>

theorem ring_get_finds_successor:
  assumes "m = fold ring_add nss (ring_new n fn)" and "ring_keys m \<noteq> []"
  shows "\<exists>p. ring_successor (set (ring_keys m)) (hash_int m key) p
             \<and> hashmap m p = Some (ring_get m key)
             \<and> ring_get m key \<in> set (concat nss)
             \<and> p \<in> set (ring_points m (ring_get m key))"
proof -
  have inv: "ring_inv m" unfolding assms(1) by (rule ring_built_inv)
  from ring_get_successor [OF inv assms(2), of key] obtain p
    where p: "ring_successor (set (ring_keys m)) (hash_int m key) p"
      "hashmap m p = Some (ring_get m key)" by blast
  have "ring_points m = ring_points (ring_new n fn)"
    unfolding assms(1) by (rule ring_points_cong) simp_all
  moreover have "hashmap (ring_new n fn) = (\<lambda>_. None)" by (simp add: ring_new_def)
  ultimately show ?thesis
    using p fold_ring_add_hashmap [of nss "ring_new n fn" p "ring_get m key"] assms(1) by auto
qed

theorem ring_get_finds_successor_witness:
  "\<exists>p. ring_successor (set (ring_keys ring_example)) 11 p \<and> hashmap ring_example p = Some ''2''"
  using ring_get_finds_successor [OF ring_example_built, of "''11''"] ring_example_values by auto

text \<open>C6: Growing the ring moves keys only to the new nodes: after any further \<open>Add\<close> calls a key
  is still with its old owner, or with one of the nodes just added.\<close>

theorem ring_growth_moves_keys_to_newcomers:
  assumes "m = fold ring_add nss (ring_new n fn)" and "ring_keys m \<noteq> []"
  shows "ring_get (fold ring_add later m) key \<in> insert (ring_get m key) (set (concat later))"
proof (rule hash_ring.route_stable_fold)
  show "ring_inv m" unfolding assms(1) by (rule ring_built_inv)
  then show "ring_members m \<noteq> {}" using assms(2) by (simp add: ring_members_empty_iff)
qed

theorem ring_growth_moves_keys_to_newcomers_witness:
  "ring_get (fold ring_add [[''8'']] ring_example) ''27'' \<in> {''2'', ''8''}"
  using ring_growth_moves_keys_to_newcomers [OF ring_example_built, of "[[''8'']]" "''27''"]
    ring_example_values by simp

text \<open>C7: Two processes that are told the same set of nodes in different orders (or with
  repetitions) route every key alike, provided no two nodes share a point of the ring.\<close>

theorem ring_order_irrelevant:
  assumes "set ns = set ns'" and "collision_free (ring_new n fn) ns"
  shows "ring_get (ring_add ns (ring_new n fn)) key = ring_get (ring_add ns' (ring_new n fn)) key"
proof (rule ring_get_cong)
  have new: "hashmap (ring_new n fn) = (\<lambda>_. None)" by (simp add: ring_new_def)
  have free: "collision_free (ring_new n fn) ns'" using assms by (simp add: collision_free_def)
  have "hashmap (ring_add ns (ring_new n fn)) p = Some node
      \<longleftrightarrow> hashmap (ring_add ns' (ring_new n fn)) p = Some node" for p node
    unfolding collision_free_hashmap [OF assms(2) new] collision_free_hashmap [OF free new]
    by (simp add: assms(1))
  then show "hashmap (ring_add ns (ring_new n fn)) = hashmap (ring_add ns' (ring_new n fn))"
    by (metis (no_types, opaque_lifting) ext not_Some_eq)
qed (simp_all only: ring_add_inv ring_new_inv ring_add_simps)

theorem ring_order_irrelevant_witness:
  "ring_get (ring_add [''6'', ''4''] (ring_new 2 (Some decimal_hash))) ''15''
     = ring_get (ring_add [''4'', ''6'', ''4''] (ring_new 2 (Some decimal_hash))) ''15''"
proof (rule ring_order_irrelevant)
  show "collision_free (ring_new 2 (Some decimal_hash)) [''6'', ''4'']" by code_simp
qed auto

end
