(* ===== verification/ByteView.thy ===== *)
theory ByteView
  imports Prelude
begin

text \<open>
  The read-only view of \<^verbatim>\<open>geecache/geecache/byteview.go\<close>, with the aliasing of Go's slices kept: a
  slice is the address of an array in a heap, a view holds such an address, and \<open>cloneBytes\<close>
  allocates.  The lemmas show why the rest of the model may represent a cached view by its
  contents: no write through any other slice, in particular none through a slice that
  \<open>ByteSlice\<close> handed out, changes what a view reads.
\<close>

section \<open>Slices in a heap\<close>

record byte_heap =
  cells :: "nat \<rightharpoonup> bytes"
  next_cell :: nat

definition slice_contents :: "byte_heap \<Rightarrow> nat \<Rightarrow> bytes" where
  "slice_contents h a = (case cells h a of None \<Rightarrow> [] | Some bs \<Rightarrow> bs)"

definition make_bytes :: "nat \<Rightarrow> byte_heap \<Rightarrow> nat \<times> byte_heap" where
  "make_bytes n h =
     (next_cell h,
      h\<lparr>cells := (cells h)(next_cell h \<mapsto> replicate n (CHR 0x00)), next_cell := Suc (next_cell h)\<rparr>)"

text \<open>The builtin \<open>copy\<close>: as many bytes as the shorter slice has.\<close>

definition copy_bytes :: "nat \<Rightarrow> nat \<Rightarrow> byte_heap \<Rightarrow> byte_heap" where
  "copy_bytes dst src h =
     (let d = slice_contents h dst; s = slice_contents h src; n = min (length d) (length s)
      in h\<lparr>cells := (cells h)(dst \<mapsto> take n s @ drop n d)\<rparr>)"

definition cloneBytes :: "nat \<Rightarrow> byte_heap \<Rightarrow> nat \<times> byte_heap" where
  "cloneBytes b h =
     (let (c, h') = make_bytes (length (slice_contents h b)) h in (c, copy_bytes c b h'))"

text \<open>The assignment \<open>s[i] = x\<close>, which panics out of range.\<close>

definition write_byte :: "nat \<Rightarrow> nat \<Rightarrow> char \<Rightarrow> byte_heap \<Rightarrow> byte_heap outcome" where
  "write_byte s i x h =
     (if i < length (slice_contents h s)
      then Ret (h\<lparr>cells := (cells h)(s \<mapsto> (slice_contents h s)[i := x])\<rparr>)
      else Panic ''index out of range'')"

section \<open>The view\<close>

record byteview =
  view_b :: nat

definition view_Len :: "byteview \<Rightarrow> byte_heap \<Rightarrow> nat" where
  "view_Len v h = length (slice_contents h (view_b v))"

definition ByteSlice :: "byteview \<Rightarrow> byte_heap \<Rightarrow> nat \<times> byte_heap" where
  "ByteSlice v h = cloneBytes (view_b v) h"

definition view_String :: "byteview \<Rightarrow> byte_heap \<Rightarrow> string" where
  "view_String v h = slice_contents h (view_b v)"

text \<open>Every allocated address is below the allocator.\<close>

definition heap_ok :: "byte_heap \<Rightarrow> bool" where
  "heap_ok h \<longleftrightarrow> (\<forall>a. cells h a \<noteq> None \<longrightarrow> a < next_cell h)"

text \<open>A program that writes through slices: a list of assignments, run until one panics.\<close>

fun write_all :: "(nat \<times> nat \<times> char) list \<Rightarrow> byte_heap \<Rightarrow> byte_heap" where
  "write_all [] h = h"
| "write_all ((s, i, x) # ws) h =
     (case write_byte s i x h of Ret h' \<Rightarrow> write_all ws h' | Panic m \<Rightarrow> h)"

lemma write_byte_other:
  "write_byte s i x h = Ret h' \<Longrightarrow> a \<noteq> s \<Longrightarrow> slice_contents h' a = slice_contents h a"
  by (auto simp: write_byte_def slice_contents_def split: if_splits)

lemma write_all_other:
  "a \<notin> fst ` set ws \<Longrightarrow> slice_contents (write_all ws h) a = slice_contents h a"
  by (induction ws h rule: write_all.induct)
    (auto split: outcome.splits simp: write_byte_other)

lemma cloneBytes_contents:
  assumes "heap_ok h" and "cells h b \<noteq> None" and "cloneBytes b h = (c, h')"
  shows "slice_contents h' c = slice_contents h b" and "slice_contents h' b = slice_contents h b"
    and "c \<noteq> b" and "cells h c = None" and "heap_ok h'"
proof -
  have lt: "b < next_cell h" using assms(1,2) by (auto simp: heap_ok_def)
  have c: "c = next_cell h" using assms(3) by (simp add: cloneBytes_def make_bytes_def)
  show "c \<noteq> b" "cells h c = None" using lt c assms(1) by (auto simp: heap_ok_def)
  show "slice_contents h' c = slice_contents h b" "slice_contents h' b = slice_contents h b"
    "heap_ok h'"
    using assms lt
    by (auto simp: cloneBytes_def make_bytes_def copy_bytes_def slice_contents_def heap_ok_def
        Let_def less_Suc_eq split: if_splits)
qed

section \<open>Properties\<close>

text \<open>C8: A slice from \<open>ByteSlice\<close> holds the bytes of the view at an address that was not in
  use; whatever is later written through slices other than the view's own array, including the
  returned one, the view still reads as the same string.\<close>

theorem ByteSlice_isolates_view:
  assumes "heap_ok h" and "cells h (view_b v) \<noteq> None" and "ByteSlice v h = (s, h')"
  shows "slice_contents h' s = view_String v h \<and> cells h s = None
           \<and> (\<forall>ws. view_b v \<notin> fst ` set ws \<longrightarrow> view_String v (write_all ws h') = view_String v h)"
proof -
  have "cloneBytes (view_b v) h = (s, h')" using assms(3) by (simp add: ByteSlice_def)
  note clone = cloneBytes_contents [OF assms(1,2) this]
  show ?thesis
  proof (intro conjI allI impI)
    show "slice_contents h' s = view_String v h" using clone(1) by (simp only: view_String_def)
    show "cells h s = None" by (rule clone(4))
  next
    fix ws :: "(nat \<times> nat \<times> char) list"
    assume "view_b v \<notin> fst ` set ws"
    from write_all_other [OF this, of h'] clone(2)
    show "view_String v (write_all ws h') = view_String v h" by (simp only: view_String_def)
  qed
qed

definition heap_example :: byte_heap where
  "heap_example = \<lparr>cells = [0 \<mapsto> ''630''], next_cell = 1\<rparr>"

theorem ByteSlice_isolates_view_witness:
  "\<exists>s h'. ByteSlice \<lparr>view_b = 0\<rparr> heap_example = (s, h')
     \<and> view_String \<lparr>view_b = 0\<rparr> (write_all [(s, 0, CHR ''9'')] h') = ''630''"
proof -
  obtain s h' where sh: "ByteSlice \<lparr>view_b = 0\<rparr> heap_example = (s, h')" by fastforce
  have ok: "heap_ok heap_example" "cells heap_example (view_b \<lparr>view_b = 0\<rparr>) \<noteq> None"
    by (simp_all add: heap_example_def heap_ok_def)
  have "s = 1"
    using sh by (simp add: ByteSlice_def cloneBytes_def make_bytes_def heap_example_def)
  then have "view_b \<lparr>view_b = 0\<rparr> \<notin> fst ` set [(s, 0, CHR ''9'')]" by simp
  with ByteSlice_isolates_view [OF ok sh]
  have "view_String \<lparr>view_b = 0\<rparr> (write_all [(s, 0, CHR ''9'')] h')
      = view_String \<lparr>view_b = 0\<rparr> heap_example" by blast
  also have "\<dots> = ''630''"
    by (simp add: view_String_def slice_contents_def heap_example_def)
  finally show ?thesis using sh by blast
qed

end
