(* ===== verification/MainCache.thy ===== *)
theory MainCache
  imports Lru
begin

text \<open>
  The locked cache of \<^verbatim>\<open>geecache/geecache/cache.go\<close>: an LRU cache that is created at the first
  \<open>add\<close>.  Each operation runs under the mutex \<open>mu\<close> from its first to its last statement and
  is therefore one atomic step.  A cached \<open>ByteView\<close> is represented by its contents (the theory
  ByteView shows that nothing can change them).
\<close>

definition view_len :: "bytes \<Rightarrow> int64" where
  "view_len v = strlen v"

record main_cache =
  mc_lru :: "(bytes, unit) lru_cache option"
  cacheBytes :: int64

definition mc_add :: "string \<Rightarrow> bytes \<Rightarrow> main_cache \<Rightarrow> main_cache option" where
  "mc_add key value c =
     (let l = (case mc_lru c of None \<Rightarrow> lru_new (cacheBytes c) None () | Some l \<Rightarrow> l)
      in map_option (\<lambda>l'. c\<lparr>mc_lru := Some l'\<rparr>) (lru_add view_len key value l))"

definition mc_get :: "string \<Rightarrow> main_cache \<Rightarrow> bytes option \<times> main_cache" where
  "mc_get key c =
     (case mc_lru c of
        None \<Rightarrow> (None, c)
      | Some l \<Rightarrow> (let (v, l') = lru_get key l in (v, c\<lparr>mc_lru := Some l'\<rparr>)))"

definition mc_contents :: "main_cache \<Rightarrow> (string \<times> bytes) list" where
  "mc_contents c = (case mc_lru c of None \<Rightarrow> [] | Some l \<Rightarrow> lru_contents l)"

definition mc_inv :: "main_cache \<Rightarrow> bool" where
  "mc_inv c \<longleftrightarrow> 0 \<le> sint (cacheBytes c) \<and>
     (case mc_lru c of
        None \<Rightarrow> True | Some l \<Rightarrow> lru_inv view_len l \<and> maxBytes l = cacheBytes c)"

lemma mc_get_result: "mc_inv c \<Longrightarrow> fst (mc_get k c) = map_of (mc_contents c) k"
  by (auto simp: mc_get_def mc_inv_def mc_contents_def lru_get_result split_beta
      split: option.splits)

lemma mc_get_contents: "mc_inv c \<Longrightarrow> mc_contents (snd (mc_get k c)) = recency_touch k (mc_contents c)"
  by (auto simp: mc_get_def mc_inv_def mc_contents_def lru_get_contents split_beta
      recency_touch_def split: option.splits)

lemma mc_get_inv: "mc_inv c \<Longrightarrow> mc_inv (snd (mc_get k c))"
  by (auto simp: mc_get_def mc_inv_def lru_get_inv split_beta split: option.splits)

lemma mc_get_cacheBytes [simp]: "cacheBytes (snd (mc_get k c)) = cacheBytes c"
  by (simp add: mc_get_def split_beta split: option.splits)

lemma mc_add_step:
  assumes "mc_inv c"
  shows "\<exists>c'. mc_add k v c = Some c' \<and> mc_inv c' \<and> cacheBytes c' = cacheBytes c
           \<and> mc_contents c' = recency_trim view_len (cacheBytes c) (recency_put k v (mc_contents c))"
proof -
  let ?l = "case mc_lru c of None \<Rightarrow> lru_new (cacheBytes c) None () | Some l \<Rightarrow> l"
  have "lru_inv view_len ?l" "maxBytes ?l = cacheBytes c" "lru_contents ?l = mc_contents c"
    "0 \<le> sint (maxBytes ?l)"
    using assms by (auto simp: mc_inv_def mc_contents_def lru_new_inv split: option.splits)
  with lru_add_step [of view_len ?l k v] assms show ?thesis
    by (auto simp: mc_add_def Let_def mc_inv_def mc_contents_def)
qed

lemma mc_keys_distinct: "mc_inv c \<Longrightarrow> distinct (map fst (mc_contents c))"
  by (auto simp: mc_inv_def mc_contents_def lru_keys_distinct split: option.splits)

interpretation mc_store: cache_store mc_inv "\<lambda>c. map_of (mc_contents c)" mc_get mc_add
proof unfold_locales
  fix c k v
  assume inv: "mc_inv c"
  show "fst (mc_get k c) = map_of (mc_contents c) k" by (rule mc_get_result [OF inv])
  show "map_of (mc_contents (snd (mc_get k c))) = map_of (mc_contents c)"
    by (simp add: mc_get_contents [OF inv] map_of_recency_touch)
  show "mc_inv (snd (mc_get k c))" by (rule mc_get_inv [OF inv])
  from mc_add_step [OF inv, of k v]
  show "\<exists>c'. mc_add k v c = Some c' \<and> mc_inv c'
      \<and> map_of (mc_contents c') \<subseteq>\<^sub>m (map_of (mc_contents c))(k \<mapsto> v)"
    using map_of_recency_trim [OF distinct_recency_put [OF mc_keys_distinct [OF inv]]]
    by (fastforce simp: map_of_recency_put)
qed

end
