(* ===== verification/SingleFlight.thy ===== *)
theory SingleFlight
  imports Prelude
begin

text \<open>
  Request coalescing of \<^verbatim>\<open>geecache/geecache/singleflight/singleflight.go\<close>, as a transition system:
  any number of goroutines, each making one call of \<open>Do\<close> with its key, interleave at the points
  where \<open>Do\<close> takes or releases the mutex, waits, runs \<open>fn\<close> or signals.  The critical
  sections under \<open>g.mu\<close> are single steps; \<open>fn\<close> may return any result, or panic, which ends
  its goroutine without the statements after it.
\<close>

section \<open>State and steps\<close>

text \<open>
  A \<open>call\<close> of the source: \<open>done\<close> stands for the wait group at zero, \<open>val\<close> for the pair
  \<open>(val, err)\<close> once it is assigned.  The key and the goroutine that created the call are recorded
  for the statements below only.
\<close>

record 'r sf_call =
  call_done :: bool
  call_val :: "'r option"
  call_key :: string
  call_leader :: nat

text \<open>
  Where a goroutine is in \<open>Do\<close>: before the first critical section, in \<open>c.wg.Wait()\<close>, in
  \<open>fn()\<close>, before \<open>c.wg.Done()\<close>, before the deletion from the map, or returned with the
  call's result; \<open>Crashed\<close> is the goroutine whose \<open>fn\<close> panicked.
\<close>

datatype sf_pc =
  Start | Waiting nat | Running nat | Computed nat | Deleting nat | Finished nat | Crashed nat

record 'r sf_state =
  sf_m :: "string \<rightharpoonup> nat"
  sf_calls :: "nat \<rightharpoonup> 'r sf_call"
  sf_next :: nat
  sf_pcs :: "nat \<Rightarrow> sf_pc"

definition sf_init :: "'r sf_state \<Rightarrow> bool" where
  "sf_init s \<longleftrightarrow> s = \<lparr>sf_m = (\<lambda>_. None), sf_calls = (\<lambda>_. None), sf_next = 0, sf_pcs = (\<lambda>_. Start)\<rparr>"

definition sf_goto :: "nat \<Rightarrow> sf_pc \<Rightarrow> 'r sf_state \<Rightarrow> 'r sf_state" where
  "sf_goto t pc s = s\<lparr>sf_pcs := (sf_pcs s)(t := pc)\<rparr>"

text \<open>The first critical section: join the call in flight, or become the leader of a new one.\<close>

definition sf_enter :: "(nat \<Rightarrow> string) \<Rightarrow> nat \<Rightarrow> 'r sf_state \<Rightarrow> 'r sf_state" where
  "sf_enter key_of t s =
     (case sf_m s (key_of t) of
        Some c \<Rightarrow> sf_goto t (Waiting c) s
      | None \<Rightarrow>
          sf_goto t (Running (sf_next s))
            (s\<lparr>sf_calls := (sf_calls s)(sf_next s \<mapsto>
                 \<lparr>call_done = False, call_val = None, call_key = key_of t, call_leader = t\<rparr>),
               sf_m := (sf_m s)(key_of t \<mapsto> sf_next s),
               sf_next := Suc (sf_next s)\<rparr>))"

definition sf_update :: "nat \<Rightarrow> ('r sf_call \<Rightarrow> 'r sf_call) \<Rightarrow> 'r sf_state \<Rightarrow> 'r sf_state" where
  "sf_update c f s = s\<lparr>sf_calls := (sf_calls s)(c := map_option f (sf_calls s c))\<rparr>"

definition sf_delete :: "string \<Rightarrow> 'r sf_state \<Rightarrow> 'r sf_state" where
  "sf_delete k s = s\<lparr>sf_m := (sf_m s)(k := None)\<rparr>"

inductive sf_step :: "(nat \<Rightarrow> string) \<Rightarrow> 'r sf_state \<Rightarrow> 'r sf_state \<Rightarrow> bool"
  for key_of :: "nat \<Rightarrow> string" where
  enter: "sf_pcs s t = Start \<Longrightarrow> sf_step key_of s (sf_enter key_of t s)"
| fn_returns: "sf_pcs s t = Running c \<Longrightarrow>
    sf_step key_of s (sf_goto t (Computed c) (sf_update c (call_val_update (\<lambda>_. Some r)) s))"
| fn_panics: "sf_pcs s t = Running c \<Longrightarrow> sf_step key_of s (sf_goto t (Crashed c) s)"
| signal: "sf_pcs s t = Computed c \<Longrightarrow>
    sf_step key_of s (sf_goto t (Deleting c) (sf_update c (call_done_update (\<lambda>_. True)) s))"
| remove: "sf_pcs s t = Deleting c \<Longrightarrow>
    sf_step key_of s (sf_goto t (Finished c) (sf_delete (key_of t) s))"
| wake: "sf_pcs s t = Waiting c \<Longrightarrow> sf_calls s c = Some cl \<Longrightarrow> call_done cl \<Longrightarrow>
    sf_step key_of s (sf_goto t (Finished c) s)"

section \<open>The invariant\<close>

text \<open>What the program counter of a goroutine says about the call it leads, awaits or returned.\<close>

fun sf_pc_ok :: "(nat \<Rightarrow> string) \<Rightarrow> 'r sf_state \<Rightarrow> nat \<Rightarrow> sf_pc \<Rightarrow> bool" where
  "sf_pc_ok key_of s t Start = True"
| "sf_pc_ok key_of s t (Waiting c) =
     (\<exists>cl. sf_calls s c = Some cl \<and> call_key cl = key_of t)"
| "sf_pc_ok key_of s t (Running c) =
     (sf_m s (key_of t) = Some c \<and>
      sf_calls s c = Some \<lparr>call_done = False, call_val = None, call_key = key_of t, call_leader = t\<rparr>)"
| "sf_pc_ok key_of s t (Crashed c) =
     (sf_m s (key_of t) = Some c \<and>
      sf_calls s c = Some \<lparr>call_done = False, call_val = None, call_key = key_of t, call_leader = t\<rparr>)"
| "sf_pc_ok key_of s t (Computed c) =
     (sf_m s (key_of t) = Some c \<and>
      (\<exists>r. sf_calls s c =
         Some \<lparr>call_done = False, call_val = Some r, call_key = key_of t, call_leader = t\<rparr>))"
| "sf_pc_ok key_of s t (Deleting c) =
     (sf_m s (key_of t) = Some c \<and>
      (\<exists>r. sf_calls s c =
         Some \<lparr>call_done = True, call_val = Some r, call_key = key_of t, call_leader = t\<rparr>))"
| "sf_pc_ok key_of s t (Finished c) =
     (\<exists>cl r. sf_calls s c = Some cl \<and> call_key cl = key_of t \<and> call_done cl \<and> call_val cl = Some r)"

definition sf_leading :: "sf_pc \<Rightarrow> nat \<Rightarrow> bool" where
  "sf_leading pc c \<longleftrightarrow> pc \<in> {Running c, Computed c, Deleting c, Crashed c}"

text \<open>A call knows its key, and its leader is still on it unless it is done.\<close>

definition sf_call_ok :: "(nat \<Rightarrow> string) \<Rightarrow> 'r sf_state \<Rightarrow> nat \<Rightarrow> 'r sf_call \<Rightarrow> bool" where
  "sf_call_ok key_of s c cl \<longleftrightarrow>
     c < sf_next s \<and> key_of (call_leader cl) = call_key cl \<and>
     (call_done cl \<longrightarrow> call_val cl \<noteq> None) \<and>
     (sf_leading (sf_pcs s (call_leader cl)) c
        \<or> call_done cl \<and> sf_pcs s (call_leader cl) = Finished c)"

definition sf_inv :: "(nat \<Rightarrow> string) \<Rightarrow> 'r sf_state \<Rightarrow> bool" where
  "sf_inv key_of s \<longleftrightarrow>
     (\<forall>t. sf_pc_ok key_of s t (sf_pcs s t)) \<and>
     (\<forall>k c. sf_m s k = Some c \<longrightarrow>
        (\<exists>t. key_of t = k \<and> sf_leading (sf_pcs s t) c)) \<and>
     (\<forall>c cl. sf_calls s c = Some cl \<longrightarrow> sf_call_ok key_of s c cl)"

lemma sf_goto_simps [simp]:
  "sf_m (sf_goto t pc s) = sf_m s" "sf_calls (sf_goto t pc s) = sf_calls s"
  "sf_next (sf_goto t pc s) = sf_next s" "sf_pcs (sf_goto t pc s) = (sf_pcs s)(t := pc)"
  by (simp_all add: sf_goto_def)

lemma sf_update_simps [simp]:
  "sf_m (sf_update c f s) = sf_m s" "sf_next (sf_update c f s) = sf_next s"
  "sf_pcs (sf_update c f s) = sf_pcs s"
  "sf_calls (sf_update c f s) = (sf_calls s)(c := map_option f (sf_calls s c))"
  by (simp_all add: sf_update_def)

lemma sf_delete_simps [simp]:
  "sf_m (sf_delete k s) = (sf_m s)(k := None)" "sf_next (sf_delete k s) = sf_next s"
  "sf_pcs (sf_delete k s) = sf_pcs s" "sf_calls (sf_delete k s) = sf_calls s"
  by (simp_all add: sf_delete_def)

lemma sf_pc_ok_cong:
  "sf_m s (key_of t) = sf_m s' (key_of t) \<Longrightarrow> (\<And>c. sf_calls s c = sf_calls s' c) \<Longrightarrow>
     sf_pc_ok key_of s t pc = sf_pc_ok key_of s' t pc"
  by (cases pc) auto

lemma sf_invD:
  assumes "sf_inv key_of s"
  shows "sf_pc_ok key_of s t (sf_pcs s t)"
    and "sf_m s k = Some c \<Longrightarrow> \<exists>t. key_of t = k \<and> sf_leading (sf_pcs s t) c"
    and "sf_calls s c = Some cl \<Longrightarrow> sf_call_ok key_of s c cl"
    and "sf_calls s c = Some cl \<Longrightarrow> c < sf_next s"
  using assms unfolding sf_inv_def sf_call_ok_def by (blast, blast, blast, blast)

lemma sf_leading_owns:
  assumes "sf_inv key_of s" and "sf_leading (sf_pcs s t) c"
  obtains cl where "sf_m s (key_of t) = Some c" and "sf_calls s c = Some cl"
    and "call_leader cl = t" and "call_key cl = key_of t"
  using sf_invD(1) [OF assms(1), of t] assms(2) that unfolding sf_leading_def by fastforce

lemma sf_leader_unique:
  assumes "sf_inv key_of s" and "sf_leading (sf_pcs s t) c" and "sf_leading (sf_pcs s u) d"
    and "key_of t = key_of u"
  shows "t = u"
proof -
  from sf_leading_owns [OF assms(1,2)] sf_leading_owns [OF assms(1,3)] assms(4)
  show ?thesis by (metis option.inject)
qed

text \<open>A change to the call that goroutine \<open>t\<close> leads, while the call is not done, leaves what
  every other goroutine knows intact.\<close>

lemma sf_pc_ok_update_other:
  assumes inv: "sf_inv key_of s" and lead: "sf_leading (sf_pcs s t) c" and ne: "u \<noteq> t"
    and cl: "sf_calls s c = Some cl" "\<not> call_done cl"
    and f: "call_key (f cl) = call_key cl"
  shows "sf_pc_ok key_of (sf_goto t pc (sf_update c f s)) u (sf_pcs s u)"
proof (cases "sf_leading (sf_pcs s u) c")
  case True
  then have "sf_leading (sf_pcs s t) c \<and> sf_leading (sf_pcs s u) c" using lead by simp
  with sf_leading_owns [OF inv lead] sf_leading_owns [OF inv True] ne show ?thesis
    by (metis option.inject)
next
  case False
  then show ?thesis
    using sf_invD(1) [OF inv, of u] cl f by (cases "sf_pcs s u") (auto simp: sf_leading_def)
qed

lemma sf_inv_update:
  assumes inv: "sf_inv key_of s" and lead: "sf_leading (sf_pcs s t) c"
    and cl: "sf_calls s c = Some cl" "\<not> call_done cl"
    and f: "call_key (f cl) = call_key cl" "call_leader (f cl) = call_leader cl"
      "call_done (f cl) \<Longrightarrow> call_val (f cl) \<noteq> None"
    and pc: "sf_leading pc c" "sf_pc_ok key_of (sf_goto t pc (sf_update c f s)) t pc"
  shows "sf_inv key_of (sf_goto t pc (sf_update c f s))"
proof -
  let ?s = "sf_goto t pc (sf_update c f s)"
  have lead_eq: "sf_leading (sf_pcs ?s u) d \<longleftrightarrow> sf_leading (sf_pcs s u) d" for u d
    using lead pc(1) by (auto simp: sf_leading_def)
  have "sf_pc_ok key_of ?s u (sf_pcs ?s u)" for u
    using pc(2) sf_pc_ok_update_other [where f = f, OF inv lead _ cl f(1)] by (cases "u = t") auto
  moreover have "\<exists>u. key_of u = k \<and> sf_leading (sf_pcs ?s u) d" if "sf_m ?s k = Some d" for k d
    using sf_invD(2) [OF inv, of k d] that lead_eq by simp
  moreover have "sf_call_ok key_of ?s d dl" if "sf_calls ?s d = Some dl" for d dl
  proof (cases "d = c")
    case True
    then have "dl = f cl" using that cl by simp
    moreover from sf_leading_owns [OF inv lead] cl(1) have "call_leader cl = t"
      by (metis option.inject)
    ultimately show ?thesis
      using True f pc(1) sf_invD(3) [OF inv cl(1)] by (simp add: sf_call_ok_def)
  next
    case False
    then have dl: "sf_calls s d = Some dl" using that by simp
    have "call_leader dl = t \<Longrightarrow> sf_pcs s t = Finished d \<Longrightarrow> False"
      using lead by (auto simp: sf_leading_def)
    with sf_invD(3) [OF inv dl] lead_eq [of "call_leader dl" d] show ?thesis
      by (auto simp: sf_call_ok_def)
  qed
  ultimately show ?thesis unfolding sf_inv_def by blast
qed

lemma sf_init_inv: "sf_init s \<Longrightarrow> sf_inv key_of s"
  by (simp add: sf_init_def sf_inv_def)

lemma sf_enter_inv:
  assumes inv: "sf_inv key_of s" and pc: "sf_pcs s t = Start"
  shows "sf_inv key_of (sf_enter key_of t s)"
proof (cases "sf_m s (key_of t)")
  case (Some c)
  from sf_invD(2) [OF inv Some] obtain u where u: "key_of u = key_of t" "sf_leading (sf_pcs s u) c"
    by blast
  from sf_leading_owns [OF inv u(2)] u(1) obtain cl
    where cl: "sf_calls s c = Some cl" "call_key cl = key_of t" by metis
  let ?s = "sf_goto t (Waiting c) s"
  have lead_eq: "sf_leading (sf_pcs ?s v) d \<longleftrightarrow> sf_leading (sf_pcs s v) d" for v d
    using pc by (auto simp: sf_leading_def)
  have "sf_pc_ok key_of ?s v (sf_pcs ?s v)" for v
    using sf_invD(1) [OF inv, of v] cl sf_pc_ok_cong [of s key_of v ?s]
    by (cases "v = t") auto
  moreover have "sf_call_ok key_of ?s d dl" if "sf_calls s d = Some dl" for d dl
    using sf_invD(3) [OF inv that] lead_eq pc by (auto simp: sf_call_ok_def)
  ultimately have "sf_inv key_of ?s"
    using inv unfolding sf_inv_def lead_eq by simp
  with Some show ?thesis by (simp add: sf_enter_def)
next
  case None
  let ?n = "sf_next s" and ?s = "sf_enter key_of t s"
  have fresh: "sf_calls s ?n = None" using sf_invD(4) [OF inv, of ?n] by fastforce
  have s: "sf_m ?s = (sf_m s)(key_of t \<mapsto> ?n)" "sf_next ?s = Suc ?n"
    "sf_pcs ?s = (sf_pcs s)(t := Running ?n)"
    "sf_calls ?s = (sf_calls s)(?n \<mapsto>
       \<lparr>call_done = False, call_val = None, call_key = key_of t, call_leader = t\<rparr>)"
    using None by (simp_all add: sf_enter_def)
  have key: "key_of u \<noteq> key_of t" if "sf_leading (sf_pcs s u) c" for u c
    using sf_leading_owns [OF inv that] None by (metis option.distinct(1))
  have "sf_pc_ok key_of ?s u (sf_pcs ?s u)" for u
  proof (cases "u = t")
    case False
    then show ?thesis
      using sf_invD(1) [OF inv, of u] fresh key [of u]
      by (cases "sf_pcs s u") (auto simp: s sf_leading_def)
  qed (simp add: s)
  moreover have "\<exists>u. key_of u = k \<and> sf_leading (sf_pcs ?s u) d" if "sf_m ?s k = Some d" for k d
    using that sf_invD(2) [OF inv, of k d] pc
    by (cases "k = key_of t") (auto simp: s sf_leading_def)
  moreover have "sf_call_ok key_of ?s d dl" if "sf_calls ?s d = Some dl" for d dl
    using that sf_invD(3) [OF inv, of d dl] pc
    by (cases "d = ?n") (auto simp: s sf_leading_def sf_call_ok_def)
  ultimately show ?thesis unfolding sf_inv_def by blast
qed

lemma sf_crash_inv:
  assumes inv: "sf_inv key_of s" and pc: "sf_pcs s t = Running c"
  shows "sf_inv key_of (sf_goto t (Crashed c) s)"
proof -
  let ?s = "sf_goto t (Crashed c) s"
  have lead_eq: "sf_leading (sf_pcs ?s v) d \<longleftrightarrow> sf_leading (sf_pcs s v) d" for v d
    using pc by (auto simp: sf_leading_def)
  have "sf_pc_ok key_of ?s v (sf_pcs ?s v)" for v
    using sf_invD(1) [OF inv, of v] pc sf_pc_ok_cong [of s key_of v ?s]
    by (cases "v = t") auto
  moreover have "sf_call_ok key_of ?s d dl" if "sf_calls s d = Some dl" for d dl
    using sf_invD(3) [OF inv that] lead_eq pc by (auto simp: sf_call_ok_def)
  ultimately show ?thesis using inv unfolding sf_inv_def lead_eq by simp
qed

lemma sf_wake_inv:
  assumes inv: "sf_inv key_of s" and pc: "sf_pcs s t = Waiting c"
    and cl: "sf_calls s c = Some cl" "call_done cl"
  shows "sf_inv key_of (sf_goto t (Finished c) s)"
proof -
  let ?s = "sf_goto t (Finished c) s"
  have lead_eq: "sf_leading (sf_pcs ?s v) d \<longleftrightarrow> sf_leading (sf_pcs s v) d" for v d
    using pc by (auto simp: sf_leading_def)
  have "sf_pc_ok key_of ?s v (sf_pcs ?s v)" for v
    using sf_invD(1) [OF inv, of v] pc cl sf_invD(3) [OF inv cl(1)]
      sf_pc_ok_cong [of s key_of v ?s]
    by (cases "v = t") (auto simp: sf_call_ok_def)
  moreover have "sf_call_ok key_of ?s d dl" if "sf_calls s d = Some dl" for d dl
    using sf_invD(3) [OF inv that] lead_eq pc by (auto simp: sf_call_ok_def)
  ultimately show ?thesis using inv unfolding sf_inv_def lead_eq by simp
qed

lemma sf_remove_inv:
  assumes inv: "sf_inv key_of s" and pc: "sf_pcs s t = Deleting c"
  shows "sf_inv key_of (sf_goto t (Finished c) (sf_delete (key_of t) s))"
proof -
  let ?s = "sf_goto t (Finished c) (sf_delete (key_of t) s)"
  have lead: "sf_leading (sf_pcs s t) c" using pc by (simp add: sf_leading_def)
  have call: "sf_m s (key_of t) = Some c" "\<exists>r. sf_calls s c =
      Some \<lparr>call_done = True, call_val = Some r, call_key = key_of t, call_leader = t\<rparr>"
    using sf_invD(1) [OF inv, of t] pc by auto
  have key: "key_of u \<noteq> key_of t" if "sf_leading (sf_pcs s u) d" "u \<noteq> t" for u d
    using sf_leader_unique [OF inv lead that(1)] that(2) by metis
  have "sf_pc_ok key_of ?s u (sf_pcs ?s u)" for u
  proof (cases "u = t")
    case False
    then show ?thesis
      using sf_invD(1) [OF inv, of u] key [OF _ False]
      by (cases "sf_pcs s u") (auto simp: sf_leading_def)
  qed (use call in auto)
  moreover have "\<exists>u. key_of u = k \<and> sf_leading (sf_pcs ?s u) d" if "sf_m ?s k = Some d" for k d
    using that sf_invD(2) [OF inv, of k d] by (auto split: if_splits)
  moreover have "sf_call_ok key_of ?s d dl" if "sf_calls ?s d = Some dl" for d dl
  proof (cases "call_leader dl = t")
    case True
    have dl: "sf_calls s d = Some dl" using that by simp
    have "d = c" using sf_invD(3) [OF inv dl] True pc by (auto simp: sf_call_ok_def sf_leading_def)
    moreover from this dl call(2) have "call_done dl" by auto
    ultimately show ?thesis
      using True sf_invD(3) [OF inv dl] by (simp add: sf_call_ok_def)
  next
    case False
    with that sf_invD(3) [OF inv, of d dl] show ?thesis by (auto simp: sf_call_ok_def)
  qed
  ultimately show ?thesis unfolding sf_inv_def by blast
qed

lemma sf_step_inv:
  assumes "sf_step key_of s s'" and inv: "sf_inv key_of s"
  shows "sf_inv key_of s'"
  using assms(1)
proof cases
  case (enter t)
  then show ?thesis using sf_enter_inv [OF inv] by simp
next
  case (fn_returns t c r)
  then show ?thesis
    using sf_invD(1) [OF inv, of t]
    by (auto intro!: sf_inv_update [OF inv] simp: sf_leading_def)
next
  case (fn_panics t c)
  then show ?thesis using sf_crash_inv [OF inv] by simp
next
  case (signal t c)
  then show ?thesis
    using sf_invD(1) [OF inv, of t]
    by (auto intro!: sf_inv_update [OF inv] simp: sf_leading_def)
next
  case (remove t c)
  then show ?thesis using sf_remove_inv [OF inv] by simp
next
  case (wake t c cl)
  then show ?thesis using sf_wake_inv [OF inv] by simp
qed

interpretation sf: invariant_system sf_init "sf_step key_of" "sf_inv key_of" for key_of
  by unfold_locales (simp_all add: sf_init_inv sf_step_inv)

section \<open>Properties\<close>

text \<open>A run in which goroutine 0 leads, goroutine 1 joins it, and goroutine 0's function returns.\<close>

definition key_k :: "nat \<Rightarrow> string" where
  "key_k t = ''k''"

definition sf_example :: "nat \<Rightarrow> 'r sf_state" where
  "sf_example n =
     (let s0 = \<lparr>sf_m = (\<lambda>_. None), sf_calls = (\<lambda>_. None), sf_next = 0, sf_pcs = (\<lambda>_. Start)\<rparr>;
          s1 = sf_enter key_k 0 s0
      in if n = 0 then s0 else if n = 1 then s1 else sf_enter key_k 1 s1)"

lemma sf_example_steps:
  "sf_init (sf_example 0 :: 'r sf_state)"
  "sf_step key_k (sf_example 0) (sf_example 1 :: 'r sf_state)"
  "sf_step key_k (sf_example 1) (sf_example 2 :: 'r sf_state)"
  by (simp_all add: sf_example_def sf_init_def sf_step.enter)
    (rule sf_step.enter, simp add: sf_enter_def)

lemma sf_example_run:
  "(sf_step key_k)\<^sup>*\<^sup>* (sf_example 0) (sf_example 2 :: 'r sf_state)"
  by (rule rtranclp.rtrancl_into_rtrancl [OF r_into_rtranclp])
    (rule sf_example_steps(2), rule sf_example_steps(3))

lemma sf_example_pcs:
  "sf_pcs (sf_example 2) 0 = Running 0" "sf_pcs (sf_example 2) (Suc 0) = Waiting 0"
  by (simp_all add: sf_example_def sf_enter_def key_k_def)

text \<open>C9: Executions of \<open>fn\<close> for one key never overlap: in every reachable state at most one
  goroutine is running \<open>fn\<close> for a key, however many have called \<open>Do\<close> with it.\<close>

theorem singleflight_no_overlap:
  assumes "sf_init s0" and "(sf_step key_of)\<^sup>*\<^sup>* s0 s"
    and "sf_pcs s t = Running c" and "sf_pcs s u = Running d" and "key_of t = key_of u"
  shows "t = u"
  using sf_leader_unique [OF sf.run_inv [OF assms(1,2)], of t c u d] assms(3-5)
  by (simp add: sf_leading_def)

theorem singleflight_no_overlap_witness:
  "sf_pcs (sf_example 2 :: nat sf_state) 0 = Running 0 \<and> (0::nat) = 0"
  using singleflight_no_overlap [OF sf_example_steps(1) sf_example_run, of 0 0 0 0]
  by (simp add: sf_example_pcs)

text \<open>A call that is done is never changed again.\<close>

lemma sf_done_frozen_step:
  assumes "sf_step key_of s s'" and inv: "sf_inv key_of s"
    and cl: "sf_calls s c = Some cl" "call_done cl"
  shows "sf_calls s' c = Some cl"
  using assms(1)
proof cases
  case (enter t)
  then show ?thesis
    using sf_invD(4) [OF inv cl(1)] cl by (auto simp: sf_enter_def split: option.splits)
next
  case (fn_returns t d r)
  then show ?thesis using sf_invD(1) [OF inv, of t] cl by auto
next
  case (signal t d)
  then show ?thesis using sf_invD(1) [OF inv, of t] cl by auto
qed (use cl in auto)

lemma sf_done_frozen:
  assumes "(sf_step key_of)\<^sup>*\<^sup>* s s'" and "sf_inv key_of s"
    and "sf_calls s c = Some cl" and "call_done cl"
  shows "sf_calls s' c = Some cl"
  using assms
proof (induction rule: rtranclp_induct)
  case (step y z)
  from sf.inv_steps [OF step.hyps(1) step.prems(1)] step show ?case
    by (blast intro: sf_done_frozen_step)
qed

text \<open>C10: A goroutine that has returned from \<open>Do\<close> returned the value that the leader of its
  call, a goroutine with the same key, got from \<open>fn\<close>: the leader is past \<open>fn\<close> and past the
  signal, the call holds a result, and no later step of any goroutine changes that result.\<close>

theorem singleflight_result_shared:
  assumes "sf_init s0" and "(sf_step key_of)\<^sup>*\<^sup>* s0 s" and "sf_pcs s t = Finished c"
    and "(sf_step key_of)\<^sup>*\<^sup>* s s'"
  shows "\<exists>cl r. sf_calls s c = Some cl \<and> call_val cl = Some r
           \<and> key_of (call_leader cl) = key_of t
           \<and> sf_pcs s (call_leader cl) \<in> {Deleting c, Finished c}
           \<and> sf_calls s' c = Some cl"
proof -
  have inv: "sf_inv key_of s" by (rule sf.run_inv [OF assms(1,2)])
  from sf_invD(1) [OF inv, of t] assms(3) obtain cl r
    where cl: "sf_calls s c = Some cl" "call_key cl = key_of t" "call_done cl" "call_val cl = Some r"
    by auto
  from sf_invD(3) [OF inv cl(1)]
  have "sf_leading (sf_pcs s (call_leader cl)) c \<or> sf_pcs s (call_leader cl) = Finished c"
    and key: "key_of (call_leader cl) = key_of t"
    using cl(2) by (auto simp: sf_call_ok_def)
  moreover have "sf_pcs s (call_leader cl) \<notin> {Running c, Computed c, Crashed c}"
    using sf_invD(1) [OF inv, of "call_leader cl"] cl
    by (auto dest!: arg_cong [where f = call_done])
  ultimately have "sf_pcs s (call_leader cl) \<in> {Deleting c, Finished c}"
    by (auto simp: sf_leading_def)
  with cl key sf_done_frozen [OF assms(4) inv cl(1,3)] show ?thesis by blast
qed

definition sf_example_end :: "nat \<Rightarrow> nat sf_state" where
  "sf_example_end n =
     (let s2 = sf_example 2;
          s3 = sf_goto 0 (Computed 0) (sf_update 0 (call_val_update (\<lambda>_. Some 630)) s2);
          s4 = sf_goto 0 (Deleting 0) (sf_update 0 (call_done_update (\<lambda>_. True)) s3);
          s5 = sf_goto 1 (Finished 0) s4
      in if n = 3 then s3 else if n = 4 then s4 else s5)"

lemma sf_example_end_run:
  "(sf_step key_k)\<^sup>*\<^sup>* (sf_example 0) (sf_example_end 5)"
proof -
  have a: "sf_step key_k (sf_example 2) (sf_example_end 3)"
    using sf_step.fn_returns [of "sf_example 2" 0 0 key_k 630] sf_example_pcs
    by (simp add: sf_example_end_def Let_def)
  have b: "sf_step key_k (sf_example_end 3) (sf_example_end 4)"
    using sf_step.signal [of "sf_example_end 3" 0 0 key_k]
    by (simp add: sf_example_end_def Let_def)
  have c: "sf_step key_k (sf_example_end 4) (sf_example_end 5)"
    using sf_step.wake [of "sf_example_end 4" 1 0 _ key_k]
    by (simp add: sf_example_end_def sf_example_def sf_enter_def key_k_def Let_def)
  show ?thesis
    by (rule rtranclp.rtrancl_into_rtrancl [OF rtranclp.rtrancl_into_rtrancl
          [OF rtranclp.rtrancl_into_rtrancl [OF sf_example_run a] b] c])
qed

theorem singleflight_result_shared_witness:
  "\<exists>cl. sf_calls (sf_example_end 5) 0 = Some cl \<and> call_leader cl = 0
     \<and> call_val cl = Some 630 \<and> sf_pcs (sf_example_end 5) 1 = Finished 0"
proof -
  have pc: "sf_pcs (sf_example_end 5) 1 = Finished 0" by (simp add: sf_example_end_def Let_def)
  have "sf_calls (sf_example_end 5) 0
      = Some \<lparr>call_done = True, call_val = Some 630, call_key = ''k'', call_leader = 0\<rparr>"
    by (simp add: sf_example_end_def sf_example_def sf_enter_def key_k_def Let_def)
  with pc singleflight_result_shared [OF sf_example_steps(1) sf_example_end_run pc
      rtranclp.rtrancl_refl]
  show ?thesis by auto
qed

text \<open>C11: When \<open>fn\<close> panics, the wait group is never released and the map entry never removed:
  from then on, no goroutine that asks for that key, now or later, ever returns.\<close>

theorem singleflight_panic_blocks_key:
  assumes "sf_init s0" and "(sf_step key_of)\<^sup>*\<^sup>* s0 s" and "sf_pcs s u = Crashed c"
    and "key_of t = key_of u" and "sf_pcs s t \<in> {Start, Waiting c}"
    and "(sf_step key_of)\<^sup>*\<^sup>* s s'"
  shows "sf_pcs s' t \<in> {Start, Waiting c} \<and> sf_m s' (key_of u) = Some c"
proof -
  have stuck: "sf_pcs z u = Crashed c \<and> sf_pcs z t \<in> {Start, Waiting c}"
    if "sf_step key_of y z" "sf_inv key_of y" "sf_pcs y u = Crashed c"
      "sf_pcs y t \<in> {Start, Waiting c}" for y z
    using that(1)
  proof cases
    case (enter v)
    then show ?thesis
      using sf_invD(1) [OF that(2), of u] that(3,4) assms(4)
      by (auto simp: sf_enter_def split: option.splits)
  next
    case (wake v d cl)
    then show ?thesis
      using sf_invD(1) [OF that(2), of u] that(3,4) by auto
  qed (use that(3,4) in auto)
  have inv: "sf_inv key_of s" by (rule sf.run_inv [OF assms(1,2)])
  have "sf_inv key_of s' \<and> sf_pcs s' u = Crashed c \<and> sf_pcs s' t \<in> {Start, Waiting c}"
    using assms(6)
  proof (induction rule: rtranclp_induct)
    case base
    then show ?case using inv assms(3,5) by blast
  next
    case (step y z)
    then show ?case using stuck sf_step_inv by blast
  qed
  with sf_invD(1) [of key_of s' u] show ?thesis by simp
qed

theorem singleflight_panic_blocks_key_witness:
  "sf_pcs (sf_goto 0 (Crashed 0) (sf_example 2 :: nat sf_state)) 1 \<in> {Start, Waiting 0}
   \<and> sf_m (sf_goto 0 (Crashed 0) (sf_example 2 :: nat sf_state)) ''k'' = Some 0"
proof -
  let ?s = "sf_goto 0 (Crashed 0) (sf_example 2 :: nat sf_state)"
  have "sf_step key_k (sf_example 2) ?s"
    by (rule sf_step.fn_panics) (rule sf_example_pcs)
  with sf_example_run have "(sf_step key_k)\<^sup>*\<^sup>* (sf_example 0) ?s"
    by (rule rtranclp.rtrancl_into_rtrancl)
  from singleflight_panic_blocks_key [OF sf_example_steps(1) this, of 0 0 1 ?s]
  show ?thesis by (simp add: sf_example_pcs key_k_def)
qed

text \<open>How many more steps a goroutine can make.\<close>

fun sf_rank :: "sf_pc \<Rightarrow> nat" where
  "sf_rank Start = 4"
| "sf_rank (Running c) = 3"
| "sf_rank (Computed c) = 2"
| "sf_rank (Deleting c) = 1"
| "sf_rank (Waiting c) = 1"
| "sf_rank (Finished c) = 0"
| "sf_rank (Crashed c) = 0"

lemma sf_step_rank:
  assumes "sf_step key_of s s'"
  shows "\<exists>u. sf_rank (sf_pcs s' u) < sf_rank (sf_pcs s u) \<and> (\<forall>v. v \<noteq> u \<longrightarrow> sf_pcs s' v = sf_pcs s v)"
  using assms
proof cases
  case (enter t)
  then show ?thesis by (intro exI [of _ t]) (simp add: sf_enter_def split: option.splits)
next
  case (fn_returns t c r)
  then show ?thesis by (intro exI [of _ t]) simp
next
  case (fn_panics t c)
  then show ?thesis by (intro exI [of _ t]) simp
next
  case (signal t c)
  then show ?thesis by (intro exI [of _ t]) simp
next
  case (remove t c)
  then show ?thesis by (intro exI [of _ t]) simp
next
  case (wake t c cl)
  then show ?thesis by (intro exI [of _ t]) simp
qed

text \<open>Without a panic there is no deadlock and no livelock: as long as some goroutine has not
  returned, a goroutine with its key can make a step; and every step uses up one of the at most
  four steps of one goroutine and touches no other.\<close>

theorem singleflight_progress:
  assumes "sf_init s0" and "(sf_step key_of)\<^sup>*\<^sup>* s0 s"
    and "\<forall>u c. sf_pcs s u \<noteq> Crashed c" and "\<forall>c. sf_pcs s t \<noteq> Finished c"
  shows "(\<exists>s' u. sf_step key_of s s' \<and> key_of u = key_of t \<and> sf_pcs s' u \<noteq> sf_pcs s u)
       \<and> (\<forall>s'. sf_step key_of s s' \<longrightarrow>
            (\<exists>u. sf_rank (sf_pcs s' u) < sf_rank (sf_pcs s u)
               \<and> (\<forall>v. v \<noteq> u \<longrightarrow> sf_pcs s' v = sf_pcs s v)))"
proof -
  have inv: "sf_inv key_of s" by (rule sf.run_inv [OF assms(1,2)])
  have lead: "\<exists>s' v. sf_step key_of s s' \<and> key_of v = key_of u \<and> sf_pcs s' v \<noteq> sf_pcs s v"
    if "sf_leading (sf_pcs s u) c" for u c
  proof -
    from that assms(3) consider "sf_pcs s u = Running c" | "sf_pcs s u = Computed c"
      | "sf_pcs s u = Deleting c" unfolding sf_leading_def by blast
    then show ?thesis
    proof cases
      case 1
      from sf_step.fn_returns [OF this] 1 show ?thesis by fastforce
    next
      case 2
      from sf_step.signal [OF this] 2 show ?thesis by fastforce
    next
      case 3
      from sf_step.remove [OF this] 3 show ?thesis by fastforce
    qed
  qed
  have "\<exists>s' u. sf_step key_of s s' \<and> key_of u = key_of t \<and> sf_pcs s' u \<noteq> sf_pcs s u"
  proof (cases "sf_pcs s t")
    case Start
    then show ?thesis
      using sf_step.enter [of s t key_of]
      by (intro exI [of _ "sf_enter key_of t s"] exI [of _ t])
        (simp add: sf_enter_def split: option.splits)
  next
    case (Waiting c)
    with sf_invD(1) [OF inv, of t] obtain cl
      where cl: "sf_calls s c = Some cl" "call_key cl = key_of t" by auto
    show ?thesis
    proof (cases "call_done cl")
      case True
      with sf_step.wake [OF Waiting cl(1)] Waiting show ?thesis by fastforce
    next
      case False
      with sf_invD(3) [OF inv cl(1)] cl(2)
      have "sf_leading (sf_pcs s (call_leader cl)) c" "key_of (call_leader cl) = key_of t"
        by (auto simp: sf_call_ok_def)
      with lead [of "call_leader cl" c] show ?thesis by auto
    qed
  qed (use lead [of t] assms(3,4) in \<open>simp_all add: sf_leading_def\<close>)
  with sf_step_rank show ?thesis by blast
qed

theorem singleflight_progress_witness:
  "\<exists>s' u. sf_step key_k (sf_example 2 :: nat sf_state) s'
     \<and> sf_pcs s' u \<noteq> sf_pcs (sf_example 2 :: nat sf_state) u"
proof -
  have "\<forall>u c. sf_pcs (sf_example 2 :: nat sf_state) u \<noteq> Crashed c"
    "\<forall>c. sf_pcs (sf_example 2 :: nat sf_state) 1 \<noteq> Finished c"
    by (simp_all add: sf_example_def sf_enter_def)
  from singleflight_progress [OF sf_example_steps(1) sf_example_run this] show ?thesis by blast
qed

end
