(* ===== verification/Group.thy ===== *)
theory Group
  imports MainCache SingleFlight
begin

text \<open>
  The cache groups of \<^verbatim>\<open>geecache/geecache/geecache.go\<close> and the demo source of
  \<^verbatim>\<open>geecache/main.go\<close>.

  A user callback and a remote peer act on a world of their own, of type \<open>'w\<close>, so that a
  statement can say whether they were called.  A result is \<open>Inl\<close> of the error or \<open>Inr\<close> of
  the view's contents.  The operations describe one goroutine running alone: \<open>loader\<close> is the
  set of keys in the loader's map, where a call for a key already in the set would wait for ever
  (\<open>None\<close>); the interleaving of several goroutines in \<open>Do\<close> is the theory SingleFlight.
\<close>

section \<open>State\<close>

type_synonym 'w getter = "string \<Rightarrow> 'w \<Rightarrow> (goerror + bytes) \<times> 'w"

record pb_request =
  req_Group :: string
  req_Key :: string

text \<open>\<open>PeerGetter.Get\<close>: the request in, and an error or the value of the response out.\<close>

type_synonym 'w peer_getter = "pb_request \<Rightarrow> 'w \<Rightarrow> (goerror + bytes) \<times> 'w"
type_synonym 'w peer_picker = "string \<Rightarrow> 'w peer_getter option"

record 'w group =
  group_name :: string
  group_getter :: "'w getter"
  mainCache :: main_cache
  peers :: "'w peer_picker option"
  loader :: "string set"

type_synonym 'w groups = "string \<rightharpoonup> 'w group"

section \<open>Operations\<close>

definition NewGroup ::
    "string \<Rightarrow> int64 \<Rightarrow> 'w getter option \<Rightarrow> 'w groups \<Rightarrow> ('w group \<times> 'w groups) outcome" where
  "NewGroup name cache_bytes getter groups =
     (case getter of
        None \<Rightarrow> Panic ''nil Getter''
      | Some f \<Rightarrow>
          (let g = \<lparr>group_name = name, group_getter = f,
                    mainCache = \<lparr>mc_lru = None, cacheBytes = cache_bytes\<rparr>,
                    peers = None, loader = {}\<rparr>
           in Ret (g, groups(name \<mapsto> g))))"

definition GetGroup :: "string \<Rightarrow> 'w groups \<Rightarrow> 'w group option" where
  "GetGroup name groups = groups name"

definition RegisterPeers :: "'w peer_picker option \<Rightarrow> 'w group \<Rightarrow> 'w group outcome" where
  "RegisterPeers ps g =
     (if peers g \<noteq> None then Panic ''RegisterPeerPicker called more than once''
      else Ret (g\<lparr>peers := ps\<rparr>))"

definition populateCache :: "string \<Rightarrow> bytes \<Rightarrow> 'w group \<Rightarrow> 'w group option" where
  "populateCache key value g = map_option (\<lambda>mc. g\<lparr>mainCache := mc\<rparr>) (mc_add key value (mainCache g))"

definition getLocally ::
    "string \<Rightarrow> 'w group \<Rightarrow> 'w \<Rightarrow> ((goerror + bytes) \<times> 'w group \<times> 'w) option" where
  "getLocally key g w =
     (case group_getter g key w of
        (Inl err, w') \<Rightarrow> Some (Inl err, g, w')
      | (Inr value, w') \<Rightarrow> map_option (\<lambda>g'. (Inr value, g', w')) (populateCache key value g))"

definition getFromPeer ::
    "'w peer_getter \<Rightarrow> string \<Rightarrow> 'w group \<Rightarrow> 'w \<Rightarrow> (goerror + bytes) \<times> 'w" where
  "getFromPeer peer key g w = peer \<lparr>req_Group = group_name g, req_Key = key\<rparr> w"

text \<open>The function that \<open>load\<close> hands to the loader.\<close>

definition load_fn ::
    "string \<Rightarrow> 'w group \<Rightarrow> 'w \<Rightarrow> ((goerror + bytes) \<times> 'w group \<times> 'w) option" where
  "load_fn key g w =
     (case peers g of
        None \<Rightarrow> getLocally key g w
      | Some pick \<Rightarrow>
          (case pick key of
             None \<Rightarrow> getLocally key g w
           | Some peer \<Rightarrow>
               (case getFromPeer peer key g w of
                  (Inr value, w') \<Rightarrow> Some (Inr value, g, w')
                | (Inl err, w') \<Rightarrow> getLocally key g w')))"

definition load ::
    "string \<Rightarrow> 'w group \<Rightarrow> 'w \<Rightarrow> ((goerror + bytes) \<times> 'w group \<times> 'w) option" where
  "load key g w =
     (if key \<in> loader g then None
      else map_option (\<lambda>(r, g', w'). (r, g'\<lparr>loader := loader g' - {key}\<rparr>, w'))
             (load_fn key (g\<lparr>loader := insert key (loader g)\<rparr>) w))"

definition group_Get ::
    "string \<Rightarrow> 'w group \<Rightarrow> 'w \<Rightarrow> ((goerror + bytes) \<times> 'w group \<times> 'w) option" where
  "group_Get key g w =
     (if key = '''' then Some (Inr [], g, w)
      else
        (case mc_get key (mainCache g) of
           (Some v, mc) \<Rightarrow> Some (Inr v, g\<lparr>mainCache := mc\<rparr>, w)
         | (None, mc) \<Rightarrow> load key (g\<lparr>mainCache := mc\<rparr>) w))"

section \<open>Correctness\<close>

text \<open>The source of truth: what the user callback answers for a key, in every world.\<close>

definition getter_reads :: "(string \<Rightarrow> goerror + bytes) \<Rightarrow> 'w getter \<Rightarrow> bool" where
  "getter_reads src f \<longleftrightarrow> (\<forall>k w. fst (f k w) = src k)"

text \<open>Peers that do not lie about a group: a peer may fail, but a value it returns for the group is
  the source's value.\<close>

definition picker_sound :: "(string \<Rightarrow> goerror + bytes) \<Rightarrow> string \<Rightarrow> 'w peer_picker \<Rightarrow> bool" where
  "picker_sound src name pick \<longleftrightarrow>
     (\<forall>k peer w v. pick k = Some peer \<longrightarrow>
        fst (peer \<lparr>req_Group = name, req_Key = k\<rparr> w) = Inr v \<longrightarrow> src k = Inr v)"

definition source_value :: "(string \<Rightarrow> goerror + bytes) \<Rightarrow> string \<Rightarrow> bytes option" where
  "source_value src k = (case src k of Inl e \<Rightarrow> None | Inr v \<Rightarrow> Some v)"

definition group_ok :: "(string \<Rightarrow> goerror + bytes) \<Rightarrow> 'w group \<Rightarrow> bool" where
  "group_ok src g \<longleftrightarrow>
     mc_inv (mainCache g) \<and> map_of (mc_contents (mainCache g)) \<subseteq>\<^sub>m source_value src \<and>
     getter_reads src (group_getter g) \<and> loader g = {} \<and>
     (\<forall>pick. peers g = Some pick \<longrightarrow> picker_sound src (group_name g) pick)"

text \<open>The fields that no \<open>Get\<close> changes.\<close>

definition same_group :: "'w group \<Rightarrow> 'w group \<Rightarrow> bool" where
  "same_group g g' \<longleftrightarrow> group_name g' = group_name g \<and> group_getter g' = group_getter g
     \<and> peers g' = peers g \<and> loader g' = loader g
     \<and> cacheBytes (mainCache g') = cacheBytes (mainCache g)"

lemma source_value_Some [simp]: "source_value src k = Some v \<longleftrightarrow> src k = Inr v"
  by (simp add: source_value_def split: sum.splits)

lemma group_ok_cong:
  "group_ok src g \<Longrightarrow> same_group g g' \<Longrightarrow> mc_inv (mainCache g') \<Longrightarrow>
     map_of (mc_contents (mainCache g')) \<subseteq>\<^sub>m source_value src \<Longrightarrow> group_ok src g'"
  by (simp add: group_ok_def same_group_def)

text \<open>Fetching the value of the source and storing it keeps the cache coherent.\<close>

lemma populateCache_ok:
  assumes ok: "group_ok src g" and v: "src key = Inr v"
  shows "\<exists>mc. mc_add key v (mainCache g) = Some mc
           \<and> mc_contents mc = recency_trim view_len (cacheBytes (mainCache g))
               (recency_put key v (mc_contents (mainCache g)))
           \<and> group_ok src (g\<lparr>mainCache := mc\<rparr>) \<and> same_group g (g\<lparr>mainCache := mc\<rparr>)"
proof -
  have inv: "mc_inv (mainCache g)" using ok by (simp add: group_ok_def)
  from mc_add_step [OF inv, of key v] obtain mc
    where mc: "mc_add key v (mainCache g) = Some mc" "mc_inv mc"
      "cacheBytes mc = cacheBytes (mainCache g)"
      "mc_contents mc = recency_trim view_len (cacheBytes (mainCache g))
         (recency_put key v (mc_contents (mainCache g)))" by blast
  have "mc_store.coherent (source_value src) mc"
    using mc_store.store_coherent [OF inv, of "source_value src" key v] mc(1) ok v
    by (auto simp: mc_store.coherent_def group_ok_def)
  with mc ok show ?thesis
    by (auto simp: mc_store.coherent_def group_ok_def same_group_def)
qed

lemma getLocally_ok:
  assumes "group_ok src g"
  shows "\<exists>g'. getLocally key g w = Some (src key, g', snd (group_getter g key w))
           \<and> group_ok src g' \<and> same_group g g' \<and> (\<forall>e. src key = Inl e \<longrightarrow> g' = g)"
proof -
  have "fst (group_getter g key w) = src key"
    using assms by (simp add: group_ok_def getter_reads_def)
  then obtain w' where f: "group_getter g key w = (src key, w')" by (metis surjective_pairing)
  show ?thesis
  proof (cases "src key")
    case (Inl e)
    with f assms show ?thesis by (simp add: getLocally_def same_group_def)
  next
    case (Inr v)
    with f populateCache_ok [OF assms Inr] show ?thesis
      by (auto simp: getLocally_def populateCache_def)
  qed
qed

text \<open>Marking the key in the loader's map changes nothing that \<open>load_fn\<close> looks at.\<close>

lemma populateCache_loader:
  "populateCache key v (g\<lparr>loader := l\<rparr>) = map_option (\<lambda>g'. g'\<lparr>loader := l\<rparr>) (populateCache key v g)"
  by (cases g; cases "mc_add key v (mainCache g)") (simp_all add: populateCache_def)

lemma getLocally_loader:
  "getLocally key (g\<lparr>loader := l\<rparr>) w
     = map_option (\<lambda>(r, g', w'). (r, g'\<lparr>loader := l\<rparr>, w')) (getLocally key g w)"
  by (simp add: getLocally_def populateCache_loader option.map_comp o_def
      split: prod.splits sum.splits)

lemma load_fn_loader:
  "load_fn key (g\<lparr>loader := l\<rparr>) w
     = map_option (\<lambda>(r, g', w'). (r, g'\<lparr>loader := l\<rparr>, w')) (load_fn key g w)"
  by (simp add: load_fn_def getFromPeer_def getLocally_loader split: option.splits prod.splits sum.splits)

lemma getLocally_frame:
  "getLocally key g w = Some (r, g', w') \<Longrightarrow> loader g' = loader g"
  by (auto simp: getLocally_def populateCache_def split: prod.splits sum.splits)

lemma load_fn_frame: "load_fn key g w = Some (r, g', w') \<Longrightarrow> loader g' = loader g"
  by (auto simp: load_fn_def getLocally_frame split: option.splits prod.splits sum.splits)

lemma load_alone:
  assumes "loader g = {}"
  shows "load key g w = load_fn key g w"
  using assms load_fn_frame [of key g w]
  by (cases "load_fn key g w") (auto simp: load_def load_fn_loader)

lemma load_ok:
  assumes ok: "group_ok src g"
  shows "\<exists>g' w'. load key g w = Some (src key, g', w') \<and> group_ok src g' \<and> same_group g g'
           \<and> (\<forall>e. src key = Inl e \<longrightarrow> g' = g)"
proof -
  have "load key g w = load_fn key g w" using ok by (simp add: load_alone group_ok_def)
  moreover have "\<exists>g' w'. load_fn key g w = Some (src key, g', w') \<and> group_ok src g'
      \<and> same_group g g' \<and> (\<forall>e. src key = Inl e \<longrightarrow> g' = g)"
  proof (cases "peers g")
    case None
    with getLocally_ok [OF ok, of key w] show ?thesis by (auto simp: load_fn_def)
  next
    case (Some pick)
    show ?thesis
    proof (cases "pick key")
      case None
      with Some getLocally_ok [OF ok, of key w] show ?thesis by (auto simp: load_fn_def)
    next
      case peer: (Some peer)
      obtain r w' where p: "getFromPeer peer key g w = (r, w')" by fastforce
      show ?thesis
      proof (cases r)
        case (Inl e)
        with Some peer p getLocally_ok [OF ok, of key w'] show ?thesis by (auto simp: load_fn_def)
      next
        case (Inr v)
        have "src key = Inr v"
          using ok Some peer p Inr unfolding group_ok_def picker_sound_def getFromPeer_def
          by (metis fst_conv)
        with Some peer p Inr ok show ?thesis by (simp add: load_fn_def same_group_def)
      qed
    qed
  qed
  ultimately show ?thesis by simp
qed

lemma mc_get_miss_id: "mc_inv c \<Longrightarrow> mc_get k c = (None, c') \<Longrightarrow> c' = c"
  by (auto simp: mc_get_def lru_get_def mc_inv_def lru_inv_def split: option.splits)

lemma group_Get_ok:
  assumes ok: "group_ok src g" and key: "key \<noteq> ''''"
  shows "\<exists>g' w'. group_Get key g w = Some (src key, g', w') \<and> group_ok src g' \<and> same_group g g'
           \<and> (\<forall>e. src key = Inl e \<longrightarrow> g' = g)"
proof -
  have inv: "mc_inv (mainCache g)" using ok by (simp add: group_ok_def)
  obtain res mc where get: "mc_get key (mainCache g) = (res, mc)" by fastforce
  show ?thesis
  proof (cases res)
    case None
    then have "mc = mainCache g" using mc_get_miss_id [OF inv] get by simp
    with None get key load_ok [OF ok, of key w] show ?thesis by (simp add: group_Get_def)
  next
    case (Some v)
    have coh: "mc_store.coherent (source_value src) (mainCache g)"
      using ok by (simp add: mc_store.coherent_def group_ok_def)
    have "src key = Inr v"
      using mc_store.lookup_sound [OF inv coh] get Some by simp
    moreover have "same_group g (g\<lparr>mainCache := mc\<rparr>)"
      using mc_get_cacheBytes [of key "mainCache g"] get by (simp add: same_group_def)
    moreover from this have "group_ok src (g\<lparr>mainCache := mc\<rparr>)"
      using mc_store.lookup_coherent [OF inv coh, of key] mc_get_inv [OF inv, of key] get
      by (intro group_ok_cong [OF ok]) (auto simp: mc_store.coherent_def)
    ultimately show ?thesis using get Some key by (simp add: group_Get_def)
  qed
qed

section \<open>Properties\<close>

text \<open>The demo source of \<^verbatim>\<open>main.go\<close>; the world is the log of searches in the slow database.\<close>

definition db :: "string \<rightharpoonup> string" where
  "db = [''Tom'' \<mapsto> ''630'', ''Jack'' \<mapsto> ''589'', ''Sam'' \<mapsto> ''567'']"

definition db_getter :: "string list getter" where
  "db_getter key w =
     (case db key of Some v \<Rightarrow> Inr v | None \<Rightarrow> Inl (key @ '' not exist''), w @ [key])"

definition createGroup :: "string list groups \<Rightarrow> (string list group \<times> string list groups) outcome" where
  "createGroup groups = NewGroup ''scores'' 2048 (Some db_getter) groups"

definition db_source :: "string \<Rightarrow> goerror + bytes" where
  "db_source key = fst (db_getter key [])"

definition scores :: "string list group" where
  "scores = \<lparr>group_name = ''scores'', group_getter = db_getter,
     mainCache = \<lparr>mc_lru = None, cacheBytes = 2048\<rparr>, peers = None, loader = {}\<rparr>"

lemma createGroup_scores: "createGroup groups = Ret (scores, groups(''scores'' \<mapsto> scores))"
  by (simp add: createGroup_def NewGroup_def scores_def Let_def)

lemma scores_ok: "group_ok db_source scores"
  by (simp add: group_ok_def scores_def mc_inv_def mc_contents_def getter_reads_def db_source_def
      db_getter_def)

lemma scores_values: "db_source ''Tom'' = Inr ''630''" "db_source ''X'' = Inl ''X not exist''"
  by (simp_all add: db_source_def db_getter_def db_def)

text \<open>C12: A group whose callback is a function of the key, whose peers return a value only if it is
  the callback's, and whose cache holds only the callback's values, answers every non-empty key
  exactly as the callback would, whatever was cached or evicted and whichever peer failed; the
  call returns, and the group stays in that condition, so the same holds for every later call.\<close>

theorem group_Get_transparent:
  assumes "group_ok src g" and "key \<noteq> ''''"
  shows "\<exists>g' w'. group_Get key g w = Some (src key, g', w')
           \<and> group_ok src g' \<and> same_group g g'"
  using group_Get_ok [OF assms, of w] by blast

theorem group_Get_transparent_witness:
  "\<exists>g' w'. group_Get ''Tom'' scores [] = Some (Inr ''630'', g', w') \<and> group_ok db_source g'"
  using group_Get_transparent [OF scores_ok, of "''Tom''" "[]"] scores_values by auto

text \<open>A pair that fits on its own survives the trimming of a list that begins with it.\<close>

lemma recency_trim_head:
  assumes "\<not> exceeds value_len limit [p]"
  shows "\<exists>ys. recency_trim value_len limit (p # xs) = p # ys"
proof -
  have "1 \<le> fit_prefix value_len limit (p # xs) n" if "1 \<le> n" for n
    using that assms by (induction n) (auto simp: le_Suc_eq split: if_splits)
  from this [of "Suc (length xs)"] show ?thesis
    by (cases "fit_prefix value_len limit (p # xs) (Suc (length xs))")
      (auto simp: recency_trim_def)
qed

lemma mc_get_hit:
  assumes "mc_inv c" and "map_of (mc_contents c) k = Some v"
  shows "\<exists>c'. mc_get k c = (Some v, c')"
  using mc_get_result [OF assms(1), of k] assms(2) by (metis surjective_pairing)

text \<open>A value that fits is in the cache after it was loaded locally.\<close>

lemma getLocally_caches:
  assumes ok: "group_ok src g" and v: "src key = Inr v"
    and fits: "\<not> exceeds view_len (cacheBytes (mainCache g)) [(key, v)]"
  shows "\<exists>mc. getLocally key g w = Some (Inr v, g\<lparr>mainCache := mc\<rparr>, snd (group_getter g key w))
           \<and> map_of (mc_contents mc) key = Some v \<and> group_ok src (g\<lparr>mainCache := mc\<rparr>)
           \<and> cacheBytes mc = cacheBytes (mainCache g)"
proof -
  from populateCache_ok [OF ok v] obtain mc where mc: "mc_add key v (mainCache g) = Some mc"
    "mc_contents mc = recency_trim view_len (cacheBytes (mainCache g)) (recency_put key v (mc_contents (mainCache g)))"
    "group_ok src (g\<lparr>mainCache := mc\<rparr>)" "cacheBytes mc = cacheBytes (mainCache g)"
    by (auto simp: same_group_def)
  have "map_of (mc_contents mc) key = Some v"
    unfolding mc(2) recency_put_def
    using recency_trim_head [OF fits, of "filter (\<lambda>p. fst p \<noteq> key) (mc_contents (mainCache g))"] by auto
  moreover have "group_getter g key w = (Inr v, snd (group_getter g key w))"
    using ok v unfolding group_ok_def getter_reads_def by (metis prod.collapse)
  ultimately show ?thesis
    using mc by (auto simp: getLocally_def populateCache_def split: prod.splits)
qed

text \<open>A value that fits in the cache on its own is loaded once: when a group without peers has
  answered a key of the source, the next \<open>Get\<close> of that key, in whatever world it happens,
  answers the same value from the cache and does not touch the world, so the user callback is not
  called again.\<close>

theorem group_Get_second_is_cached:
  assumes "group_ok src g" and "key \<noteq> ''''" and "peers g = None" and "src key = Inr v"
    and "\<not> exceeds view_len (cacheBytes (mainCache g)) [(key, v)]"
  shows "\<exists>g' w'. group_Get key g w = Some (Inr v, g', w')
           \<and> (\<forall>w2. \<exists>g''. group_Get key g' w2 = Some (Inr v, g'', w2))"
proof -
  have inv: "mc_inv (mainCache g)" using assms(1) by (simp add: group_ok_def)
  have again: "\<exists>g''. group_Get key h w2 = Some (Inr v, g'', w2)"
    if "mc_inv (mainCache h)" "map_of (mc_contents (mainCache h)) key = Some v"
    for h :: "'a group" and w2
    using mc_get_hit [OF that] assms(2) by (auto simp: group_Get_def)
  obtain res mc where get: "mc_get key (mainCache g) = (res, mc)" by fastforce
  show ?thesis
  proof (cases res)
    case None
    then have mc: "mc = mainCache g" using mc_get_miss_id [OF inv] get by simp
    from getLocally_caches [OF assms(1,4,5), of w] obtain mc' where mc':
      "getLocally key g w = Some (Inr v, g\<lparr>mainCache := mc'\<rparr>, snd (group_getter g key w))"
      "map_of (mc_contents mc') key = Some v" "group_ok src (g\<lparr>mainCache := mc'\<rparr>)" by blast
    moreover have "mc_inv mc'" using mc'(3) by (simp add: group_ok_def)
    moreover have "group_Get key g w = Some (Inr v, g\<lparr>mainCache := mc'\<rparr>, snd (group_getter g key w))"
      using get None mc mc'(1) assms(1-3) by (simp add: group_Get_def load_alone group_ok_def load_fn_def)
    ultimately show ?thesis using again [of "g\<lparr>mainCache := mc'\<rparr>"] by auto
  next
    case (Some u)
    have "map_of (mc_contents (mainCache g)) key = Some u"
      using mc_get_result [OF inv, of key] get Some by simp
    then have u: "u = v"
      using assms(1,4) by (auto simp: group_ok_def map_le_def dom_def)
    have "map_of (mc_contents mc) key = Some v" "mc_inv mc"
      using mc_get_contents [OF inv, of key] mc_get_inv [OF inv, of key] get
        \<open>map_of (mc_contents (mainCache g)) key = Some u\<close> u by (simp_all add: map_of_recency_touch)
    then show ?thesis
      using get Some u assms(2) again [of "g\<lparr>mainCache := mc\<rparr>"] by (auto simp: group_Get_def)
  qed
qed

theorem group_Get_second_is_cached_witness:
  "\<exists>g' w'. group_Get ''Tom'' scores [] = Some (Inr ''630'', g', w')
     \<and> (\<forall>w2. \<exists>g''. group_Get ''Tom'' g' w2 = Some (Inr ''630'', g'', w2))"
  by (rule group_Get_second_is_cached [OF scores_ok])
    (simp_all add: scores_values, simp_all add: scores_def exceeds_def int64_less_def
      pair_size_def view_len_def strlen_def)

text \<open>On a miss, the peer that the picker names is asked first, with the group's name and the
  key; its value is returned without being stored, and its failure leads to the local callback,
  whose error is returned and leaves the whole group as it was.\<close>

theorem group_Get_miss_order:
  assumes "key \<noteq> ''''" and "loader g = {}" and "mc_inv (mainCache g)"
    and "map_of (mc_contents (mainCache g)) key = None"
    and "peers g = Some pick" and "pick key = Some peer"
    and "peer \<lparr>req_Group = group_name g, req_Key = key\<rparr> w = (answer, w')"
  shows "group_Get key g w =
     (case answer of
        Inr v \<Rightarrow> Some (Inr v, g, w')
      | Inl e \<Rightarrow>
          (case group_getter g key w' of
             (Inl err, w'') \<Rightarrow> Some (Inl err, g, w'')
           | (Inr v, w'') \<Rightarrow>
               map_option (\<lambda>mc. (Inr v, g\<lparr>mainCache := mc\<rparr>, w'')) (mc_add key v (mainCache g))))"
proof -
  have "fst (mc_get key (mainCache g)) = None"
    using mc_get_result [OF assms(3), of key] assms(4) by simp
  then have "mc_get key (mainCache g) = (None, mainCache g)"
    using mc_get_miss_id [OF assms(3)] by (metis prod.collapse)
  with assms show ?thesis
    by (simp add: group_Get_def load_alone load_fn_def getFromPeer_def getLocally_def
        populateCache_def option.map_comp o_def split: sum.splits prod.splits)
qed

definition scores_with_peer :: "string list group" where
  "scores_with_peer =
     scores\<lparr>peers := Some (\<lambda>k. Some (\<lambda>r w. (Inr ''567'', w @ [req_Group r, req_Key r])))\<rparr>"

theorem group_Get_miss_order_witness:
  "group_Get ''Sam'' scores_with_peer [] = Some (Inr ''567'', scores_with_peer, [''scores'', ''Sam''])"
  using group_Get_miss_order [of "''Sam''" scores_with_peer _ _ "[]" "Inr ''567''" "[''scores'', ''Sam'']"]
  by (simp add: scores_with_peer_def scores_def mc_inv_def mc_contents_def)

text \<open>The empty key is answered with an empty view and no error before any cache, loader, peer
  or callback is consulted, and the peers of a group can be registered once: a second
  registration after a non-nil one panics and changes nothing.\<close>

theorem group_edge_cases:
  "group_Get '''' g w = Some (Inr [], g, w)
   \<and> (RegisterPeers (Some pick) g = Ret g' \<longrightarrow>
        peers g = None \<and> (\<forall>ps. RegisterPeers ps g'
          = Panic ''RegisterPeerPicker called more than once''))
   \<and> NewGroup name n None groups = Panic ''nil Getter''"
  by (auto simp: group_Get_def RegisterPeers_def NewGroup_def split: if_splits)

theorem group_edge_cases_witness:
  "RegisterPeers None (scores\<lparr>peers := Some (\<lambda>_. None)\<rparr>)
     = Panic ''RegisterPeerPicker called more than once''"
  using group_edge_cases [of scores "[]" "\<lambda>_. None" "scores\<lparr>peers := Some (\<lambda>_. None)\<rparr>"]
  by (simp add: RegisterPeers_def scores_def)

end
