(* ===== verification/GroupSystem.thy ===== *)
theory GroupSystem
  imports Group
begin

text \<open>
  Concurrent calls of \<^verbatim>\<open>Get\<close> on one group (\<^verbatim>\<open>geecache/geecache/geecache.go\<close>): any number of
  goroutines, each with its key, run \<^verbatim>\<open>Get\<close> as the code has it.  The lookup in the locked cache and the
  store into it are single steps, the loader is the transition system of the theory SingleFlight, and
  a call of a peer or of the user's callback is a step on the world.  The theory Group describes one
  goroutine that runs alone; here this is shown to be a run of the system, and what holds of it is
  shown for every interleaving.
\<close>

section \<open>State and steps\<close>

text \<open>Where the function that \<open>load\<close> hands to the loader is: before it asks a peer, before the user's
  callback, before it stores a value, or with its result.\<close>

datatype fn_stage = AskPeer | AskGetter | StoreValue bytes | Result "goerror + bytes"

text \<open>Where a goroutine is in \<open>Get\<close>: not calling it at all, before the lookup, in \<open>load\<close>, or back with a result.  In \<open>load\<close>, the
  state of the loader says where it is in \<open>Do\<close>.\<close>

datatype get_pc = NotCalling | GetStart | InLoad fn_stage | Returned "goerror + bytes"

record 'w get_state =
  gs_pcs :: "nat \<Rightarrow> get_pc"
  gs_sf :: "(goerror + bytes) sf_state"
  gs_cache :: main_cache
  gs_world :: 'w

definition get_goto :: "nat \<Rightarrow> get_pc \<Rightarrow> 'w get_state \<Rightarrow> 'w get_state" where
  "get_goto t pc s = s\<lparr>gs_pcs := (gs_pcs s)(t := pc)\<rparr>"

text \<open>The peer that the group asks for a key, if any.\<close>

definition chosen_peer :: "'w group \<Rightarrow> string \<Rightarrow> 'w peer_getter option" where
  "chosen_peer g key = (case peers g of None \<Rightarrow> None | Some pick \<Rightarrow> pick key)"

fun after_peer :: "goerror + bytes \<Rightarrow> fn_stage" where
  "after_peer (Inl err) = AskGetter"
| "after_peer (Inr value) = Result (Inr value)"

fun after_getter :: "goerror + bytes \<Rightarrow> fn_stage" where
  "after_getter (Inl err) = Result (Inl err)"
| "after_getter (Inr value) = StoreValue value"

inductive get_step :: "'w group \<Rightarrow> (nat \<Rightarrow> string) \<Rightarrow> 'w get_state \<Rightarrow> 'w get_state \<Rightarrow> bool"
  for g :: "'w group" and key_of :: "nat \<Rightarrow> string" where
  get_empty: "gs_pcs s t = GetStart \<Longrightarrow> key_of t = '''' \<Longrightarrow>
    get_step g key_of s (get_goto t (Returned (Inr [])) s)"
| get_hit: "gs_pcs s t = GetStart \<Longrightarrow> key_of t \<noteq> '''' \<Longrightarrow> mc_get (key_of t) (gs_cache s) = (Some v, mc) \<Longrightarrow>
    get_step g key_of s (get_goto t (Returned (Inr v)) (s\<lparr>gs_cache := mc\<rparr>))"
| get_miss: "gs_pcs s t = GetStart \<Longrightarrow> key_of t \<noteq> '''' \<Longrightarrow> mc_get (key_of t) (gs_cache s) = (None, mc) \<Longrightarrow>
    get_step g key_of s (get_goto t (InLoad AskPeer) (s\<lparr>gs_cache := mc\<rparr>))"
| do_enter: "gs_pcs s t = InLoad AskPeer \<Longrightarrow> sf_pcs (gs_sf s) t = Start \<Longrightarrow>
    get_step g key_of s (s\<lparr>gs_sf := sf_enter key_of t (gs_sf s)\<rparr>)"
| ask_peer: "gs_pcs s t = InLoad AskPeer \<Longrightarrow> sf_pcs (gs_sf s) t = Running c \<Longrightarrow>
    chosen_peer g (key_of t) = Some peer \<Longrightarrow> getFromPeer peer (key_of t) g (gs_world s) = (r, w) \<Longrightarrow>
    get_step g key_of s (get_goto t (InLoad (after_peer r)) (s\<lparr>gs_world := w\<rparr>))"
| no_peer: "gs_pcs s t = InLoad AskPeer \<Longrightarrow> sf_pcs (gs_sf s) t = Running c \<Longrightarrow>
    chosen_peer g (key_of t) = None \<Longrightarrow>
    get_step g key_of s (get_goto t (InLoad AskGetter) s)"
| ask_getter: "gs_pcs s t = InLoad AskGetter \<Longrightarrow> group_getter g (key_of t) (gs_world s) = (r, w) \<Longrightarrow>
    get_step g key_of s (get_goto t (InLoad (after_getter r)) (s\<lparr>gs_world := w\<rparr>))"
| store_value: "gs_pcs s t = InLoad (StoreValue v) \<Longrightarrow> mc_add (key_of t) v (gs_cache s) = Some mc \<Longrightarrow>
    get_step g key_of s (get_goto t (InLoad (Result (Inr v))) (s\<lparr>gs_cache := mc\<rparr>))"
| fn_returns: "gs_pcs s t = InLoad (Result r) \<Longrightarrow> sf_pcs (gs_sf s) t = Running c \<Longrightarrow>
    get_step g key_of s (s\<lparr>gs_sf := sf_goto t (Computed c) (sf_update c (call_val_update (\<lambda>_. Some r)) (gs_sf s))\<rparr>)"
| signal: "sf_pcs (gs_sf s) t = Computed c \<Longrightarrow>
    get_step g key_of s (s\<lparr>gs_sf := sf_goto t (Deleting c) (sf_update c (call_done_update (\<lambda>_. True)) (gs_sf s))\<rparr>)"
| remove: "sf_pcs (gs_sf s) t = Deleting c \<Longrightarrow>
    get_step g key_of s (s\<lparr>gs_sf := sf_goto t (Finished c) (sf_delete (key_of t) (gs_sf s))\<rparr>)"
| wake: "sf_pcs (gs_sf s) t = Waiting c \<Longrightarrow> sf_calls (gs_sf s) c = Some cl \<Longrightarrow> call_done cl \<Longrightarrow>
    get_step g key_of s (s\<lparr>gs_sf := sf_goto t (Finished c) (gs_sf s)\<rparr>)"
| do_returns: "gs_pcs s t = InLoad st \<Longrightarrow> sf_pcs (gs_sf s) t = Finished c \<Longrightarrow> sf_calls (gs_sf s) c = Some cl \<Longrightarrow>
    call_val cl = Some r \<Longrightarrow> get_step g key_of s (get_goto t (Returned r) s)"

text \<open>The goroutines of \<open>T\<close> call \<open>Get\<close>, and no others do.\<close>

definition get_init :: "'w group \<Rightarrow> nat set \<Rightarrow> 'w \<Rightarrow> 'w get_state" where
  "get_init g T w =
     \<lparr>gs_pcs = (\<lambda>t. if t \<in> T then GetStart else NotCalling),
      gs_sf = \<lparr>sf_m = (\<lambda>_. None), sf_calls = (\<lambda>_. None), sf_next = 0, sf_pcs = (\<lambda>_. Start)\<rparr>,
      gs_cache = mainCache g, gs_world = w\<rparr>"

lemma get_goto_simps [simp]:
  "gs_pcs (get_goto t pc s) = (gs_pcs s)(t := pc)" "gs_sf (get_goto t pc s) = gs_sf s"
  "gs_cache (get_goto t pc s) = gs_cache s" "gs_world (get_goto t pc s) = gs_world s"
  by (simp_all add: get_goto_def)

section \<open>The loader within the group\<close>

text \<open>Every step of the group is a step of its loader or leaves the loader alone.\<close>

lemma get_step_sf: "get_step g key_of s s' \<Longrightarrow> sf_step key_of (gs_sf s) (gs_sf s') \<or> gs_sf s' = gs_sf s"
  by (induction rule: get_step.induct) (auto intro: sf_step.intros)

lemma get_steps_sf: "(get_step g key_of)\<^sup>*\<^sup>* s s' \<Longrightarrow> (sf_step key_of)\<^sup>*\<^sup>* (gs_sf s) (gs_sf s')"
proof (induction rule: rtranclp_induct)
  case (step y z)
  from get_step_sf [OF step.hyps(2)] step.IH show ?case by (metis rtranclp.rtrancl_into_rtrancl)
qed simp

section \<open>The invariant\<close>

fun get_pc_ok :: "(string \<Rightarrow> goerror + bytes) \<Rightarrow> string \<Rightarrow> sf_pc \<Rightarrow> get_pc \<Rightarrow> bool" where
  "get_pc_ok src key pc NotCalling \<longleftrightarrow> pc = Start"
| "get_pc_ok src key pc GetStart \<longleftrightarrow> pc = Start"
| "get_pc_ok src key pc (InLoad AskPeer) \<longleftrightarrow> key \<noteq> '''' \<and> (\<forall>c. pc \<noteq> Computed c \<and> pc \<noteq> Deleting c \<and> pc \<noteq> Crashed c)"
| "get_pc_ok src key pc (InLoad AskGetter) \<longleftrightarrow> key \<noteq> '''' \<and> (\<exists>c. pc = Running c)"
| "get_pc_ok src key pc (InLoad (StoreValue v)) \<longleftrightarrow> key \<noteq> '''' \<and> (\<exists>c. pc = Running c) \<and> src key = Inr v"
| "get_pc_ok src key pc (InLoad (Result r)) \<longleftrightarrow>
     key \<noteq> '''' \<and> r = src key \<and> (\<exists>c. pc \<in> {Running c, Computed c, Deleting c, Finished c})"
| "get_pc_ok src key pc (Returned r) \<longleftrightarrow>
     r = (if key = '''' then Inr [] else src key) \<and> (pc = Start \<or> (\<exists>c. pc = Finished c))"

definition calls_ok :: "(string \<Rightarrow> goerror + bytes) \<Rightarrow> (nat \<rightharpoonup> (goerror + bytes) sf_call) \<Rightarrow> bool" where
  "calls_ok src calls \<longleftrightarrow> (\<forall>c cl r. calls c = Some cl \<longrightarrow> call_val cl = Some r \<longrightarrow> r = src (call_key cl))"

definition cache_ok :: "(string \<Rightarrow> goerror + bytes) \<Rightarrow> 'w group \<Rightarrow> main_cache \<Rightarrow> bool" where
  "cache_ok src g mc \<longleftrightarrow> group_ok src (g\<lparr>mainCache := mc\<rparr>)"

definition get_inv :: "(string \<Rightarrow> goerror + bytes) \<Rightarrow> 'w group \<Rightarrow> (nat \<Rightarrow> string) \<Rightarrow> 'w get_state \<Rightarrow> bool" where
  "get_inv src g key_of s \<longleftrightarrow>
     sf_inv key_of (gs_sf s) \<and> cache_ok src g (gs_cache s) \<and> calls_ok src (sf_calls (gs_sf s)) \<and>
     (\<forall>t. get_pc_ok src (key_of t) (sf_pcs (gs_sf s) t) (gs_pcs s t))"

lemma get_invD:
  assumes "get_inv src g key_of s"
  shows "sf_inv key_of (gs_sf s)" and "cache_ok src g (gs_cache s)" and "calls_ok src (sf_calls (gs_sf s))"
    and "get_pc_ok src (key_of t) (sf_pcs (gs_sf s) t) (gs_pcs s t)"
  using assms unfolding get_inv_def by blast+

lemma lookup_keeps_cache:
  assumes ok: "cache_ok src g mc" and get: "mc_get k mc = (r, mc')"
  shows "cache_ok src g mc'" and "r = Some v \<Longrightarrow> src k = Inr v"
proof -
  have inv: "mc_inv mc" and coh: "mc_store.coherent (source_value src) mc"
    using ok by (simp_all add: cache_ok_def group_ok_def mc_store.coherent_def)
  show "cache_ok src g mc'"
    using ok mc_get_inv [OF inv, of k] mc_store.lookup_coherent [OF inv coh, of k] get
    by (simp add: cache_ok_def group_ok_def mc_store.coherent_def)
  show "src k = Inr v" if "r = Some v"
    using mc_store.lookup_sound [OF inv coh, of k v mc'] get that by simp
qed

lemma store_keeps_cache:
  assumes ok: "cache_ok src g mc" and v: "src k = Inr v"
  shows "\<exists>mc'. mc_add k v mc = Some mc' \<and> cache_ok src g mc'"
  using populateCache_ok [OF ok [unfolded cache_ok_def] v] by (auto simp: cache_ok_def)

lemma get_step_cache:
  assumes "get_step g key_of s s'" and "get_inv src g key_of s"
  shows "cache_ok src g (gs_cache s')"
  using assms(1)
proof cases
  case (store_value t v mc)
  then show ?thesis
    using get_invD(4) [OF assms(2), of t] store_keeps_cache [OF get_invD(2) [OF assms(2)], of "key_of t" v] by auto
qed (use get_invD(2) [OF assms(2)] lookup_keeps_cache(1) [OF get_invD(2) [OF assms(2)]] in auto)

lemma get_step_calls:
  assumes "get_step g key_of s s'" and inv: "get_inv src g key_of s"
  shows "calls_ok src (sf_calls (gs_sf s'))"
  using assms(1)
proof cases
  case (do_enter t)
  then show ?thesis
    using get_invD(3) [OF inv] by (auto simp: sf_enter_def calls_ok_def split: option.splits)
next
  case (fn_returns t r c)
  then show ?thesis
    using get_invD(3) [OF inv] get_invD(4) [OF inv, of t] sf_invD(1) [OF get_invD(1) [OF inv], of t]
    by (auto simp: calls_ok_def)
next
  case (signal t c)
  then show ?thesis using get_invD(3) [OF inv] by (auto simp: calls_ok_def)
qed (use get_invD(3) [OF inv] in auto)

text \<open>The step of a goroutine leaves the places of the others alone.\<close>

lemma get_step_one:
  "get_step g key_of s s' \<Longrightarrow>
     \<exists>t. \<forall>u. u \<noteq> t \<longrightarrow> gs_pcs s' u = gs_pcs s u \<and> sf_pcs (gs_sf s') u = sf_pcs (gs_sf s) u"
  by (induction rule: get_step.induct) (auto simp: sf_enter_def split: option.splits)

lemma after_peer_ok:
  assumes ok: "cache_ok src g mc" and peer: "chosen_peer g key = Some peer" "getFromPeer peer key g w = (r, w')"
    and pc: "key \<noteq> ''''"
  shows "get_pc_ok src key (Running c) (InLoad (after_peer r))"
proof (cases r)
  case (Inr v)
  obtain pick where "peers g = Some pick" "pick key = Some peer"
    using peer(1) by (auto simp: chosen_peer_def split: option.splits)
  with ok peer(2) Inr have "src key = Inr v"
    unfolding cache_ok_def group_ok_def picker_sound_def getFromPeer_def by (simp, metis fst_conv)
  with Inr pc show ?thesis by simp
qed (use pc in simp)

lemma after_getter_ok:
  assumes ok: "cache_ok src g mc" and get: "group_getter g key w = (r, w')" and pc: "key \<noteq> ''''"
  shows "get_pc_ok src key (Running c) (InLoad (after_getter r))"
proof -
  have "r = src key" using ok get unfolding cache_ok_def group_ok_def getter_reads_def by (simp, metis fst_conv)
  with pc show ?thesis by (cases "src key") auto
qed

lemma get_pc_ok_in_Do:
  "get_pc_ok src key (Computed c) pc \<longleftrightarrow> key \<noteq> [] \<and> pc = InLoad (Result (src key))"
  "get_pc_ok src key (Deleting c) pc \<longleftrightarrow> key \<noteq> [] \<and> pc = InLoad (Result (src key))"
  "get_pc_ok src key (Waiting c) pc \<longleftrightarrow> key \<noteq> [] \<and> pc = InLoad AskPeer"
  "get_pc_ok src key (Crashed c) pc \<longleftrightarrow> False"
  by (cases "(src, key, Computed c, pc)" rule: get_pc_ok.cases; auto)+

lemma get_step_pcs:
  assumes "get_step g key_of s s'" and inv: "get_inv src g key_of s"
  shows "get_pc_ok src (key_of u) (sf_pcs (gs_sf s') u) (gs_pcs s' u)"
  using assms(1)
proof cases
  case (get_hit t v mc)
  then show ?thesis
    using get_invD(4) [OF inv, of u] get_invD(4) [OF inv, of t] lookup_keeps_cache(2) [OF get_invD(2) [OF inv]] by auto
next
  case (do_enter t)
  then show ?thesis
    using get_invD(4) [OF inv, of u] get_invD(4) [OF inv, of t] by (auto simp: sf_enter_def split: option.splits)
next
  case (ask_peer t c peer r w)
  then show ?thesis
    using get_invD(4) [OF inv, of u] get_invD(4) [OF inv, of t] after_peer_ok [OF get_invD(2) [OF inv] ask_peer(4,5), of c]
    by auto
next
  case (ask_getter t r w)
  then show ?thesis
    using get_invD(4) [OF inv, of u] get_invD(4) [OF inv, of t] after_getter_ok [OF get_invD(2) [OF inv] ask_getter(3)]
    by auto
next
  case (do_returns t st c cl r)
  have "src (key_of t) = r"
    using do_returns(3-5) sf_invD(1) [OF get_invD(1) [OF inv], of t] get_invD(3) [OF inv]
    unfolding calls_ok_def by fastforce
  moreover have "key_of t \<noteq> ''''" using do_returns get_invD(4) [OF inv, of t] by (cases st) auto
  ultimately show ?thesis using do_returns get_invD(4) [OF inv, of u] by auto
next
  case (fn_returns t r c)
  then show ?thesis using get_invD(4) [OF inv, of u] get_invD(4) [OF inv, of t] by auto
next
  case (signal t c)
  then show ?thesis using get_invD(4) [OF inv, of u] get_invD(4) [OF inv, of t] by (auto simp: get_pc_ok_in_Do)
next
  case (remove t c)
  then show ?thesis using get_invD(4) [OF inv, of u] get_invD(4) [OF inv, of t] by (auto simp: get_pc_ok_in_Do)
next
  case (wake t c cl)
  then show ?thesis using get_invD(4) [OF inv, of u] get_invD(4) [OF inv, of t] by (auto simp: get_pc_ok_in_Do)
qed (use get_invD(4) [OF inv, of u] in \<open>auto split: if_splits\<close>)

lemma get_step_inv:
  assumes step: "get_step g key_of s s'" and inv: "get_inv src g key_of s"
  shows "get_inv src g key_of s'"
proof -
  have "sf_inv key_of (gs_sf s')"
    using get_step_sf [OF step] sf_step_inv get_invD(1) [OF inv] by metis
  then show ?thesis
    using get_step_cache [OF step inv] get_step_calls [OF step inv] get_step_pcs [OF step inv]
    unfolding get_inv_def by blast
qed

lemma get_init_inv: "group_ok src g \<Longrightarrow> get_inv src g key_of (get_init g T w)"
  by (simp add: get_inv_def get_init_def cache_ok_def calls_ok_def sf_init_inv sf_init_def)

interpretation gets: invariant_system
  "\<lambda>s. group_ok src g \<and> (\<exists>T w. s = get_init g T w)" "get_step g key_of" "get_inv src g key_of" for src g key_of
  by unfold_locales (auto intro: get_init_inv get_step_inv)

section \<open>A goroutine alone\<close>

text \<open>The function that \<open>load\<close> hands to the loader, run without interruption by the leader of a call.\<close>

lemma getLocally_alone:
  assumes "gs_pcs s t = InLoad AskGetter"
    and "getLocally (key_of t) (g\<lparr>mainCache := gs_cache s\<rparr>) (gs_world s) = Some (r, g', w')"
  shows "(get_step g key_of)\<^sup>*\<^sup>* s (get_goto t (InLoad (Result r)) (s\<lparr>gs_cache := mainCache g', gs_world := w'\<rparr>))"
proof -
  obtain x w1 where get: "group_getter g (key_of t) (gs_world s) = (x, w1)" by fastforce
  let ?s1 = "get_goto t (InLoad (after_getter x)) (s\<lparr>gs_world := w1\<rparr>)"
  have first: "get_step g key_of s ?s1" by (rule get_step.ask_getter) (use assms(1) get in simp_all)
  show ?thesis
  proof (cases x)
    case (Inl e)
    with assms(2) get have "r = Inl e" "w' = w1" "mainCache g' = gs_cache s" by (auto simp: getLocally_def)
    with first Inl show ?thesis by (auto simp: get_goto_def intro!: r_into_rtranclp)
  next
    case (Inr v)
    with assms(2) get obtain mc where mc: "mc_add (key_of t) v (gs_cache s) = Some mc"
      and r: "r = Inr v" "w' = w1" "mainCache g' = mc"
      by (auto simp: getLocally_def populateCache_def)
    have "get_step g key_of ?s1 (get_goto t (InLoad (Result (Inr v))) (?s1\<lparr>gs_cache := mc\<rparr>))"
      by (rule get_step.store_value) (use Inr mc in auto)
    with first have "(get_step g key_of)\<^sup>*\<^sup>* s (get_goto t (InLoad (Result (Inr v))) (?s1\<lparr>gs_cache := mc\<rparr>))"
      by (blast intro: converse_rtranclp_into_rtranclp)
    with r show ?thesis by (cases s) (simp add: get_goto_def)
  qed
qed

lemma load_fn_alone:
  assumes pc: "gs_pcs s t = InLoad AskPeer" "sf_pcs (gs_sf s) t = Running c"
    and fn: "load_fn (key_of t) (g\<lparr>mainCache := gs_cache s\<rparr>) (gs_world s) = Some (r, g', w')"
  shows "(get_step g key_of)\<^sup>*\<^sup>* s (get_goto t (InLoad (Result r)) (s\<lparr>gs_cache := mainCache g', gs_world := w'\<rparr>))"
proof (cases "chosen_peer g (key_of t)")
  case None
  let ?s1 = "get_goto t (InLoad AskGetter) s"
  have "get_step g key_of s ?s1" by (rule get_step.no_peer) (use pc None in simp_all)
  moreover have "getLocally (key_of t) (g\<lparr>mainCache := gs_cache s\<rparr>) (gs_world s) = Some (r, g', w')"
    using fn None by (auto simp: load_fn_def chosen_peer_def split: option.splits)
  ultimately show ?thesis
    using getLocally_alone [of ?s1 t key_of g r g' w'] by (auto simp: get_goto_def intro: converse_rtranclp_into_rtranclp)
next
  case (Some peer)
  obtain x w1 where peer: "getFromPeer peer (key_of t) g (gs_world s) = (x, w1)" by fastforce
  let ?s1 = "get_goto t (InLoad (after_peer x)) (s\<lparr>gs_world := w1\<rparr>)"
  have first: "get_step g key_of s ?s1" by (rule get_step.ask_peer) (use pc Some peer in simp_all)
  have fn': "(case x of Inr v \<Rightarrow> Some (Inr v, g\<lparr>mainCache := gs_cache s\<rparr>, w1)
      | Inl e \<Rightarrow> getLocally (key_of t) (g\<lparr>mainCache := gs_cache s\<rparr>) w1) = Some (r, g', w')"
    using fn Some peer by (cases x) (auto simp: load_fn_def chosen_peer_def getFromPeer_def split: option.splits)
  show ?thesis
  proof (cases x)
    case (Inl e)
    with fn' first show ?thesis
      using getLocally_alone [of ?s1 t key_of g r g' w'] by (auto simp: get_goto_def intro: converse_rtranclp_into_rtranclp)
  next
    case (Inr v)
    with fn' first show ?thesis by (auto simp: get_goto_def intro!: r_into_rtranclp)
  qed
qed

text \<open>The way out of \<open>Do\<close> for a leader that has its result.\<close>

lemma leave_Do_alone:
  assumes pc: "gs_pcs s t = InLoad (Result r)" "sf_pcs (gs_sf s) t = Running c"
    and call: "sf_calls (gs_sf s) c = Some cl"
  shows "\<exists>s'. (get_step g key_of)\<^sup>*\<^sup>* s s' \<and> gs_pcs s' = (gs_pcs s)(t := Returned r)
           \<and> gs_cache s' = gs_cache s \<and> gs_world s' = gs_world s
           \<and> sf_m (gs_sf s') = (sf_m (gs_sf s))(key_of t := None)
           \<and> sf_pcs (gs_sf s') = (sf_pcs (gs_sf s))(t := Finished c)"
proof -
  let ?s1 = "s\<lparr>gs_sf := sf_goto t (Computed c) (sf_update c (call_val_update (\<lambda>_. Some r)) (gs_sf s))\<rparr>"
  let ?s2 = "?s1\<lparr>gs_sf := sf_goto t (Deleting c) (sf_update c (call_done_update (\<lambda>_. True)) (gs_sf ?s1))\<rparr>"
  let ?s3 = "?s2\<lparr>gs_sf := sf_goto t (Finished c) (sf_delete (key_of t) (gs_sf ?s2))\<rparr>"
  let ?s4 = "get_goto t (Returned r) ?s3"
  have "get_step g key_of s ?s1" by (rule get_step.fn_returns) (use pc in simp_all)
  moreover have "get_step g key_of ?s1 ?s2" by (rule get_step.signal) simp
  moreover have "get_step g key_of ?s2 ?s3" by (rule get_step.remove) simp
  moreover have "get_step g key_of ?s3 ?s4"
    by (rule get_step.do_returns [where st = "Result r" and c = c]) (use pc call in auto)
  ultimately have "(get_step g key_of)\<^sup>*\<^sup>* s ?s4"
    by (meson converse_rtranclp_into_rtranclp rtranclp.rtrancl_refl)
  then show ?thesis by (intro exI [of _ ?s4]) (auto simp: fun_eq_iff)
qed

text \<open>A goroutine that has missed in the cache, and finds no call for its key in flight, loads alone.\<close>

lemma load_alone_run:
  assumes pc: "gs_pcs s t = InLoad AskPeer" "sf_pcs (gs_sf s) t = Start" and free: "sf_m (gs_sf s) (key_of t) = None"
    and fn: "load_fn (key_of t) (g\<lparr>mainCache := gs_cache s\<rparr>) (gs_world s) = Some (r, g', w')"
  shows "\<exists>s' c. (get_step g key_of)\<^sup>*\<^sup>* s s' \<and> gs_pcs s' = (gs_pcs s)(t := Returned r)
           \<and> gs_cache s' = mainCache g' \<and> gs_world s' = w' \<and> sf_m (gs_sf s') = sf_m (gs_sf s)
           \<and> sf_pcs (gs_sf s') = (sf_pcs (gs_sf s))(t := Finished c)"
proof -
  let ?c = "sf_next (gs_sf s)"
  let ?s1 = "s\<lparr>gs_sf := sf_enter key_of t (gs_sf s)\<rparr>"
  let ?s2 = "get_goto t (InLoad (Result r)) (?s1\<lparr>gs_cache := mainCache g', gs_world := w'\<rparr>)"
  have enter: "get_step g key_of s ?s1" by (rule get_step.do_enter) (use pc in simp_all)
  have sf: "sf_pcs (gs_sf ?s1) = (sf_pcs (gs_sf s))(t := Running ?c)"
    "sf_m (gs_sf ?s1) = (sf_m (gs_sf s))(key_of t \<mapsto> ?c)" "sf_calls (gs_sf ?s1) ?c \<noteq> None"
    using free by (simp_all add: sf_enter_def)
  have "(get_step g key_of)\<^sup>*\<^sup>* ?s1 ?s2"
    by (rule load_fn_alone [of _ _ ?c]) (use pc sf(1) fn in auto)
  moreover obtain cl where "sf_calls (gs_sf ?s2) ?c = Some cl" using sf(3) by auto
  then obtain s' where s': "(get_step g key_of)\<^sup>*\<^sup>* ?s2 s'" "gs_pcs s' = (gs_pcs ?s2)(t := Returned r)"
    "gs_cache s' = gs_cache ?s2" "gs_world s' = gs_world ?s2" "sf_m (gs_sf s') = (sf_m (gs_sf ?s2))(key_of t := None)"
    "sf_pcs (gs_sf s') = (sf_pcs (gs_sf ?s2))(t := Finished ?c)"
    using leave_Do_alone [of ?s2 t r ?c cl g key_of] sf(1) by auto
  ultimately have "(get_step g key_of)\<^sup>*\<^sup>* s s'"
    using enter by (meson converse_rtranclp_into_rtranclp rtranclp_trans)
  with s' sf(1,2) free show ?thesis by (intro exI [of _ s'] exI [of _ ?c]) (auto simp: fun_eq_iff)
qed

lemma Get_alone_run:
  assumes pc: "gs_pcs s t = GetStart" "sf_pcs (gs_sf s) t = Start" and free: "sf_m (gs_sf s) (key_of t) = None"
    and get: "group_Get (key_of t) (g\<lparr>mainCache := gs_cache s, loader := {}\<rparr>) (gs_world s) = Some (r, g', w')"
  shows "\<exists>s'. (get_step g key_of)\<^sup>*\<^sup>* s s' \<and> gs_pcs s' = (gs_pcs s)(t := Returned r)
           \<and> gs_cache s' = mainCache g' \<and> gs_world s' = w' \<and> sf_m (gs_sf s') = sf_m (gs_sf s)"
proof (cases "key_of t = ''''")
  case True
  have "get_step g key_of s (get_goto t (Returned (Inr [])) s)" by (rule get_step.get_empty) (use pc(1) True in simp_all)
  with True get show ?thesis
    by (intro exI [of _ "get_goto t (Returned (Inr [])) s"]) (auto simp: group_Get_def)
next
  case key: False
  obtain x mc where look: "mc_get (key_of t) (gs_cache s) = (x, mc)" by fastforce
  show ?thesis
  proof (cases x)
    case (Some v)
    let ?s = "get_goto t (Returned (Inr v)) (s\<lparr>gs_cache := mc\<rparr>)"
    have "get_step g key_of s ?s" by (rule get_step.get_hit) (use pc(1) key look Some in simp_all)
    with key look Some get show ?thesis by (intro exI [of _ ?s]) (auto simp: group_Get_def)
  next
    case None
    let ?s = "get_goto t (InLoad AskPeer) (s\<lparr>gs_cache := mc\<rparr>)"
    have miss: "get_step g key_of s ?s" by (rule get_step.get_miss) (use pc(1) key look None in simp_all)
    have "load (key_of t) (g\<lparr>mainCache := mc, loader := {}\<rparr>) (gs_world s) = Some (r, g', w')"
      using get key look None by (cases g) (simp add: group_Get_def)
    then have "load_fn (key_of t) (g\<lparr>mainCache := mc, loader := {}\<rparr>) (gs_world s) = Some (r, g', w')"
      by (simp add: load_alone)
    then obtain g'' where "load_fn (key_of t) (g\<lparr>mainCache := mc\<rparr>) (gs_world s) = Some (r, g'', w')" "mainCache g'' = mainCache g'"
      using load_fn_loader [of "key_of t" "{}" "g\<lparr>mainCache := mc\<rparr>" "gs_world s"] by auto
    with load_alone_run [of ?s t key_of g r g'' w'] pc free obtain s' c
      where s': "(get_step g key_of)\<^sup>*\<^sup>* ?s s'" "gs_pcs s' = (gs_pcs ?s)(t := Returned r)" "gs_cache s' = mainCache g'"
        "gs_world s' = w'" "sf_m (gs_sf s') = sf_m (gs_sf s)" by auto
    with miss show ?thesis
      by (intro exI [of _ s']) (auto simp: fun_eq_iff intro: converse_rtranclp_into_rtranclp)
  qed
qed

section \<open>Progress\<close>

fun fn_rank :: "fn_stage \<Rightarrow> nat" where
  "fn_rank AskPeer = 3"
| "fn_rank AskGetter = 2"
| "fn_rank (StoreValue v) = 1"
| "fn_rank (Result r) = 0"

text \<open>How many more steps a goroutine can make.\<close>

fun place_rank :: "get_pc \<Rightarrow> sf_pc \<Rightarrow> nat" where
  "place_rank NotCalling pc = 0"
| "place_rank GetStart pc = 9"
| "place_rank (InLoad st) pc = 1 + fn_rank st + sf_rank pc"
| "place_rank (Returned r) pc = 0"

definition get_rank :: "'w get_state \<Rightarrow> nat \<Rightarrow> nat" where
  "get_rank s t = place_rank (gs_pcs s t) (sf_pcs (gs_sf s) t)"

lemma get_rank_bound: "get_rank s t \<le> 9"
proof -
  have "1 + fn_rank st + sf_rank pc \<le> 9" for st pc by (cases st; cases pc) auto
  then show ?thesis by (cases "gs_pcs s t") (auto simp: get_rank_def)
qed

lemma get_step_rank:
  assumes "get_step g key_of s s'" and inv: "get_inv src g key_of s"
  shows "\<exists>t. get_rank s' t < get_rank s t \<and> (\<forall>u. u \<noteq> t \<longrightarrow> get_rank s' u = get_rank s u)"
  using assms(1)
proof cases
  case (do_enter t)
  then show ?thesis by (intro exI [of _ t]) (auto simp: get_rank_def sf_enter_def split: option.splits)
next
  case (ask_peer t c peer r w)
  then show ?thesis by (intro exI [of _ t]) (cases r; auto simp: get_rank_def)
next
  case (ask_getter t r w)
  then show ?thesis by (intro exI [of _ t]) (cases r; auto simp: get_rank_def)
next
  case (signal t c)
  then show ?thesis using get_invD(4) [OF inv, of t] by (intro exI [of _ t]) (auto simp: get_rank_def get_pc_ok_in_Do)
next
  case (remove t c)
  then show ?thesis using get_invD(4) [OF inv, of t] by (intro exI [of _ t]) (auto simp: get_rank_def get_pc_ok_in_Do)
next
  case (wake t c cl)
  then show ?thesis using get_invD(4) [OF inv, of t] by (intro exI [of _ t]) (auto simp: get_rank_def get_pc_ok_in_Do)
next
  case (get_miss t mc)
  then show ?thesis using get_invD(4) [OF inv, of t] by (intro exI [of _ t]) (auto simp: get_rank_def)
qed (auto simp: get_rank_def intro!: exI)

text \<open>A step that brings the rank of one goroutine down.\<close>

definition can_move :: "'w group \<Rightarrow> (nat \<Rightarrow> string) \<Rightarrow> nat \<Rightarrow> 'w get_state \<Rightarrow> bool" where
  "can_move g key_of t s \<longleftrightarrow> (\<exists>s'. get_step g key_of s s' \<and> get_rank s' t < get_rank s t)"

lemma can_moveI: "get_step g key_of s s' \<Longrightarrow> get_rank s' t < get_rank s t \<Longrightarrow> can_move g key_of t s"
  by (auto simp: can_move_def)

text \<open>The leader of a call can make a step, wherever it is in the function or in \<open>Do\<close>.\<close>

lemma leader_in_fn_moves:
  assumes inv: "get_inv src g key_of s" and running: "sf_pcs (gs_sf s) t = Running c"
  shows "can_move g key_of t s"
proof -
  note ok = get_invD(4) [OF inv, of t]
  from ok running obtain st where st: "gs_pcs s t = InLoad st" by (cases "gs_pcs s t") auto
  show ?thesis
  proof (cases st)
    case AskPeer
    show ?thesis
    proof (cases "chosen_peer g (key_of t)")
      case None
      from get_step.no_peer [where key_of = key_of, OF st [unfolded AskPeer] running None] show ?thesis
        by (rule can_moveI) (simp add: get_rank_def st AskPeer)
    next
      case (Some peer)
      obtain r w where "getFromPeer peer (key_of t) g (gs_world s) = (r, w)" by fastforce
      from get_step.ask_peer [where key_of = key_of, OF st [unfolded AskPeer] running Some this] show ?thesis
        by (rule can_moveI) (cases r; simp add: get_rank_def st AskPeer)
    qed
  next
    case AskGetter
    obtain r w where "group_getter g (key_of t) (gs_world s) = (r, w)" by fastforce
    from get_step.ask_getter [where key_of = key_of, OF st [unfolded AskGetter] this] show ?thesis
      by (rule can_moveI) (cases r; simp add: get_rank_def st AskGetter)
  next
    case (StoreValue v)
    with st ok have "src (key_of t) = Inr v" by simp
    from store_keeps_cache [OF get_invD(2) [OF inv] this] obtain mc where "mc_add (key_of t) v (gs_cache s) = Some mc"
      by blast
    from get_step.store_value [where key_of = key_of, OF st [unfolded StoreValue] this] show ?thesis
      by (rule can_moveI) (simp add: get_rank_def st StoreValue)
  next
    case (Result r)
    from get_step.fn_returns [OF st [unfolded Result] running] show ?thesis
      by (rule can_moveI) (simp add: get_rank_def st Result running)
  qed
qed

lemma leader_moves:
  assumes inv: "get_inv src g key_of s" and lead: "sf_leading (sf_pcs (gs_sf s) t) c"
  shows "can_move g key_of t s"
proof -
  note ok = get_invD(4) [OF inv, of t]
  consider "sf_pcs (gs_sf s) t = Running c" | "sf_pcs (gs_sf s) t = Computed c" | "sf_pcs (gs_sf s) t = Deleting c"
    using lead ok by (auto simp: sf_leading_def get_pc_ok_in_Do)
  then show ?thesis
  proof cases
    case 1
    with inv show ?thesis by (rule leader_in_fn_moves)
  next
    case 2
    from get_step.signal [OF this] ok 2 show ?thesis
      by (intro can_moveI) (assumption, auto simp: get_rank_def get_pc_ok_in_Do)
  next
    case 3
    from get_step.remove [OF this] ok 3 show ?thesis
      by (intro can_moveI) (assumption, auto simp: get_rank_def get_pc_ok_in_Do)
  qed
qed

text \<open>While a call of \<open>Get\<close> has not returned, it can go on itself, or the leader that it waits for can.\<close>

lemma starter_moves:
  assumes st: "gs_pcs s t = GetStart" and pc: "sf_pcs (gs_sf s) t = Start"
  shows "can_move g key_of t s"
proof -
  obtain x mc where look: "mc_get (key_of t) (gs_cache s) = (x, mc)" by fastforce
  show ?thesis
  proof (cases "key_of t = ''''")
    case True
    from get_step.get_empty [where key_of = key_of, OF st this] show ?thesis by (rule can_moveI) (simp add: get_rank_def st)
  next
    case key: False
    show ?thesis
    proof (cases x)
      case None
      from get_step.get_miss [where key_of = key_of, OF st key look [unfolded None]] show ?thesis
        by (rule can_moveI) (simp add: get_rank_def st pc)
    next
      case (Some v)
      from get_step.get_hit [where key_of = key_of, OF st key look [unfolded Some]] show ?thesis
        by (rule can_moveI) (simp add: get_rank_def st)
    qed
  qed
qed

lemma key_moves:
  assumes inv: "get_inv src g key_of s" and alive: "gs_pcs s t \<noteq> NotCalling" "\<And>r. gs_pcs s t \<noteq> Returned r"
  shows "\<exists>u. key_of u = key_of t \<and> can_move g key_of u s"
proof (cases "gs_pcs s t")
  case GetStart
  with get_invD(4) [OF inv, of t] starter_moves [of s t] show ?thesis by auto
next
  case st: (InLoad st)
  note sf = get_invD(1) [OF inv]
  show ?thesis
  proof (cases "sf_pcs (gs_sf s) t")
    case Start
    with st get_invD(4) [OF inv, of t] have ask: "st = AskPeer" by (cases st) auto
    from get_step.do_enter [OF st [unfolded ask] Start] have "can_move g key_of t s"
      by (rule can_moveI) (simp add: get_rank_def st Start sf_enter_def split: option.split)
    then show ?thesis by blast
  next
    case (Waiting c)
    with sf_invD(1) [OF sf, of t] obtain cl where cl: "sf_calls (gs_sf s) c = Some cl" "call_key cl = key_of t" by auto
    show ?thesis
    proof (cases "call_done cl")
      case True
      from get_step.wake [OF Waiting cl(1) this] have "can_move g key_of t s"
        by (rule can_moveI) (simp add: get_rank_def st Waiting)
      then show ?thesis by blast
    next
      case False
      with sf_invD(3) [OF sf cl(1)] have "sf_leading (sf_pcs (gs_sf s) (call_leader cl)) c"
        "key_of (call_leader cl) = key_of t" using cl(2) by (auto simp: sf_call_ok_def)
      with leader_moves [OF inv] show ?thesis by metis
    qed
  next
    case (Finished c)
    with sf_invD(1) [OF sf, of t] obtain cl r where cl: "sf_calls (gs_sf s) c = Some cl" "call_val cl = Some r" by auto
    from get_step.do_returns [OF st Finished cl] have "can_move g key_of t s"
      by (rule can_moveI) (simp add: get_rank_def st)
    then show ?thesis by blast
  qed (use leader_moves [OF inv, of t] in \<open>auto simp: sf_leading_def\<close>)
qed (use alive in blast)+

text \<open>A goroutine that does not call \<open>Get\<close> never takes part.\<close>

lemma get_step_callers:
  assumes "get_step g key_of s s'" and "get_inv src g key_of s"
  shows "gs_pcs s' t = NotCalling \<longleftrightarrow> gs_pcs s t = NotCalling"
  using assms(1) by cases auto

lemma get_steps_callers:
  assumes "(get_step g key_of)\<^sup>*\<^sup>* s s'" and "get_inv src g key_of s"
  shows "gs_pcs s' t = NotCalling \<longleftrightarrow> gs_pcs s t = NotCalling"
  using assms
proof (induction rule: rtranclp_induct)
  case (step y z)
  from gets.inv_steps [OF step.hyps(1) step.prems] get_step_callers [OF step.hyps(2)] step show ?case by blast
qed simp

lemma get_rank_zero: "get_rank s t = 0 \<longleftrightarrow> gs_pcs s t = NotCalling \<or> (\<exists>r. gs_pcs s t = Returned r)"
  by (cases "gs_pcs s t") (auto simp: get_rank_def)

text \<open>The steps that are left to a finite number of goroutines.\<close>

lemma get_step_sum:
  assumes step: "get_step g key_of s s'" and inv: "get_inv src g key_of s" and fin: "finite T"
    and callers: "\<And>t. gs_pcs s t \<noteq> NotCalling \<Longrightarrow> t \<in> T"
  shows "(\<Sum>t\<in>T. get_rank s' t) < (\<Sum>t\<in>T. get_rank s t)"
proof -
  from get_step_rank [OF step inv] obtain u where
    u: "get_rank s' u < get_rank s u" "\<forall>v. v \<noteq> u \<longrightarrow> get_rank s' v = get_rank s v" by blast
  then have "gs_pcs s u \<noteq> NotCalling" using get_rank_zero [of s u] by auto
  then have "u \<in> T" by (rule callers)
  with fin u show ?thesis by (intro sum_strict_mono_ex1) (auto, metis nat_less_le order_refl)
qed

lemma get_run_sum:
  assumes "(get_step g key_of ^^ n) s s'" and "get_inv src g key_of s" and "finite T"
    and "\<And>t. gs_pcs s t \<noteq> NotCalling \<Longrightarrow> t \<in> T"
  shows "n + (\<Sum>t\<in>T. get_rank s' t) \<le> (\<Sum>t\<in>T. get_rank s t)"
  using assms(1)
proof (induction n arbitrary: s')
  case (Suc n)
  then obtain y where y: "(get_step g key_of ^^ n) s y" "get_step g key_of y s'" by auto
  from relpowp_imp_rtranclp [OF y(1)] have run: "(get_step g key_of)\<^sup>*\<^sup>* s y" .
  have "(\<Sum>t\<in>T. get_rank s' t) < (\<Sum>t\<in>T. get_rank y t)"
    using get_step_sum [OF y(2) gets.inv_steps [OF run assms(2)] assms(3)] get_steps_callers [OF run assms(2)] assms(4)
    by blast
  with Suc.IH [OF y(1)] show ?case by linarith
qed simp

section \<open>Properties\<close>

text \<open>A goroutine that asks a peer or the callback is in \<open>fn\<close>.\<close>

definition asking :: "'w get_state \<Rightarrow> nat \<Rightarrow> bool" where
  "asking s t \<longleftrightarrow> (gs_pcs s t = InLoad AskPeer \<and> (\<exists>c. sf_pcs (gs_sf s) t = Running c)) \<or> gs_pcs s t = InLoad AskGetter"

text \<open>C13: Concurrent \<open>Get\<close>s are correct in every interleaving.  Any number of goroutines call \<open>Get\<close> on a
  group whose callback is a function of the key and whose peers do not lie about it: each one that
  has returned has exactly what the callback says for its own key (the empty value for the empty
  key), also when it got the value from the cache, a peer, or the load of another goroutine; for one
  key at most one goroutine at a time asks a peer or the callback; and the cache always holds
  only what the callback says.\<close>

theorem concurrent_Gets_correct:
  assumes "group_ok src g" and "(get_step g key_of)\<^sup>*\<^sup>* (get_init g T w) s"
  shows "(case gs_pcs s t of Returned r \<Rightarrow> r = (if key_of t = '''' then Inr [] else src (key_of t)) | _ \<Rightarrow> True)
       \<and> card {u. key_of u = key_of t \<and> asking s u} \<le> 1
       \<and> map_of (mc_contents (gs_cache s)) \<subseteq>\<^sub>m source_value src"
proof -
  have inv: "get_inv src g key_of s" using gets.run_inv [of src g "get_init g T w", OF _ assms(2)] assms(1) by blast
  have "u = v" if "key_of u = key_of t \<and> asking s u" "key_of v = key_of t \<and> asking s v" for u v
  proof -
    have "\<exists>c. sf_leading (sf_pcs (gs_sf s) x) c" if "asking s x" for x
      using that get_invD(4) [OF inv, of x] by (auto simp: asking_def sf_leading_def)
    with that sf_leader_unique [OF get_invD(1) [OF inv], of u _ v] show ?thesis by metis
  qed
  then have "{u. key_of u = key_of t \<and> asking s u} = {} \<or> (\<exists>v. {u. key_of u = key_of t \<and> asking s u} = {v})"
    by blast
  then have "card {u. key_of u = key_of t \<and> asking s u} \<le> 1" by (elim disjE exE) (erule ssubst, simp)+
  then show ?thesis
    using get_invD(2) [OF inv] get_invD(4) [OF inv, of t]
    by (auto simp: cache_ok_def group_ok_def split: get_pc.split)
qed

text \<open>C14: Concurrent \<open>Get\<close>s end.  Let finitely many goroutines call \<open>Get\<close>, with whatever keys, and let
  them have made \<open>n\<close> steps in any order.  These steps and the steps that are left to them are at most
  nine for each of them, so there is no infinite run; for each call that has not returned, a
  goroutine that calls \<open>Get\<close> with the same key can make a step, so no key is ever blocked, and
  nobody waits for a call of another key; and a run stops only when every call has returned.  (The
  callback and the peers always answer, as \<open>group_ok\<close> and their types say.)\<close>

theorem concurrent_Gets_progress:
  assumes "group_ok src g" and "finite T" and "(get_step g key_of ^^ n) (get_init g T w) s"
  shows "n + (\<Sum>t\<in>T. get_rank s t) \<le> 9 * card T
       \<and> (\<forall>t\<in>T. (\<nexists>r. gs_pcs s t = Returned r) \<longrightarrow>
            (\<exists>u\<in>T. \<exists>s'. key_of u = key_of t \<and> get_step g key_of s s' \<and> get_rank s' u < get_rank s u))
       \<and> ((\<nexists>s'. get_step g key_of s s') \<longleftrightarrow> (\<forall>t\<in>T. \<exists>r. gs_pcs s t = Returned r))"
proof -
  have start: "get_inv src g key_of (get_init g T w)" using assms(1) by (rule get_init_inv)
  have run: "(get_step g key_of)\<^sup>*\<^sup>* (get_init g T w) s" using assms(3) by (rule relpowp_imp_rtranclp)
  have inv: "get_inv src g key_of s" using gets.inv_steps [OF run start] .
  have callers: "gs_pcs s t \<noteq> NotCalling \<longleftrightarrow> t \<in> T" for t
    using get_steps_callers [OF run start, of t] by (simp add: get_init_def)
  have "n + (\<Sum>t\<in>T. get_rank s t) \<le> (\<Sum>t\<in>T. get_rank (get_init g T w) t)"
    by (rule get_run_sum [OF assms(3) start assms(2)]) (simp add: get_init_def split: if_splits)
  also have "\<dots> \<le> (\<Sum>t\<in>T. 9)" by (rule sum_mono) (rule get_rank_bound)
  also have "\<dots> = 9 * card T" by simp
  finally have bound: "n + (\<Sum>t\<in>T. get_rank s t) \<le> 9 * card T" .
  have moves: "\<exists>u\<in>T. \<exists>s'. key_of u = key_of t \<and> get_step g key_of s s' \<and> get_rank s' u < get_rank s u"
    if "t \<in> T" "\<nexists>r. gs_pcs s t = Returned r" for t
  proof -
    from key_moves [OF inv, of t] callers [of t] that obtain u s' where
      u: "key_of u = key_of t" "get_step g key_of s s'" "get_rank s' u < get_rank s u" by (auto simp: can_move_def)
    then have "u \<in> T" using callers [of u] get_rank_zero [of s u] by auto
    with u show ?thesis by blast
  qed
  have "\<nexists>s'. get_step g key_of s s'" if "\<forall>t\<in>T. \<exists>r. gs_pcs s t = Returned r"
  proof -
    have "(\<Sum>t\<in>T. get_rank s t) = 0"
      by (rule sum.neutral) (use that in \<open>simp only: get_rank_zero, blast\<close>)
    with get_step_sum [OF _ inv assms(2)] callers show ?thesis by (metis not_less_zero)
  qed
  with bound moves show ?thesis by blast
qed

text \<open>What the theory Group says of a goroutine alone is a run of the system: if \<open>group_Get\<close> returns a
  result, a group and a world, then from any reachable state in which no call for the key is in
  flight, a goroutine that has not started can run through \<open>Get\<close> to this result, this cache and
  this world, and no other goroutine is touched.\<close>

theorem Get_alone_refines:
  assumes "group_ok src g" and "(get_step g key_of)\<^sup>*\<^sup>* (get_init g T w) s"
    and "gs_pcs s t = GetStart" and "sf_m (gs_sf s) (key_of t) = None"
    and "group_Get (key_of t) (g\<lparr>mainCache := gs_cache s\<rparr>) (gs_world s) = Some (r, g', w')"
  shows "\<exists>s'. (get_step g key_of)\<^sup>*\<^sup>* s s' \<and> gs_pcs s' = (gs_pcs s)(t := Returned r)
           \<and> gs_cache s' = mainCache g' \<and> gs_world s' = w'"
proof -
  have inv: "get_inv src g key_of s" using gets.run_inv [of src g "get_init g T w", OF _ assms(2)] assms(1) by blast
  have "loader (g\<lparr>mainCache := gs_cache s\<rparr>) = {}" using assms(1) by (simp add: group_ok_def)
  then have "g\<lparr>mainCache := gs_cache s, loader := {}\<rparr> = g\<lparr>mainCache := gs_cache s\<rparr>" by (cases g) simp
  with Get_alone_run [of s t key_of g r g' w'] assms(3-5) get_invD(4) [OF inv, of t] show ?thesis by auto
qed

text \<open>C15: The loader does not make sure that a key is loaded once, as the comment on \<open>load\<close> says it does, not
  even while the cache holds the value: of two overlapping \<open>Get\<close>s of a key that is not cached, one may
  have missed in the cache before the other loads, and enter \<open>Do\<close> after the other has left it.  Then
  the cache holds the value, and the callback is asked a second time.\<close>

theorem overlapping_Gets_load_twice:
  assumes "group_ok src g" and "peers g = None" and "src key = Inr v" and "key \<noteq> ''''"
    and "map_of (mc_contents (mainCache g)) key = None"
    and "\<not> exceeds view_len (cacheBytes (mainCache g)) [(key, v)]"
    and "{0, 1} \<subseteq> T"
  shows "\<exists>s1 s2. (get_step g (\<lambda>_. key))\<^sup>*\<^sup>* (get_init g T w) s1 \<and> (get_step g (\<lambda>_. key))\<^sup>*\<^sup>* s1 s2
           \<and> gs_pcs s1 0 = Returned (Inr v) \<and> map_of (mc_contents (gs_cache s1)) key = Some v
           \<and> gs_pcs s1 1 = InLoad AskPeer \<and> gs_pcs s2 1 = Returned (Inr v)
           \<and> gs_world s1 = snd (group_getter g key w) \<and> gs_world s2 = snd (group_getter g key (gs_world s1))"
proof -
  let ?step = "get_step g (\<lambda>_. key)" and ?s = "get_init g T w"
  have inv: "mc_inv (mainCache g)" using assms(1) by (simp add: group_ok_def)
  have miss: "mc_get key (mainCache g) = (None, mainCache g)"
    using mc_get_result [OF inv, of key] assms(5) mc_get_miss_id [OF inv, of key] by (metis prod.collapse)
  let ?a = "get_goto 0 (InLoad AskPeer) ?s"
  let ?b = "get_goto 1 (InLoad AskPeer) ?a"
  have "?step ?s (get_goto 0 (InLoad AskPeer) (?s\<lparr>gs_cache := mainCache g\<rparr>))"
    by (rule get_step.get_miss) (use miss assms(4,7) in \<open>simp_all add: get_init_def\<close>)
  moreover have "?step ?a (get_goto 1 (InLoad AskPeer) (?a\<lparr>gs_cache := mainCache g\<rparr>))"
    by (rule get_step.get_miss) (use miss assms(4,7) in \<open>simp_all add: get_init_def\<close>)
  ultimately have start: "?step\<^sup>*\<^sup>* ?s ?b"
    by (simp add: get_init_def get_goto_def)
  have fn: "load_fn key h x = getLocally key h x" if "peers h = None" for h :: "'a group" and x
    using that by (simp add: load_fn_def)
  from getLocally_caches [OF assms(1,3,6), of w] obtain mc where mc:
    "getLocally key g w = Some (Inr v, g\<lparr>mainCache := mc\<rparr>, snd (group_getter g key w))"
    "map_of (mc_contents mc) key = Some v" "group_ok src (g\<lparr>mainCache := mc\<rparr>)" "cacheBytes mc = cacheBytes (mainCache g)" by blast
  have "\<exists>s1 c. ?step\<^sup>*\<^sup>* ?b s1 \<and> gs_pcs s1 = (gs_pcs ?b)(0 := Returned (Inr v))
      \<and> gs_cache s1 = mainCache (g\<lparr>mainCache := mc\<rparr>) \<and> gs_world s1 = snd (group_getter g key w)
      \<and> sf_m (gs_sf s1) = sf_m (gs_sf ?b) \<and> sf_pcs (gs_sf s1) = (sf_pcs (gs_sf ?b))(0 := Finished c)"
    by (rule load_alone_run) (use mc(1) assms(2) in \<open>simp_all add: get_init_def fn\<close>)
  then obtain s1 c where s1: "?step\<^sup>*\<^sup>* ?b s1" "gs_pcs s1 = (gs_pcs ?b)(0 := Returned (Inr v))" "gs_cache s1 = mc"
    "gs_world s1 = snd (group_getter g key w)" "sf_m (gs_sf s1) = sf_m (gs_sf ?b)"
    "sf_pcs (gs_sf s1) = (sf_pcs (gs_sf ?b))(0 := Finished c)" by auto
  from getLocally_caches [OF mc(3) assms(3), of "gs_world s1"] assms(6) mc(4)
  obtain mc' where mc': "getLocally key (g\<lparr>mainCache := mc\<rparr>) (gs_world s1)
      = Some (Inr v, g\<lparr>mainCache := mc'\<rparr>, snd (group_getter g key (gs_world s1)))" by auto
  have "\<exists>s2 c. ?step\<^sup>*\<^sup>* s1 s2 \<and> gs_pcs s2 = (gs_pcs s1)(1 := Returned (Inr v))
      \<and> gs_cache s2 = mainCache (g\<lparr>mainCache := mc'\<rparr>) \<and> gs_world s2 = snd (group_getter g key (gs_world s1))
      \<and> sf_m (gs_sf s2) = sf_m (gs_sf s1) \<and> sf_pcs (gs_sf s2) = (sf_pcs (gs_sf s1))(1 := Finished c)"
    by (rule load_alone_run) (use mc' s1 assms(2) in \<open>simp_all add: get_init_def fn\<close>)
  with start s1 mc(2) show ?thesis
    by (metis (no_types, lifting) fun_upd_apply get_goto_simps(1) rtranclp_trans zero_neq_one)
qed

theorem overlapping_Gets_load_twice_witness:
  "\<exists>s1 s2. (get_step scores (\<lambda>_. ''Tom''))\<^sup>*\<^sup>* (get_init scores {0, 1} []) s1 \<and> (get_step scores (\<lambda>_. ''Tom''))\<^sup>*\<^sup>* s1 s2
     \<and> map_of (mc_contents (gs_cache s1)) ''Tom'' = Some ''630'' \<and> gs_world s1 = [''Tom'']
     \<and> gs_world s2 = [''Tom'', ''Tom'']"
proof -
  have "peers scores = None" "map_of (mc_contents (mainCache scores)) ''Tom'' = None"
    "\<not> exceeds view_len (cacheBytes (mainCache scores)) [(''Tom'', ''630'')]"
    by (simp_all add: scores_def mc_contents_def exceeds_def int64_less_def pair_size_def view_len_def strlen_def)
  moreover have "snd (group_getter scores k w) = w @ [k]" for k w by (simp add: scores_def db_getter_def)
  ultimately show ?thesis
    using overlapping_Gets_load_twice [OF scores_ok _ scores_values(1), of "{0, 1}" "[]"] by fastforce
qed

text \<open>For the other witnesses: a node alone gets a value, and a run of one step.\<close>

lemma scores_start: "gs_pcs (get_init scores {0, 3} []) 0 = GetStart" "sf_m (gs_sf (get_init scores {0, 3} [])) k = None"
  by (simp_all add: get_init_def)

theorem Get_alone_refines_witness:
  "\<exists>s' g' w'. (get_step scores (\<lambda>_. ''Tom''))\<^sup>*\<^sup>* (get_init scores {0, 3} []) s' \<and> gs_pcs s' 0 = Returned (Inr ''630'')
     \<and> gs_world s' = w' \<and> group_Get ''Tom'' scores [] = Some (Inr ''630'', g', w')"
proof -
  obtain g' w' where get: "group_Get ''Tom'' scores [] = Some (Inr ''630'', g', w')"
    using group_Get_ok [OF scores_ok, of "''Tom''" "[]"] scores_values by auto
  then have "group_Get ''Tom'' (scores\<lparr>mainCache := gs_cache (get_init scores {0, 3} [])\<rparr>) (gs_world (get_init scores {0, 3} []))
      = Some (Inr ''630'', g', w')" by (simp add: get_init_def)
  from Get_alone_refines [OF scores_ok rtranclp.rtrancl_refl scores_start(1) scores_start(2) this] get
  show ?thesis by fastforce
qed

theorem concurrent_Gets_correct_witness:
  "\<exists>s. (get_step scores (\<lambda>_. ''Bob''))\<^sup>*\<^sup>* (get_init scores {0, 3} []) s \<and> gs_pcs s 3 = Returned (Inl ''Bob not exist'')"
proof -
  obtain g' w' where "group_Get ''Bob'' scores [] = Some (db_source ''Bob'', g', w')"
    using group_Get_ok [OF scores_ok, of "''Bob''" "[]"] by auto
  then have "group_Get ''Bob'' (scores\<lparr>mainCache := gs_cache (get_init scores {0, 3} []), loader := {}\<rparr>) (gs_world (get_init scores {0, 3} []))
      = Some (db_source ''Bob'', g', w')" by (simp add: get_init_def scores_def)
  from Get_alone_run [of "get_init scores {0, 3} []" 3 "\<lambda>_. ''Bob''", OF _ _ _ this]
  obtain s r where s: "(get_step scores (\<lambda>_. ''Bob''))\<^sup>*\<^sup>* (get_init scores {0, 3} []) s" "gs_pcs s 3 = Returned r"
    by (auto simp: get_init_def)
  with concurrent_Gets_correct [OF scores_ok s(1), of 3] have "r = db_source ''Bob''" by simp
  with s show ?thesis by (auto simp: db_source_def db_getter_def db_def)
qed

theorem concurrent_Gets_progress_witness:
  "let s = get_goto 3 (InLoad AskPeer) (get_init scores {0, 3} [])
   in 1 + (\<Sum>t\<in>{0, 3}. get_rank s t) \<le> 18
    \<and> (\<exists>u\<in>{0, 3}. \<exists>s'. get_step scores (\<lambda>_. ''Tom'') s s' \<and> get_rank s' u < get_rank s u)"
proof -
  let ?s = "get_init scores {0, 3} []"
  have "get_step scores (\<lambda>_. ''Tom'') ?s (get_goto 3 (InLoad AskPeer) (?s\<lparr>gs_cache := mainCache scores\<rparr>))"
    by (rule get_step.get_miss) (simp_all add: get_init_def mc_get_def scores_def)
  moreover have "?s\<lparr>gs_cache := mainCache scores\<rparr> = ?s" by (simp add: get_init_def)
  ultimately have "get_step scores (\<lambda>_. ''Tom'') ?s (get_goto 3 (InLoad AskPeer) ?s)" by simp
  then have "(get_step scores (\<lambda>_. ''Tom'') ^^ 1) ?s (get_goto 3 (InLoad AskPeer) ?s)" by (simp only: relpowp_1)
  from concurrent_Gets_progress [OF scores_ok _ this]
  have all: "1 + (\<Sum>t\<in>{0, 3}. get_rank (get_goto 3 (InLoad AskPeer) ?s) t) \<le> 9 * card {0, 3 :: nat}
    \<and> (\<forall>t\<in>{0, 3}. (\<nexists>r. gs_pcs (get_goto 3 (InLoad AskPeer) ?s) t = Returned r) \<longrightarrow>
         (\<exists>u\<in>{0, 3}. \<exists>s'. get_step scores (\<lambda>_. ''Tom'') (get_goto 3 (InLoad AskPeer) ?s) s'
            \<and> get_rank s' u < get_rank (get_goto 3 (InLoad AskPeer) ?s) u))"
    by blast
  have "\<nexists>r. gs_pcs (get_goto 3 (InLoad AskPeer) ?s) 3 = Returned r" by simp
  with all show ?thesis unfolding Let_def by (intro conjI) (simp, blast)
qed

end
