(* ===== verification/HttpPool.thy ===== *)
theory HttpPool
  imports Group ConsistentHash
begin

text \<open>
  The node-to-node transport of \<^verbatim>\<open>geecache/geecache/http.go\<close>: the pool that picks a remote node
  with the consistent-hash ring, the handler that serves a group's keys over HTTP, and the client
  \<open>httpGetter\<close>.

  Not in the repository and therefore parameters: the protobuf library (\<open>marshal\<close>,
  \<open>unmarshal\<close>) and the network (\<open>http_get\<close>, what \<^verbatim>\<open>http.Get\<close> answers for a URL).
\<close>

section \<open>The pool\<close>

definition defaultBasePath :: string where
  "defaultBasePath = ''/_geecache/''"

definition defaultReplicas :: int where
  "defaultReplicas = 50"

record http_pool =
  pool_self :: string
  basePath :: string
  httpGetters :: "string \<rightharpoonup> string"
  pool_ring :: "ring option"

definition NewHTTPPool :: "string \<Rightarrow> http_pool" where
  "NewHTTPPool self =
     \<lparr>pool_self = self, basePath = defaultBasePath, httpGetters = (\<lambda>_. None), pool_ring = None\<rparr>"

text \<open>An \<open>httpGetter\<close> is its base URL.\<close>

definition pool_Set :: "string list \<Rightarrow> http_pool \<Rightarrow> http_pool" where
  "pool_Set ps p =
     p\<lparr>pool_ring := Some (ring_add ps (ring_new defaultReplicas None)),
       httpGetters := fold (\<lambda>peer m. m(peer \<mapsto> peer @ basePath p)) ps (\<lambda>_. None)\<rparr>"

text \<open>
  \<open>PickPeer\<close> before \<open>Set\<close> reads the fields of a nil ring, which panics.  The result is the base
  URL of the getter, if the map has one, and the flag.
\<close>

definition PickPeer :: "string \<Rightarrow> http_pool \<Rightarrow> (string option \<times> bool) outcome" where
  "PickPeer key p =
     (case pool_ring p of
        None \<Rightarrow> Panic ''invalid memory address or nil pointer dereference''
      | Some ring \<Rightarrow>
          (let peer = ring_get ring key in
           if peer \<noteq> '''' \<and> peer \<noteq> pool_self p then Ret (httpGetters p peer, True)
           else Ret (None, False)))"

section \<open>The client side\<close>

definition getter_url :: "string \<Rightarrow> pb_request \<Rightarrow> string" where
  "getter_url baseURL req = baseURL @ query_escape (req_Group req) @ ''/'' @ query_escape (req_Key req)"

record http_reply =
  StatusCode :: nat
  Status :: string
  Body :: "goerror + bytes"

definition StatusOK :: nat where "StatusOK = 200"
definition StatusBadRequest :: nat where "StatusBadRequest = 400"
definition StatusNotFound :: nat where "StatusNotFound = 404"
definition StatusInternalServerError :: nat where "StatusInternalServerError = 500"

definition httpGetter_Get ::
    "(bytes \<Rightarrow> goerror + bytes) \<Rightarrow> (string \<Rightarrow> 'w \<Rightarrow> (goerror + http_reply) \<times> 'w)
       \<Rightarrow> string \<Rightarrow> pb_request \<Rightarrow> 'w \<Rightarrow> (goerror + bytes) \<times> 'w" where
  "httpGetter_Get unmarshal http_get baseURL req w =
     (case http_get (getter_url baseURL req) w of
        (Inl err, w') \<Rightarrow> (Inl err, w')
      | (Inr res, w') \<Rightarrow>
          (if StatusCode res \<noteq> StatusOK then (Inl (''server returned: '' @ Status res), w')
           else
             (case Body res of
                Inl err \<Rightarrow> (Inl (''reading response body: '' @ err), w')
              | Inr bs \<Rightarrow>
                  (case unmarshal bs of
                     Inl err \<Rightarrow> (Inl (''decoding response body: '' @ err), w')
                   | Inr value \<Rightarrow> (Inr value, w')))))"

section \<open>The server side\<close>

record http_response =
  resp_code :: nat
  resp_body :: bytes

definition http_Error :: "string \<Rightarrow> nat \<Rightarrow> http_response" where
  "http_Error msg code = \<lparr>resp_code = code, resp_body = msg @ [CHR 0x0A]\<rparr>"

text \<open>The first half of the handler: the group name and the key that a path asks for.\<close>

definition parse_path :: "string \<Rightarrow> http_pool \<Rightarrow> (http_response + string \<times> string) outcome" where
  "parse_path path p =
     (if \<not> has_prefix path (basePath p) then Panic (''HTTPPool serving unexpected path: '' @ path)
      else
        (case split_n2 (CHR ''/'') (drop (length (basePath p)) path) of
           [groupName, key] \<Rightarrow> Ret (Inr (groupName, key))
         | _ \<Rightarrow> Ret (Inl (http_Error ''bad request'' StatusBadRequest))))"

definition ServeHTTP ::
    "(bytes \<Rightarrow> goerror + bytes) \<Rightarrow> http_pool \<Rightarrow> string \<Rightarrow> 'w groups \<Rightarrow> 'w
       \<Rightarrow> (http_response \<times> 'w groups \<times> 'w) outcome option" where
  "ServeHTTP marshal p path groups w =
     (case parse_path path p of
        Panic m \<Rightarrow> Some (Panic m)
      | Ret (Inl r) \<Rightarrow> Some (Ret (r, groups, w))
      | Ret (Inr (groupName, key)) \<Rightarrow>
          (case GetGroup groupName groups of
             None \<Rightarrow>
               Some (Ret (http_Error (''no such group: '' @ groupName) StatusNotFound, groups, w))
           | Some g \<Rightarrow>
               map_option
                 (\<lambda>(r, g', w'). Ret
                    (case r of
                       Inl err \<Rightarrow> http_Error err StatusInternalServerError
                     | Inr view \<Rightarrow>
                         (case marshal view of
                            Inl err \<Rightarrow> http_Error err StatusInternalServerError
                          | Inr body \<Rightarrow> \<lparr>resp_code = StatusOK, resp_body = body\<rparr>),
                     groups(groupName \<mapsto> g'), w'))
                 (group_Get key g w)))"

section \<open>Picking peers\<close>

lemma fold_getters:
  "fold (\<lambda>peer m. m(peer \<mapsto> peer @ b)) ps m k = (if k \<in> set ps then Some (k @ b) else m k)"
  by (induction ps arbitrary: m) auto

lemma PickPeer_Set:
  "PickPeer key (pool_Set ps p) =
     (let owner = ring_get (ring_add ps (ring_new defaultReplicas None)) key in
      if owner \<noteq> '''' \<and> owner \<noteq> pool_self p
      then Ret (if owner \<in> set ps then Some (owner @ basePath p) else None, True)
      else Ret (None, False))"
  by (simp add: PickPeer_def pool_Set_def fold_getters Let_def)

lemma ring_owner_member:
  assumes "0 < n" and "ps \<noteq> []"
  shows "ring_get (ring_add ps (ring_new n fn)) key \<in> set ps"
proof -
  let ?m = "ring_add ps (ring_new n fn)"
  obtain q qs where ps: "ps = q # qs" using assms(2) by (cases ps) auto
  have "ring_points (ring_new n fn) q \<noteq> []"
    using assms(1) by (simp add: ring_points_def ring_new_def)
  then have "set (ring_keys ?m) \<noteq> {}"
    using ps by (simp add: fold_ring_place_all_keys)
  then have "ring_keys ?m \<noteq> []" by force
  from ring_get_successor [OF ring_add_inv [OF ring_new_inv] this, of key] obtain p
    where "hashmap ?m p = Some (ring_get ?m key)" by blast
  then show ?thesis
    using fold_ring_place_all_hashmap [of ps "ring_new n fn" p] by (auto simp: ring_new_def)
qed

section \<open>Properties\<close>

text \<open>After \<open>Set\<close> with a non-empty list of non-empty addresses, \<open>PickPeer\<close> never panics
  and never yields a nil getter: it names the ring's owner of the key, which is one of the
  addresses, with that address followed by the base path as its URL, unless the owner is the node
  itself, when it reports that there is no peer.\<close>

theorem PickPeer_owner:
  assumes "ps \<noteq> []" and "'''' \<notin> set ps"
  shows "\<exists>owner \<in> set ps.
     PickPeer key (pool_Set ps p) =
       (if owner = pool_self p then Ret (None, False) else Ret (Some (owner @ basePath p), True))"
proof -
  let ?owner = "ring_get (ring_add ps (ring_new defaultReplicas None)) key"
  have "?owner \<in> set ps"
    by (rule ring_owner_member) (simp_all add: defaultReplicas_def assms(1))
  moreover from this have "?owner \<noteq> ''''" using assms(2) by auto
  ultimately show ?thesis
    by (intro bexI [of _ ?owner]) (simp_all add: PickPeer_Set Let_def)
qed

theorem PickPeer_owner_witness:
  "PickPeer ''Tom'' (pool_Set [''http://localhost:8001''] (NewHTTPPool ''http://localhost:8002''))
     = Ret (Some ''http://localhost:8001/_geecache/'', True)"
  using PickPeer_owner [of "[''http://localhost:8001'']" "''Tom''" "NewHTTPPool ''http://localhost:8002''"]
  by (simp add: NewHTTPPool_def defaultBasePath_def)

text \<open>C16: Nodes that are given the same list of addresses agree on who owns a key, and so do nodes
  that are given the same set of addresses in different orders if no two addresses share a point
  of the ring.  The owner is one of the addresses; each node keeps the key for itself if it is the
  owner, and otherwise sends it to the URL of the owner, so that a node keeps a key exactly if every
  other node sends the key to it.\<close>

theorem PickPeer_agreement:
  assumes "ps = qs \<or> set ps = set qs \<and> collision_free (ring_new defaultReplicas None) ps"
    and "'''' \<notin> set ps"
    and "pool_self p \<in> set ps" and "pool_self q \<in> set qs" and "pool_self p \<noteq> pool_self q"
  shows "(\<exists>owner \<in> set ps.
            PickPeer key (pool_Set ps p) = (if owner = pool_self p then Ret (None, False)
              else Ret (Some (owner @ basePath p), True)) \<and>
            PickPeer key (pool_Set qs q) = (if owner = pool_self q then Ret (None, False)
              else Ret (Some (owner @ basePath q), True)))
       \<and> (PickPeer key (pool_Set ps p) = Ret (None, False)
           \<longleftrightarrow> PickPeer key (pool_Set qs q) = Ret (Some (pool_self p @ basePath q), True))"
proof -
  let ?owner = "ring_get (ring_add ps (ring_new defaultReplicas None)) key"
  have sets: "set ps = set qs" using assms(1) by auto
  have same: "ring_get (ring_add qs (ring_new defaultReplicas None)) key = ?owner"
    using assms(1)
  proof
    assume sets: "set ps = set qs \<and> collision_free (ring_new defaultReplicas None) ps"
    have new: "hashmap (ring_new defaultReplicas None) = (\<lambda>_. None)" by (simp add: ring_new_def)
    have free: "collision_free (ring_new defaultReplicas None) qs"
      using sets by (simp add: collision_free_def)
    show ?thesis
    proof (rule ring_get_cong)
      from collision_free_hashmap [OF free new] sets
        collision_free_hashmap [OF conjunct2 [OF sets] new]
      show "hashmap (ring_add qs (ring_new defaultReplicas None))
          = hashmap (ring_add ps (ring_new defaultReplicas None))"
        by (intro ext) (metis not_Some_eq)
    qed (simp_all only: ring_add_inv ring_new_inv ring_add_simps)
  qed simp
  have "ps \<noteq> []" using assms(3) by auto
  then have member: "?owner \<in> set ps"
    by (intro ring_owner_member) (simp_all add: defaultReplicas_def)
  moreover from this have "?owner \<in> set qs" "?owner \<noteq> ''''" using sets assms(2) by auto
  ultimately have picks:
    "PickPeer key (pool_Set ps p) = (if ?owner = pool_self p then Ret (None, False)
       else Ret (Some (?owner @ basePath p), True))"
    "PickPeer key (pool_Set qs q) = (if ?owner = pool_self q then Ret (None, False)
       else Ret (Some (?owner @ basePath q), True))"
    by (simp_all only: PickPeer_Set same Let_def if_True simp_thms) simp_all
  moreover from picks have "PickPeer key (pool_Set ps p) = Ret (None, False)
      \<longleftrightarrow> PickPeer key (pool_Set qs q) = Ret (Some (pool_self p @ basePath q), True)"
    using assms(5) by (cases "?owner = pool_self p") simp_all
  ultimately show ?thesis using member by blast
qed

theorem PickPeer_agreement_witness:
  "PickPeer ''Tom'' (pool_Set [''http://localhost:8001'', ''http://localhost:8002'']
       (NewHTTPPool ''http://localhost:8001'')) = Ret (None, False)
   \<longleftrightarrow> PickPeer ''Tom'' (pool_Set [''http://localhost:8001'', ''http://localhost:8002'']
       (NewHTTPPool ''http://localhost:8002'')) = Ret (Some ''http://localhost:8001/_geecache/'', True)"
  using PickPeer_agreement
    [of "[''http://localhost:8001'', ''http://localhost:8002'']" _
      "NewHTTPPool ''http://localhost:8001''" "NewHTTPPool ''http://localhost:8002''" "''Tom''"]
  by (simp add: NewHTTPPool_def defaultBasePath_def)

section \<open>From the client's URL to the server's key\<close>

lemma parse_path_request:
  assumes "CHR ''/'' \<notin> set g"
  shows "parse_path (basePath p @ g @ ''/'' @ k) p = Ret (Inr (g, k))"
  using split_n2_append [OF assms, of k] by (simp add: parse_path_def)

lemma space_to_plus_slash [simp]:
  "space_to_plus c = CHR ''/'' \<longleftrightarrow> c = CHR ''/''" "CHR ''/'' = space_to_plus c \<longleftrightarrow> c = CHR ''/''"
  by (auto simp: space_to_plus_def)

lemma getter_path_unescape:
  assumes "CHR ''%'' \<notin> set base"
  shows "path_unescape (base @ query_escape g @ ''/'' @ query_escape k)
           = Some (base @ map space_to_plus g @ ''/'' @ map space_to_plus k)"
proof -
  have "path_unescape (query_escape k) = Some (map space_to_plus k)"
    using unescape_query_escape [of k "[]"] by simp
  then have "path_unescape (''/'' @ query_escape k) = Some (''/'' @ map space_to_plus k)" by simp
  then show ?thesis
    using assms by (simp add: path_unescape_plain unescape_query_escape)
qed

text \<open>C17: The path that \<open>httpGetter.Get\<close> requests, after the server has unescaped it, is split
  back into the group name and the key with every space turned into a plus sign, and into exactly
  the group name and the key when they have no space, provided the group name has no slash; the
  key may contain slashes, percent signs and any other byte.\<close>

theorem getter_path_roundtrip:
  assumes "CHR ''%'' \<notin> set (basePath p)" and "CHR ''/'' \<notin> set (req_Group req)"
  shows "\<exists>path. path_unescape (getter_url (basePath p) req) = Some path
           \<and> parse_path path p
               = Ret (Inr (map space_to_plus (req_Group req), map space_to_plus (req_Key req)))
           \<and> (CHR '' '' \<notin> set (req_Group req @ req_Key req) \<longrightarrow>
                parse_path path p = Ret (Inr (req_Group req, req_Key req)))"
proof -
  let ?g = "map space_to_plus (req_Group req)" and ?k = "map space_to_plus (req_Key req)"
  have "path_unescape (getter_url (basePath p) req) = Some (basePath p @ ?g @ ''/'' @ ?k)"
    unfolding getter_url_def by (rule getter_path_unescape [OF assms(1)])
  moreover have "CHR ''/'' \<notin> set ?g" using assms(2) by (auto simp: space_to_plus_def)
  ultimately show ?thesis
    using parse_path_request [of ?g p ?k] space_to_plus_id [of "req_Group req"]
      space_to_plus_id [of "req_Key req"]
    by (intro exI [of _ "basePath p @ ?g @ ''/'' @ ?k"]) auto
qed

theorem getter_path_roundtrip_witness:
  "\<exists>path. path_unescape (getter_url ''/_geecache/'' \<lparr>req_Group = ''scores'', req_Key = ''a/b%''\<rparr>)
       = Some path
     \<and> parse_path path (NewHTTPPool ''s'') = Ret (Inr (''scores'', ''a/b%''))"
  using getter_path_roundtrip [of "NewHTTPPool ''s''" "\<lparr>req_Group = ''scores'', req_Key = ''a/b%''\<rparr>"]
  by (auto simp: NewHTTPPool_def defaultBasePath_def)

text \<open>What the network has to do: a request to \<open>addr\<close> runs the handler of that node on the
  unescaped path, and the client gets the handler's code and body.  The world of the client holds
  the groups of the node.\<close>

definition delivers ::
    "(string \<Rightarrow> 'w groups \<times> 'w \<Rightarrow> (goerror + http_reply) \<times> ('w groups \<times> 'w))
       \<Rightarrow> (bytes \<Rightarrow> goerror + bytes) \<Rightarrow> http_pool \<Rightarrow> string \<Rightarrow> (nat \<Rightarrow> string) \<Rightarrow> bool" where
  "delivers http_get marshal p addr status_text \<longleftrightarrow>
     (\<forall>path up groups w resp groups' w'.
        path_unescape path = Some up \<longrightarrow>
        ServeHTTP marshal p up groups w = Some (Ret (resp, groups', w')) \<longrightarrow>
        http_get (addr @ path) (groups, w) =
          (Inr \<lparr>StatusCode = resp_code resp, Status = status_text (resp_code resp),
                Body = Inr (resp_body resp)\<rparr>, (groups', w')))"

text \<open>Decoding undoes encoding, as the protobuf library documents for a message of its own.\<close>

definition codec_roundtrip :: "(bytes \<Rightarrow> goerror + bytes) \<Rightarrow> (bytes \<Rightarrow> goerror + bytes) \<Rightarrow> bool" where
  "codec_roundtrip marshal unmarshal \<longleftrightarrow> (\<forall>v. \<exists>b. marshal v = Inr b \<and> unmarshal b = Inr v)"

text \<open>Fetching a key from a remote node returns what the node's source says, through URL
  escaping, routing, the node's cache, encoding and decoding: the value, or an error with the
  node's status 500.  The source is asked for the key with its spaces turned into plus signs, so
  for a key without a space this is the value of the key, and for a key with a space it is the
  value of a different key.\<close>

theorem remote_Get_value:
  assumes "delivers http_get marshal p addr status_text" and "codec_roundtrip marshal unmarshal"
    and "CHR ''%'' \<notin> set (basePath p)" and "CHR ''/'' \<notin> set name" and "CHR '' '' \<notin> set name"
    and "groups name = Some g" and "group_ok src g" and "key \<noteq> ''''"
  shows "\<exists>world'. httpGetter_Get unmarshal http_get (addr @ basePath p)
             \<lparr>req_Group = name, req_Key = key\<rparr> (groups, w) =
           (case src (map space_to_plus key) of
              Inr v \<Rightarrow> Inr v | Inl e \<Rightarrow> Inl (''server returned: '' @ status_text 500), world')"
proof -
  let ?req = "\<lparr>req_Group = name, req_Key = key\<rparr>" and ?k = "map space_to_plus key"
  let ?path = "getter_url (basePath p) ?req"
  have url: "getter_url (addr @ basePath p) ?req = addr @ ?path"
    by (simp add: getter_url_def)
  have up: "path_unescape ?path = Some (basePath p @ name @ ''/'' @ ?k)"
    using getter_path_unescape [OF assms(3), of name key] space_to_plus_id [OF assms(5)]
    by (simp add: getter_url_def)
  have "?k \<noteq> ''''" using assms(8) by simp
  from group_Get_ok [OF assms(7) this, of w] obtain g' w'
    where get: "group_Get ?k g w = Some (src ?k, g', w')" by blast
  obtain enc where enc: "\<And>v. marshal v = Inr (enc v)" "\<And>v. unmarshal (enc v) = Inr v"
    using assms(2) unfolding codec_roundtrip_def by metis
  define resp where "resp = (case src ?k of
      Inl err \<Rightarrow> http_Error err StatusInternalServerError
    | Inr v \<Rightarrow> \<lparr>resp_code = StatusOK, resp_body = enc v\<rparr>)"
  have "ServeHTTP marshal p (basePath p @ name @ ''/'' @ ?k) groups w
      = Some (Ret (resp, groups(name \<mapsto> g'), w'))"
    using parse_path_request [OF assms(4), of p ?k] get assms(6)
    by (simp add: ServeHTTP_def GetGroup_def enc(1) resp_def split: sum.splits)
  then have "http_get (addr @ ?path) (groups, w) =
      (Inr \<lparr>StatusCode = resp_code resp, Status = status_text (resp_code resp),
            Body = Inr (resp_body resp)\<rparr>, (groups(name \<mapsto> g'), w'))"
    using assms(1) up unfolding delivers_def by blast
  then show ?thesis
    by (simp add: httpGetter_Get_def url resp_def enc(2) http_Error_def StatusOK_def
        StatusInternalServerError_def split: sum.splits)
qed

text \<open>A network that connects the client directly to the handler, with identity encoding.\<close>

definition direct_get ::
    "http_pool \<Rightarrow> nat \<Rightarrow> string \<Rightarrow> 'w groups \<times> 'w \<Rightarrow> (goerror + http_reply) \<times> ('w groups \<times> 'w)" where
  "direct_get p n url world =
     (case path_unescape (drop n url) of
        None \<Rightarrow> (Inl ''invalid URL escape'', world)
      | Some up \<Rightarrow>
          (case ServeHTTP Inr p up (fst world) (snd world) of
             Some (Ret (resp, groups', w')) \<Rightarrow>
               (Inr \<lparr>StatusCode = resp_code resp, Status = ''status'',
                     Body = Inr (resp_body resp)\<rparr>, (groups', w'))
           | _ \<Rightarrow> (Inl ''EOF'', world)))"

lemma direct_get_delivers: "delivers (direct_get p (length addr)) Inr p addr (\<lambda>_. ''status'')"
  by (auto simp: delivers_def direct_get_def)

theorem remote_Get_value_witness:
  "\<exists>world'. httpGetter_Get Inr (direct_get (NewHTTPPool ''a'') 1) ''a/_geecache/''
      \<lparr>req_Group = ''scores'', req_Key = ''Tom''\<rparr> ([''scores'' \<mapsto> scores], []) = (Inr ''630'', world')"
proof -
  have "codec_roundtrip Inr Inr" by (simp add: codec_roundtrip_def)
  from remote_Get_value [OF direct_get_delivers this, of "NewHTTPPool ''a''" "''scores''"
      "[''scores'' \<mapsto> scores]" scores db_source "''Tom''" "''a''" "[]"]
  show ?thesis
    by (simp add: NewHTTPPool_def defaultBasePath_def scores_ok scores_values space_to_plus_def)
qed

end
