(* ===== verification/HttpMux.thy ===== *)
theory HttpMux
  imports Prelude
begin

text \<open>
  The part of Go's \<^verbatim>\<open>http.ServeMux\<close> that the programs use: \<^verbatim>\<open>http.Handle\<close> adds a handler under a path
  and panics when the path is taken already; a request finds the handler of its path.
\<close>

definition http_Handle :: "string \<Rightarrow> 'h \<Rightarrow> (string \<rightharpoonup> 'h) \<Rightarrow> (string \<rightharpoonup> 'h) outcome" where
  "http_Handle pattern h mux =
     (if pattern \<in> dom mux then Panic (''http: multiple registrations for '' @ pattern)
      else Ret (mux(pattern \<mapsto> h)))"

lemma http_Handle_Ret:
  "http_Handle pattern h mux = Ret mux' \<longleftrightarrow> pattern \<notin> dom mux \<and> mux' = mux(pattern \<mapsto> h)"
  by (auto simp: http_Handle_def)

end
