(* ===== verification/CacheDemo.thy ===== *)
theory CacheDemo
  imports HttpPool HttpMux "HOL-Library.Multiset"
begin

text \<open>
  The demo program of \<^verbatim>\<open>geecache/main.go\<close>: a node of a cluster of three, with the group of scores, the pool
  that serves the other nodes, and the API server for the users.  The data source and
  \<open>createGroup\<close> are in the theory Group.  The world of a node is a log, to which the searches in
  the slow database and whatever the network records are appended.
\<close>

section \<open>The program\<close>

definition apiAddr :: string where "apiAddr = ''http://localhost:9999''"

text \<open>Indexing the map with any other port gives the empty string.\<close>

definition addrMap :: "int \<Rightarrow> string" where
  "addrMap port =
     (if port = 8001 then ''http://localhost:8001''
      else if port = 8002 then ''http://localhost:8002''
      else if port = 8003 then ''http://localhost:8003'' else '''')"

text \<open>The addresses are collected in the order in which Go iterates over the map.\<close>

definition addrs_of_map :: "string list \<Rightarrow> bool" where
  "addrs_of_map addrs \<longleftrightarrow> mset addrs = mset (map addrMap [8001, 8002, 8003])"

text \<open>
  An \<open>HTTPPool\<close> as the peer picker of a group.  It is only used after \<open>Set\<close> with addresses that are not
  empty; then \<open>PickPeer\<close> neither panics nor returns a nil getter, as \<open>pool_picker_total\<close> says, so
  that the last case is only that of no peer.
\<close>

definition pool_picker ::
    "(bytes \<Rightarrow> goerror + bytes) \<Rightarrow> (string \<Rightarrow> 'w \<Rightarrow> (goerror + http_reply) \<times> 'w) \<Rightarrow> http_pool \<Rightarrow> 'w peer_picker" where
  "pool_picker unmarshal http_get p key =
     (case PickPeer key p of
        Ret (Some url, True) \<Rightarrow> Some (httpGetter_Get unmarshal http_get url)
      | _ \<Rightarrow> None)"

text \<open>\<^verbatim>\<open>addr[7:]\<close>\<close>

definition listen_addr :: "string \<Rightarrow> string outcome" where
  "listen_addr addr =
     (if length addr < 7 then Panic ''slice bounds out of range'' else Ret (drop 7 addr))"

text \<open>\<open>startCacheServer\<close> up to the server's loop: the pool, the group, and where the server listens.\<close>

definition startCacheServer ::
    "(bytes \<Rightarrow> goerror + bytes) \<Rightarrow> (string \<Rightarrow> 'w \<Rightarrow> (goerror + http_reply) \<times> 'w) \<Rightarrow> string \<Rightarrow> string list
       \<Rightarrow> 'w group \<Rightarrow> (http_pool \<times> 'w group \<times> string) outcome" where
  "startCacheServer unmarshal http_get addr addrs gee =
     (let p = pool_Set addrs (NewHTTPPool addr) in
      bind_outcome (RegisterPeers (Some (pool_picker unmarshal http_get p)) gee) (\<lambda>gee'.
        bind_outcome (listen_addr addr) (\<lambda>l. Ret (p, gee', l))))"

text \<open>The handler of \<^verbatim>\<open>/api\<close>, for the value of the parameter \<^verbatim>\<open>key\<close>.\<close>

definition api_handler :: "string \<Rightarrow> 'w group \<Rightarrow> 'w \<Rightarrow> (http_response \<times> 'w group \<times> 'w) option" where
  "api_handler key gee w =
     map_option
       (\<lambda>(r, gee', w').
          (case r of
             Inl err \<Rightarrow> http_Error err StatusInternalServerError
           | Inr view \<Rightarrow> \<lparr>resp_code = StatusOK, resp_body = view\<rparr>, gee', w'))
       (group_Get key gee w)"

datatype api_route = ApiHandler

definition startAPIServer :: "string \<Rightarrow> (string \<rightharpoonup> api_route) \<Rightarrow> ((string \<rightharpoonup> api_route) \<times> string) outcome" where
  "startAPIServer addr mux =
     bind_outcome (http_Handle ''/api'' ApiHandler mux) (\<lambda>mux'.
       bind_outcome (listen_addr addr) (\<lambda>l. Ret (mux', l)))"

text \<open>\<open>main\<close> for the values of its flags: the pool, the group and the address of the cache server,
  and, with the flag \<^verbatim>\<open>api\<close>, the routes and the address of the API server, which runs
  in a goroutine beside it.\<close>

definition cache_main ::
    "(bytes \<Rightarrow> goerror + bytes) \<Rightarrow> (string \<Rightarrow> string list \<Rightarrow> (goerror + http_reply) \<times> string list)
       \<Rightarrow> int \<Rightarrow> bool \<Rightarrow> string list
       \<Rightarrow> ((http_pool \<times> string list group \<times> string) \<times> ((string \<rightharpoonup> api_route) \<times> string) option) outcome" where
  "cache_main unmarshal http_get port api addrs =
     bind_outcome (createGroup (\<lambda>_. None)) (\<lambda>(gee, groups).
       bind_outcome (if api then bind_outcome (startAPIServer apiAddr (\<lambda>_. None)) (\<lambda>a. Ret (Some a)) else Ret None) (\<lambda>a.
         bind_outcome (startCacheServer unmarshal http_get (addrMap port) addrs gee) (\<lambda>c. Ret (c, a))))"

section \<open>A node at work\<close>

text \<open>Requests to a node: a user asks the API, another node asks for a key over the path of the pool.\<close>

datatype node_request = ApiRequest string | PeerRequest string

fun node_serve ::
    "(bytes \<Rightarrow> goerror + bytes) \<Rightarrow> http_pool \<Rightarrow> node_request \<Rightarrow> 'w group \<Rightarrow> 'w \<Rightarrow> (http_response \<times> 'w group \<times> 'w) option" where
  "node_serve marshal p (ApiRequest key) gee w = api_handler key gee w"
| "node_serve marshal p (PeerRequest path) gee w =
     (case ServeHTTP marshal p path [group_name gee \<mapsto> gee] w of
        Some (Ret (resp, groups, w')) \<Rightarrow>
          map_option (\<lambda>gee'. (resp, gee', w')) (groups (group_name gee))
      | _ \<Rightarrow> None)"

fun node_run ::
    "(bytes \<Rightarrow> goerror + bytes) \<Rightarrow> http_pool \<Rightarrow> node_request list \<Rightarrow> 'w group \<Rightarrow> 'w \<Rightarrow> http_response list option" where
  "node_run marshal p [] gee w = Some []"
| "node_run marshal p (r # rs) gee w =
     (case node_serve marshal p r gee w of
        None \<Rightarrow> None
      | Some (resp, gee', w') \<Rightarrow> map_option ((#) resp) (node_run marshal p rs gee' w'))"

text \<open>What the database alone would answer.\<close>

definition db_answer :: "(bytes \<Rightarrow> goerror + bytes) \<Rightarrow> string \<Rightarrow> http_response" where
  "db_answer marshal key =
     (case db_source key of
        Inl e \<Rightarrow> http_Error e StatusInternalServerError
      | Inr v \<Rightarrow>
          (case marshal v of
             Inl e \<Rightarrow> http_Error e StatusInternalServerError
           | Inr body \<Rightarrow> \<lparr>resp_code = StatusOK, resp_body = body\<rparr>))"

text \<open>A request for a key; the other nodes ask for it under the name of the group.\<close>

definition asks_for :: "node_request \<Rightarrow> string \<Rightarrow> bool" where
  "asks_for r key \<longleftrightarrow> key \<noteq> '''' \<and> r \<in> {ApiRequest key, PeerRequest (defaultBasePath @ ''scores/'' @ key)}"

definition expected :: "(bytes \<Rightarrow> goerror + bytes) \<Rightarrow> node_request \<Rightarrow> string \<Rightarrow> http_response" where
  "expected marshal r key = (case r of ApiRequest k \<Rightarrow> db_answer Inr key | PeerRequest path \<Rightarrow> db_answer marshal key)"

text \<open>What is asked of the network and the other nodes: a reply with status 200 to a request for a key
  of the scores, if it decodes, has the value that the source gives for the key that the path
  arrives as.  This is what the nodes of the theory HttpPool do; any failure is allowed.\<close>

definition honest_nodes ::
    "(bytes \<Rightarrow> goerror + bytes) \<Rightarrow> (string \<Rightarrow> 'w \<Rightarrow> (goerror + http_reply) \<times> 'w) \<Rightarrow> string list \<Rightarrow> bool" where
  "honest_nodes unmarshal http_get addrs \<longleftrightarrow>
     (\<forall>addr \<in> set addrs. \<forall>key w v.
        fst (httpGetter_Get unmarshal http_get (addr @ defaultBasePath) \<lparr>req_Group = ''scores'', req_Key = key\<rparr> w) = Inr v
        \<longrightarrow> db_source (map space_to_plus key) = Inr v)"

lemma space_to_plus_fixed: "CHR ''+'' \<notin> set (map space_to_plus key) \<Longrightarrow> map space_to_plus key = key"
  by (induction key) (auto simp: space_to_plus_def split: if_splits)

text \<open>No key of the database has a plus sign, so a key with a space is never answered with a value.\<close>

lemma db_source_plus: "db_source (map space_to_plus key) = Inr v \<Longrightarrow> db_source key = Inr v"
proof -
  assume v: "db_source (map space_to_plus key) = Inr v"
  then have "map space_to_plus key \<in> {''Tom'', ''Jack'', ''Sam''}"
    by (auto simp: db_source_def db_getter_def db_def split: if_splits)
  then have "CHR ''+'' \<notin> set (map space_to_plus key)" by auto
  from space_to_plus_fixed [OF this] v show ?thesis by simp
qed

lemma pool_picker_total:
  assumes "ps \<noteq> []" and "[] \<notin> set ps"
  shows "PickPeer key (pool_Set ps p) = Ret (None, False) \<and> pool_picker unmarshal http_get (pool_Set ps p) key = None
       \<or> (\<exists>url. PickPeer key (pool_Set ps p) = Ret (Some url, True)
            \<and> pool_picker unmarshal http_get (pool_Set ps p) key = Some (httpGetter_Get unmarshal http_get url))"
  using PickPeer_owner [OF assms, of key p] by (auto simp: pool_picker_def split: if_splits)

lemma pool_picker_sound:
  assumes "honest_nodes unmarshal http_get addrs"
  shows "picker_sound db_source ''scores'' (pool_picker unmarshal http_get (pool_Set addrs (NewHTTPPool self)))"
  unfolding picker_sound_def
proof (intro allI impI)
  fix k peer w v
  assume pick: "pool_picker unmarshal http_get (pool_Set addrs (NewHTTPPool self)) k = Some peer"
    and v: "fst (peer \<lparr>req_Group = ''scores'', req_Key = k\<rparr> w) = Inr v"
  from pick obtain owner where "owner \<in> set addrs"
    "peer = httpGetter_Get unmarshal http_get (owner @ defaultBasePath)"
    by (auto simp: pool_picker_def PickPeer_Set NewHTTPPool_def Let_def split: if_splits)
  with v assms show "db_source k = Inr v" by (auto simp: honest_nodes_def intro: db_source_plus)
qed

lemma api_handler_answer:
  assumes "group_ok db_source g" and "key \<noteq> ''''"
  shows "\<exists>g' w'. api_handler key g w = Some (db_answer Inr key, g', w') \<and> group_ok db_source g' \<and> same_group g g'"
proof -
  from group_Get_ok [OF assms, of w] obtain g' w' where
    g: "group_Get key g w = Some (db_source key, g', w')" "group_ok db_source g'" "same_group g g'" by blast
  then show ?thesis by (cases "db_source key") (simp_all add: api_handler_def db_answer_def)
qed

lemma ServeHTTP_answer:
  assumes "group_ok db_source g" and "key \<noteq> ''''" and "group_name g = ''scores''" and "basePath p = defaultBasePath"
  shows "\<exists>g' w'. ServeHTTP marshal p (defaultBasePath @ ''scores/'' @ key) [''scores'' \<mapsto> g] w
             = Some (Ret (db_answer marshal key, [''scores'' \<mapsto> g'], w')) \<and> group_ok db_source g' \<and> same_group g g'"
proof -
  from group_Get_ok [OF assms(1,2), of w] obtain g' w' where
    g: "group_Get key g w = Some (db_source key, g', w')" "group_ok db_source g'" "same_group g g'" by blast
  have "parse_path (defaultBasePath @ ''scores/'' @ key) p = Ret (Inr (''scores'', key))"
    using parse_path_request [of "''scores''" p key] assms(4) by simp
  with g show ?thesis
    by (intro exI [of _ g'] exI [of _ w']) (simp add: ServeHTTP_def GetGroup_def db_answer_def split: sum.splits)
qed

lemma node_serve_answer:
  assumes "asks_for r key" and "group_ok db_source g" and "group_name g = ''scores''" and "basePath p = defaultBasePath"
  shows "\<exists>g' w'. node_serve marshal p r g w = Some (expected marshal r key, g', w')
           \<and> group_ok db_source g' \<and> group_name g' = ''scores''"
proof (cases r)
  case (ApiRequest k)
  with assms api_handler_answer [OF assms(2), of key w] show ?thesis
    by (auto simp: asks_for_def expected_def same_group_def)
next
  case (PeerRequest path)
  with assms ServeHTTP_answer [OF assms(2) _ assms(3,4), of key marshal w] show ?thesis
    by (auto simp: asks_for_def expected_def same_group_def)
qed

lemma node_run_answers:
  assumes "list_all2 asks_for rs keys" and "group_ok db_source g" and "group_name g = ''scores''"
    and "basePath p = defaultBasePath"
  shows "node_run marshal p rs g w = Some (map2 (expected marshal) rs keys)"
  using assms
proof (induction arbitrary: g w rule: list_all2_induct)
  case (Cons r rs key keys)
  from node_serve_answer [OF Cons.hyps(1) Cons.prems, of marshal w] obtain g' w' where
    "node_serve marshal p r g w = Some (expected marshal r key, g', w')" "group_ok db_source g'" "group_name g' = ''scores''"
    by blast
  with Cons.IH [of g' w'] Cons.prems(3) show ?case by simp
qed simp

lemma itoa_ports: "itoa 8001 = ''8001''" "itoa 8002 = ''8002''" "itoa 8003 = ''8003''"
  by (simp_all add: itoa_def digit_char_def nat_decimal.simps char_of_def bit_0)

section \<open>Properties\<close>

text \<open>C18: The demo cluster answers from its database.  A node that \<open>main\<close> has started on one of the three
  ports, with the addresses collected in any order, answers every sequence of requests from users
  and from other nodes as the database alone would: the score with status 200, or status 500 and
  that the key does not exist; no matter which node owns a key, which values are cached, and how
  often the network and the other nodes fail, as long as they do not invent scores.  On any
  other port the program panics when it cuts the address.\<close>

theorem demo_node_answers:
  assumes "addrs_of_map addrs" and "honest_nodes unmarshal http_get addrs" and "list_all2 asks_for rs keys"
  shows "if port \<in> {8001, 8002, 8003}
         then \<exists>p gee. cache_main unmarshal http_get port api addrs =
                   Ret ((p, gee, ''localhost:'' @ itoa port),
                        if api then Some ([''/api'' \<mapsto> ApiHandler], ''localhost:9999'') else None)
                \<and> (\<forall>w. node_run marshal p rs gee w = Some (map2 (expected marshal) rs keys))
         else cache_main unmarshal http_get port api addrs = Panic ''slice bounds out of range''"
proof -
  let ?p = "pool_Set addrs (NewHTTPPool (addrMap port))"
  let ?g = "scores\<lparr>peers := Some (pool_picker unmarshal http_get ?p)\<rparr>"
  let ?a = "if api then Some ([''/api'' \<mapsto> ApiHandler], ''localhost:9999'') else None"
  have api: "(if api then bind_outcome (startAPIServer apiAddr (\<lambda>_. None)) (\<lambda>a. Ret (Some a)) else Ret None) = Ret ?a"
    by (simp add: startAPIServer_def http_Handle_def apiAddr_def listen_addr_def)
  have start: "cache_main unmarshal http_get port api addrs =
      bind_outcome (listen_addr (addrMap port)) (\<lambda>l. Ret ((?p, ?g, l), ?a))"
    unfolding cache_main_def createGroup_scores bind_outcome.simps prod.case api
    by (cases "listen_addr (addrMap port)")
      (simp_all add: startCacheServer_def RegisterPeers_def Let_def scores_def)
  have ok: "group_ok db_source ?g" "group_name ?g = ''scores''"
    using scores_ok pool_picker_sound [OF assms(2)] by (simp_all add: group_ok_def) (simp_all add: scores_def)
  have base: "basePath ?p = defaultBasePath" by (simp add: pool_Set_def NewHTTPPool_def)
  note run = node_run_answers [OF assms(3) ok base]
  show ?thesis
  proof (cases "port \<in> {8001, 8002, 8003}")
    case True
    then have "listen_addr (addrMap port) = Ret (''localhost:'' @ itoa port)"
      by (auto simp: listen_addr_def addrMap_def itoa_ports)
    with True start run show ?thesis by auto
  next
    case False
    then have "listen_addr (addrMap port) = Panic ''slice bounds out of range''"
      by (simp add: listen_addr_def addrMap_def)
    with False start show ?thesis by auto
  qed
qed

theorem demo_node_answers_witness:
  "\<exists>p gee. cache_main Inr (\<lambda>url w. (Inl ''connection refused'', w)) 8002 True
       [addrMap 8003, addrMap 8001, addrMap 8002]
         = Ret ((p, gee, ''localhost:8002''), Some ([''/api'' \<mapsto> ApiHandler], ''localhost:9999''))
     \<and> node_run Inr p [ApiRequest ''Tom'', PeerRequest ''/_geecache/scores/Bob'', ApiRequest ''Tom''] gee []
         = Some [\<lparr>resp_code = 200, resp_body = ''630''\<rparr>, http_Error ''Bob not exist'' 500,
                 \<lparr>resp_code = 200, resp_body = ''630''\<rparr>]"
proof -
  have order: "addrs_of_map [addrMap 8003, addrMap 8001, addrMap 8002]" by (simp add: addrs_of_map_def)
  have honest: "honest_nodes Inr (\<lambda>url w. (Inl ''connection refused'', w :: string list)) as" for as
    by (simp add: honest_nodes_def httpGetter_Get_def)
  have asks: "list_all2 asks_for [ApiRequest ''Tom'', PeerRequest ''/_geecache/scores/Bob'', ApiRequest ''Tom'']
      [''Tom'', ''Bob'', ''Tom'']"
    by (simp add: asks_for_def defaultBasePath_def)
  from demo_node_answers [OF order honest asks, of 8002 True Inr] show ?thesis
    by (auto simp: itoa_ports expected_def db_answer_def db_source_def db_getter_def db_def StatusOK_def StatusInternalServerError_def)
qed

end
