(* ===== verification/Codec.thy ===== *)
theory Codec
  imports Prelude
begin

text \<open>
  The message layer of \<^verbatim>\<open>geerpc/codec/codec.go\<close> and \<^verbatim>\<open>geerpc/codec/gob.go\<close>.

  A connection carries a sequence of gob messages.  Each \<open>Decode\<close> of Go's \<^verbatim>\<open>encoding/gob\<close> takes
  exactly one message off the front, whether or not the message fits the target, and reports
  \<open>EOF\<close> when there is none; each \<open>Encode\<close> appends one message to the buffered writer or
  fails without writing.  What gob makes of a body that is decoded as a header depends on the
  body's type and is an argument of the readers, as is the encoding of a body.  After \<open>Close\<close> no message is
  read any more; those that the decoder of Go has already buffered are lost here.  A
  \<^verbatim>\<open>bufio.Writer\<close> remembers its first failure: every later write through it fails.
\<close>

section \<open>Data\<close>

record header =
  ServiceMethod :: string
  h_Seq :: uint64
  h_Error :: string

datatype 'b message = HeaderMsg header | BodyMsg 'b

text \<open>
  \<open>conn_in\<close> are the messages that have still to be read, \<open>conn_out\<close> the ones that have left,
  \<open>buf\<close> the ones in the buffered writer, and \<open>buf_err\<close> the error that the writer remembers;
  \<open>conn_up\<close> says whether the connection accepts bytes.
\<close>

record 'b gob_codec =
  conn_in :: "'b message list"
  conn_out :: "'b message list"
  conn_up :: bool
  conn_closed :: bool
  buf :: "'b message list"
  buf_err :: "goerror option"

definition GobType :: string where "GobType = ''application/gob''"
definition JsonType :: string where "JsonType = ''application/json''"

definition err_EOF :: goerror where "err_EOF = ''EOF''"
definition err_closed :: goerror where "err_closed = ''use of closed network connection''"
definition err_write :: goerror where "err_write = ''write: broken pipe''"

definition NewGobCodec :: "'b message list \<Rightarrow> bool \<Rightarrow> 'b gob_codec" where
  "NewGobCodec input up =
     \<lparr>conn_in = input, conn_out = [], conn_up = up, conn_closed = False, buf = [], buf_err = None\<rparr>"

text \<open>The constructor map has an entry for gob only; the JSON type is declared but not served.\<close>

definition NewCodecFuncMap :: "string \<rightharpoonup> ('b message list \<Rightarrow> bool \<Rightarrow> 'b gob_codec)" where
  "NewCodecFuncMap = [GobType \<mapsto> NewGobCodec]"

section \<open>Reading\<close>

definition gob_decode ::
    "('b message \<Rightarrow> goerror + 'a) \<Rightarrow> 'b gob_codec \<Rightarrow> (goerror + 'a) \<times> 'b gob_codec" where
  "gob_decode target c =
     (if conn_closed c then (Inl err_closed, c)
      else (case conn_in c of
              [] \<Rightarrow> (Inl err_EOF, c)
            | m # ms \<Rightarrow> (target m, c\<lparr>conn_in := ms\<rparr>)))"

fun as_header :: "('b \<Rightarrow> goerror + header) \<Rightarrow> 'b message \<Rightarrow> goerror + header" where
  "as_header g (HeaderMsg h) = Inr h"
| "as_header g (BodyMsg b) = g b"

definition ReadHeader ::
    "('b \<Rightarrow> goerror + header) \<Rightarrow> 'b gob_codec \<Rightarrow> (goerror + header) \<times> 'b gob_codec" where
  "ReadHeader g c = gob_decode (as_header g) c"

definition ReadBody ::
    "('b message \<Rightarrow> goerror + 'a) \<Rightarrow> 'b gob_codec \<Rightarrow> (goerror + 'a) \<times> 'b gob_codec" where
  "ReadBody target c = gob_decode target c"

text \<open>\<open>ReadBody(nil)\<close> throws one message away.\<close>

definition discard :: "'b message \<Rightarrow> goerror + unit" where
  "discard m = Inr ()"

section \<open>Writing\<close>

definition gob_encode :: "(goerror + 'b message) \<Rightarrow> 'b gob_codec \<Rightarrow> goerror option \<times> 'b gob_codec" where
  "gob_encode x c =
     (case x of
        Inl err \<Rightarrow> (Some err, c)
      | Inr m \<Rightarrow>
          (case buf_err c of
             Some err \<Rightarrow> (Some err, c)
           | None \<Rightarrow> (None, c\<lparr>buf := buf c @ [m]\<rparr>)))"

definition buf_Flush :: "'b gob_codec \<Rightarrow> 'b gob_codec" where
  "buf_Flush c =
     (if buf_err c \<noteq> None \<or> buf c = [] then c
      else if conn_closed c then c\<lparr>buf_err := Some err_closed\<rparr>
      else if \<not> conn_up c then c\<lparr>buf_err := Some err_write\<rparr>
      else c\<lparr>conn_out := conn_out c @ buf c, buf := []\<rparr>)"

definition gob_Close :: "'b gob_codec \<Rightarrow> 'b gob_codec" where
  "gob_Close c = c\<lparr>conn_closed := True\<rparr>"

definition gob_Write ::
    "('v \<Rightarrow> goerror + 'b) \<Rightarrow> header \<Rightarrow> 'v \<Rightarrow> 'b gob_codec \<Rightarrow> goerror option \<times> 'b gob_codec" where
  "gob_Write enc h body c =
     (let (err, c') =
        (case gob_encode (Inr (HeaderMsg h)) c of
           (Some err, c1) \<Rightarrow> (Some err, c1)
         | (None, c1) \<Rightarrow> gob_encode (map_sum id BodyMsg (enc body)) c1);
        c'' = buf_Flush c'
      in (err, if err \<noteq> None then gob_Close c'' else c''))"

section \<open>Correctness\<close>

text \<open>A codec on which nothing has gone wrong yet.\<close>

definition gob_fresh :: "'b gob_codec \<Rightarrow> bool" where
  "gob_fresh c \<longleftrightarrow> \<not> conn_closed c \<and> buf_err c = None \<and> buf c = []"

lemma ReadHeader_HeaderMsg:
  "\<not> conn_closed c \<Longrightarrow> conn_in c = HeaderMsg h # ms \<Longrightarrow>
     ReadHeader g c = (Inr h, c\<lparr>conn_in := ms\<rparr>)"
  by (simp add: ReadHeader_def gob_decode_def)

lemma gob_decode_frame:
  assumes "gob_decode target c = (r, c')"
  shows "conn_out c' = conn_out c \<and> conn_up c' = conn_up c \<and> conn_closed c' = conn_closed c
    \<and> buf c' = buf c \<and> buf_err c' = buf_err c"
  using assms by (auto simp: gob_decode_def split: if_splits list.splits)

lemma gob_decode_shorter:
  "gob_decode target c = (Inr x, c') \<Longrightarrow> length (conn_in c) = Suc (length (conn_in c'))"
  by (auto simp: gob_decode_def split: if_splits list.splits)

lemma gob_decode_le:
  "gob_decode target c = (r, c') \<Longrightarrow> length (conn_in c') \<le> length (conn_in c)"
  by (auto simp: gob_decode_def split: if_splits list.splits)

lemma gob_Write_conn_in [simp]: "conn_in (snd (gob_Write enc h body c)) = conn_in c"
  by (simp add: gob_Write_def gob_encode_def buf_Flush_def gob_Close_def Let_def
      split_beta split: sum.splits option.splits)

lemma gob_Write_ok:
  assumes "gob_fresh c" and "conn_up c" and "enc body = Inr b"
  shows "gob_Write enc h body c = (None, c\<lparr>conn_out := conn_out c @ [HeaderMsg h, BodyMsg b]\<rparr>)"
  using assms by (simp add: gob_Write_def gob_encode_def buf_Flush_def gob_fresh_def)

text \<open>What becomes of a \<open>Write\<close>.  On a working connection a message that can be encoded leaves
  as one header followed by one body, and the codec is as fresh as before.  A body that cannot be
  encoded is reported, the connection is closed, and the peer has been sent a header without a
  body.  On a connection that no longer accepts bytes the first \<open>Write\<close> reports success
  although nothing was sent, because the error of \<open>Flush\<close> is dropped; only the next \<open>Write\<close>
  reports the failure and closes the connection.\<close>

theorem gob_Write_outcomes:
  assumes "gob_fresh c" and "gob_Write enc h body c = (e, c')"
  shows "(if conn_up c
          then (case enc body of
                  Inr b \<Rightarrow> e = None \<and> gob_fresh c' \<and> conn_out c' = conn_out c @ [HeaderMsg h, BodyMsg b]
                | Inl err \<Rightarrow> e = Some err \<and> conn_closed c' \<and> conn_out c' = conn_out c @ [HeaderMsg h])
          else conn_out c' = conn_out c \<and> e = (case enc body of Inl err \<Rightarrow> Some err | Inr b \<Rightarrow> None) \<and>
               (\<exists>c''. gob_Write enc' h' body' c' = (Some err_write, c'') \<and> conn_closed c''
                  \<and> conn_out c'' = conn_out c))"
  using assms
  by (auto simp: gob_Write_def gob_encode_def buf_Flush_def gob_Close_def gob_fresh_def
      split: sum.splits if_splits)

definition demo_codec :: "bool \<Rightarrow> string gob_codec" where
  "demo_codec up = NewGobCodec [] up"

definition demo_header :: header where
  "demo_header = \<lparr>ServiceMethod = ''Foo.Sum'', h_Seq = 1, h_Error = []\<rparr>"

theorem gob_Write_outcomes_witness:
  "conn_out (snd (gob_Write Inr demo_header ''3'' (demo_codec True))) = [HeaderMsg demo_header, BodyMsg ''3'']
   \<and> fst (gob_Write Inr demo_header ''3'' (demo_codec False)) = None"
proof -
  have fresh: "gob_fresh (demo_codec up)" for up
    by (simp add: demo_codec_def NewGobCodec_def gob_fresh_def)
  from gob_Write_outcomes [where enc' = Inr and h' = demo_header and body' = "''4''", OF fresh surjective_pairing
      [of "gob_Write Inr demo_header ''3'' (demo_codec True)"]]
    gob_Write_outcomes [where enc' = Inr and h' = demo_header and body' = "''4''", OF fresh surjective_pairing
      [of "gob_Write Inr demo_header ''3'' (demo_codec False)"]]
  show ?thesis by (simp add: demo_codec_def NewGobCodec_def)
qed

end
