(* ===== verification/Service.thy ===== *)
theory Service
  imports Prelude
begin

text \<open>
  Service objects of \<^verbatim>\<open>geerpc/service.go\<close>: which methods of a receiver are registered, the argument
  and reply values that reflection creates for a call, and the call with its counter.

  The part of Go's \<^verbatim>\<open>reflect\<close> and \<^verbatim>\<open>go/ast\<close> that the code uses is modelled on a datatype of Go
  types.  The body of a registered method is user code: a function of the argument, of the value the
  reply pointer points to, and of a world \<open>'w\<close>; it may panic.
\<close>

section \<open>Go types and values\<close>

datatype gotype =
  Basic string
| Named string string gotype  \<comment> \<open>name, package path, underlying type\<close>
| Ptr gotype
| Slice gotype
| MapOf gotype gotype
| ArrayOf nat gotype
| ChanOf gotype
| Struct
| OtherType string

datatype gokind = KBasic | KPtr | KSlice | KMap | KStruct | KOther

fun kind :: "gotype \<Rightarrow> gokind" where
  "kind (Basic n) = KBasic"
| "kind (Named n p u) = kind u"
| "kind (Ptr t) = KPtr"
| "kind (Slice t) = KSlice"
| "kind (MapOf k t) = KMap"
| "kind (ArrayOf n t) = KOther"
| "kind (ChanOf t) = KOther"
| "kind Struct = KStruct"
| "kind (OtherType n) = KOther"

fun Elem :: "gotype \<Rightarrow> gotype outcome" where
  "Elem (Ptr t) = Ret t"
| "Elem (Slice t) = Ret t"
| "Elem (MapOf k t) = Ret t"
| "Elem (ArrayOf n t) = Ret t"
| "Elem (ChanOf t) = Ret t"
| "Elem (Named n p u) = Elem u"
| "Elem t = Panic ''reflect: Elem of invalid type''"

fun type_Name :: "gotype \<Rightarrow> string" where
  "type_Name (Basic n) = n"
| "type_Name (Named n p u) = n"
| "type_Name t = ''''"

fun PkgPath :: "gotype \<Rightarrow> string" where
  "PkgPath (Named n p u) = p"
| "PkgPath t = ''''"

fun underlying :: "gotype \<Rightarrow> gotype" where
  "underlying (Named n p u) = underlying u"
| "underlying t = t"

fun is_defined :: "gotype \<Rightarrow> bool" where
  "is_defined (Named n p u) = True"
| "is_defined (Basic n) = True"
| "is_defined t = False"

definition assignable :: "gotype \<Rightarrow> gotype \<Rightarrow> bool" where
  "assignable v t \<longleftrightarrow> v = t \<or> underlying v = underlying t \<and> \<not> (is_defined v \<and> is_defined t)"

definition error_type :: gotype where "error_type = Basic ''error''"

text \<open>The first letter of an exported name is upper case; identifiers outside ASCII are not modelled.\<close>

definition IsExported :: "string \<Rightarrow> bool" where
  "IsExported name =
     (case name of [] \<Rightarrow> False | c # _ \<Rightarrow> 65 \<le> (of_char c :: nat) \<and> (of_char c :: nat) \<le> 90)"

text \<open>Values: the zero value of a type, an empty map or slice, a pointer, or data that was decoded
  or computed.\<close>

datatype 'a gvalue =
  Zero gotype | MakeMap gotype | MakeSlice gotype | Ref "'a gvalue" | Data gotype 'a

fun value_type :: "'a gvalue \<Rightarrow> gotype" where
  "value_type (Zero t) = t"
| "value_type (MakeMap t) = t"
| "value_type (MakeSlice t) = t"
| "value_type (Ref v) = Ptr (value_type v)"
| "value_type (Data t x) = t"

section \<open>Services\<close>

text \<open>\<open>reflect.Method\<close>; the parameter types include the receiver.\<close>

type_synonym ('a, 'w) go_method =
  "'a gvalue \<Rightarrow> 'a gvalue \<Rightarrow> 'w \<Rightarrow> ((goerror option \<times> 'a gvalue) \<times> 'w) outcome"

record ('a, 'w) reflect_method =
  rm_Name :: string
  rm_In :: "gotype list"
  rm_Out :: "gotype list"
  rm_Func :: "('a, 'w) go_method"

text \<open>A receiver: the name of its type with a pointer removed, and its method set.\<close>

record ('a, 'w) receiver =
  rcvr_name :: string
  rcvr_methods :: "('a, 'w) reflect_method list"

record ('a, 'w) method_type =
  mt_method :: "('a, 'w) reflect_method"
  ArgType :: gotype
  ReplyType :: gotype
  numCalls :: uint64

record ('a, 'w) service =
  svc_name :: string
  svc_methods :: "string \<rightharpoonup> ('a, 'w) method_type"

definition NumCalls :: "('a, 'w) method_type \<Rightarrow> uint64" where
  "NumCalls m = numCalls m"

definition isExportedOrBuiltinType :: "gotype \<Rightarrow> bool" where
  "isExportedOrBuiltinType t \<longleftrightarrow> IsExported (type_Name t) \<or> PkgPath t = ''''"

text \<open>The body of the loop of \<open>registerMethods\<close>, with its \<open>continue\<close>s.\<close>

definition register_method ::
    "('a, 'w) reflect_method \<Rightarrow> (string \<rightharpoonup> ('a, 'w) method_type)
       \<Rightarrow> (string \<rightharpoonup> ('a, 'w) method_type)" where
  "register_method m tbl =
     (if length (rm_In m) \<noteq> 3 \<or> length (rm_Out m) \<noteq> 1 then tbl
      else if rm_Out m ! 0 \<noteq> error_type then tbl
      else
        (let argType = rm_In m ! 1; replyType = rm_In m ! 2 in
         if \<not> isExportedOrBuiltinType argType \<or> \<not> isExportedOrBuiltinType replyType then tbl
         else tbl(rm_Name m \<mapsto>
           \<lparr>mt_method = m, ArgType = argType, ReplyType = replyType, numCalls = 0\<rparr>)))"

definition registerMethods ::
    "('a, 'w) reflect_method list \<Rightarrow> (string \<rightharpoonup> ('a, 'w) method_type)" where
  "registerMethods ms = fold register_method ms (\<lambda>_. None)"

text \<open>\<open>log.Fatalf\<close> ends the process, like a panic that nobody recovers.\<close>

definition newService :: "('a, 'w) receiver \<Rightarrow> ('a, 'w) service outcome" where
  "newService rcvr =
     (if \<not> IsExported (rcvr_name rcvr)
      then Panic (''rpc server: '' @ rcvr_name rcvr @ '' is not a valid service name'')
      else Ret \<lparr>svc_name = rcvr_name rcvr, svc_methods = registerMethods (rcvr_methods rcvr)\<rparr>)"

definition newArgv :: "('a, 'w) method_type \<Rightarrow> 'a gvalue outcome" where
  "newArgv m =
     (if kind (ArgType m) = KPtr
      then bind_outcome (Elem (ArgType m)) (\<lambda>t. Ret (Ref (Zero t)))
      else Ret (Zero (ArgType m)))"

definition newReplyv :: "('a, 'w) method_type \<Rightarrow> 'a gvalue outcome" where
  "newReplyv m =
     bind_outcome (Elem (ReplyType m))
       (\<lambda>t. Ret (Ref (case kind t of
                       KMap \<Rightarrow> MakeMap t
                     | KSlice \<Rightarrow> MakeSlice t
                     | _ \<Rightarrow> Zero t)))"

text \<open>
  \<open>call\<close>: the counter goes up before the call; \<open>reflect.Value.Call\<close> panics when an argument
  cannot be assigned to the parameter.  The \<open>methodType\<close> is shared by pointer, so the counter is
  updated in the service.  The result is the error, and the reply pointer after the call.
\<close>

definition count_call :: "string \<Rightarrow> ('a, 'w) service \<Rightarrow> ('a, 'w) service" where
  "count_call mname svc =
     svc\<lparr>svc_methods := (svc_methods svc)
       (mname := map_option (numCalls_update (\<lambda>n. n + 1)) (svc_methods svc mname))\<rparr>"

definition reflect_Call ::
    "('a, 'w) method_type \<Rightarrow> 'a gvalue \<Rightarrow> 'a gvalue \<Rightarrow> 'w
       \<Rightarrow> ((goerror option \<times> 'a gvalue) \<times> 'w) outcome" where
  "reflect_Call m argv replyv w =
     (if \<not> assignable (value_type argv) (ArgType m) \<or> \<not> assignable (value_type replyv) (ReplyType m)
      then Panic ''reflect: Call using a value of the wrong type''
      else rm_Func (mt_method m) argv replyv w)"

definition service_call ::
    "string \<Rightarrow> ('a, 'w) method_type \<Rightarrow> 'a gvalue \<Rightarrow> 'a gvalue \<Rightarrow> ('a, 'w) service \<Rightarrow> 'w
       \<Rightarrow> ((goerror option \<times> 'a gvalue) \<times> ('a, 'w) service \<times> 'w) outcome" where
  "service_call mname m argv replyv svc w =
     bind_outcome (reflect_Call m argv replyv w)
       (\<lambda>(r, w'). Ret (r, count_call mname svc, w'))"

section \<open>Registration\<close>

text \<open>The conditions of the loop, in one place.\<close>

definition suitable :: "('a, 'w) reflect_method \<Rightarrow> bool" where
  "suitable m \<longleftrightarrow> length (rm_In m) = 3 \<and> rm_Out m = [error_type]
     \<and> isExportedOrBuiltinType (rm_In m ! 1) \<and> isExportedOrBuiltinType (rm_In m ! 2)"

definition method_entry :: "('a, 'w) reflect_method \<Rightarrow> ('a, 'w) method_type" where
  "method_entry m =
     \<lparr>mt_method = m, ArgType = rm_In m ! 1, ReplyType = rm_In m ! 2, numCalls = 0\<rparr>"

lemma register_method_eq:
  "register_method m tbl = (if suitable m then tbl(rm_Name m \<mapsto> method_entry m) else tbl)"
  by (cases "rm_Out m") (auto simp: register_method_def suitable_def method_entry_def Let_def)

lemma fold_register_method_None:
  "rm_Name ` set ms \<subseteq> - {n} \<Longrightarrow> fold register_method ms tbl n = tbl n"
  by (induction ms arbitrary: tbl) (auto simp: register_method_eq)

lemma fold_register_method_Some:
  "fold register_method ms tbl n = Some mt \<Longrightarrow>
     tbl n = Some mt \<or> (\<exists>m \<in> set ms. suitable m \<and> rm_Name m = n \<and> mt = method_entry m)"
  by (induction ms arbitrary: tbl) (fastforce simp: register_method_eq split: if_splits)+

lemma registerMethods_Some:
  "registerMethods ms n = Some mt \<Longrightarrow> \<exists>m \<in> set ms. suitable m \<and> rm_Name m = n \<and> mt = method_entry m"
  using fold_register_method_Some [of ms "\<lambda>_. None" n mt] by (simp add: registerMethods_def)

lemma fold_register_method:
  assumes "distinct (map rm_Name ms)" and "m \<in> set ms"
  shows "fold register_method ms tbl (rm_Name m) = (if suitable m then Some (method_entry m) else tbl (rm_Name m))"
  using assms
proof (induction ms arbitrary: tbl)
  case (Cons a ms)
  show ?case
  proof (cases "m = a")
    case True
    with Cons.prems(1) show ?thesis
      by (subst fold.simps, simp only: o_apply, subst fold_register_method_None)
        (auto simp: register_method_eq)
  next
    case False
    with Cons.prems(2) have "rm_Name m \<in> rm_Name ` set ms" by simp
    with Cons.prems(1) have "rm_Name m \<noteq> rm_Name a" by auto
    with False Cons show ?thesis by (simp add: register_method_eq)
  qed
qed simp

text \<open>Exactly the suitable methods are callable: those with one argument and one reply besides
  the receiver, one result of type \<open>error\<close>, and both types exported or without a package; each
  is registered under its name with its own types and a call count of zero, and no other name is
  registered.\<close>

theorem registerMethods_exactly_suitable:
  assumes "distinct (map rm_Name ms)"
  shows "registerMethods ms n = Some mt \<longleftrightarrow>
           (\<exists>m \<in> set ms. rm_Name m = n \<and> suitable m \<and> mt = method_entry m)"
proof (cases "n \<in> rm_Name ` set ms")
  case True
  then obtain m where m: "m \<in> set ms" "rm_Name m = n" by blast
  have uniq: "m' = m" if "m' \<in> set ms" "rm_Name m' = n" for m'
    using assms m that by (auto simp: distinct_map dest: inj_onD)
  have "registerMethods ms n = (if suitable m then Some (method_entry m) else None)"
    using fold_register_method [OF assms m(1), of "\<lambda>_. None"] m(2) by (simp add: registerMethods_def)
  moreover have "(\<exists>m' \<in> set ms. rm_Name m' = n \<and> suitable m' \<and> mt = method_entry m')
      \<longleftrightarrow> suitable m \<and> mt = method_entry m"
    using m uniq by blast
  ultimately show ?thesis by auto
next
  case False
  then have "registerMethods ms n = None"
    using fold_register_method_None [of ms n "\<lambda>_. None"] by (auto simp: registerMethods_def)
  with False show ?thesis by auto
qed

text \<open>A demo service in the manner of the repository's tests: \<open>Sum\<close> is callable, \<open>sum\<close> of the
  source is not in the method set, \<open>Bad\<close> takes its reply by value.\<close>

definition demo_args :: gotype where "demo_args = Named ''Args'' ''main'' Struct"

definition demo_method :: "string \<Rightarrow> gotype \<Rightarrow> (nat, nat) reflect_method" where
  "demo_method name reply =
     \<lparr>rm_Name = name, rm_In = [Named ''Foo'' ''main'' (Basic ''int''), demo_args, reply],
      rm_Out = [error_type],
      rm_Func = (\<lambda>argv replyv w. Ret ((None, Ref (Data (Basic ''int'') (Suc w))), Suc w))\<rparr>"

definition demo_methods :: "(nat, nat) reflect_method list" where
  "demo_methods =
     [demo_method ''Bad'' (Basic ''int''), demo_method ''Sum'' (Ptr (Basic ''int'')),
      demo_method ''Wrong'' (Named ''reply'' ''main'' Struct)]"

theorem registerMethods_exactly_suitable_witness:
  "registerMethods demo_methods ''Sum''
     = Some (method_entry (demo_method ''Sum'' (Ptr (Basic ''int''))))
   \<and> registerMethods demo_methods ''Wrong'' = None"
proof -
  have d: "distinct (map rm_Name demo_methods)" by (simp add: demo_methods_def demo_method_def)
  have "registerMethods demo_methods ''Wrong'' \<noteq> Some mt" for mt
    using registerMethods_exactly_suitable [OF d, of "''Wrong''" mt]
    by (auto simp: demo_methods_def demo_method_def suitable_def isExportedOrBuiltinType_def
        IsExported_def)
  moreover have "registerMethods demo_methods ''Sum''
      = Some (method_entry (demo_method ''Sum'' (Ptr (Basic ''int''))))"
    using registerMethods_exactly_suitable [OF d]
    by (auto simp: demo_methods_def demo_method_def suitable_def isExportedOrBuiltinType_def
        IsExported_def demo_args_def)
  ultimately show ?thesis by (cases "registerMethods demo_methods ''Wrong''") auto
qed

section \<open>Calls\<close>

lemma kind_Ptr_underlying: "kind t = KPtr \<longleftrightarrow> (\<exists>e. underlying t = Ptr e)"
  by (induction t) auto

lemma Elem_Ptr_underlying: "underlying t = Ptr e \<Longrightarrow> Elem t = Ret e"
  by (induction t) auto

lemma underlying_idem [simp]: "underlying (underlying t) = underlying t"
  by (induction t) auto

lemma newArgv_ok:
  "\<exists>v. newArgv m = Ret v \<and> assignable (value_type v) (ArgType m)"
  using kind_Ptr_underlying [of "ArgType m"] Elem_Ptr_underlying [of "ArgType m"]
  by (cases "kind (ArgType m) = KPtr") (auto simp: newArgv_def assignable_def)

lemma newReplyv_type:
  assumes "newReplyv m = Ret v"
  shows "\<exists>t. Elem (ReplyType m) = Ret t \<and> value_type v = Ptr t"
  using assms by (cases "Elem (ReplyType m)") (auto simp: newReplyv_def split: gokind.splits)

lemma newReplyv_assignable:
  "(\<exists>v. newReplyv m = Ret v \<and> assignable (value_type v) (ReplyType m)) \<longleftrightarrow> kind (ReplyType m) = KPtr"
    (is "?l \<longleftrightarrow> _")
proof
  assume ?l
  then obtain t where "assignable (Ptr t) (ReplyType m)" using newReplyv_type by metis
  then have "underlying (ReplyType m) = Ptr t"
    unfolding assignable_def by (metis underlying.simps(3))
  then show "kind (ReplyType m) = KPtr" by (simp add: kind_Ptr_underlying)
next
  assume "kind (ReplyType m) = KPtr"
  then obtain e where e: "underlying (ReplyType m) = Ptr e" by (auto simp: kind_Ptr_underlying)
  from Elem_Ptr_underlying [OF this] obtain v where "newReplyv m = Ret v"
    by (simp add: newReplyv_def)
  with newReplyv_type [OF this] e Elem_Ptr_underlying [OF e] show ?l
    by (auto simp: assignable_def)
qed

text \<open>One call as the server makes it: new argument and reply values, the argument filled in by the
  decoder (\<open>fill\<close>), then \<open>call\<close>.\<close>

definition fresh_call ::
    "string \<Rightarrow> ('a, 'w) method_type \<Rightarrow> ('a gvalue \<Rightarrow> 'a gvalue) \<Rightarrow> ('a, 'w) service \<Rightarrow> 'w
       \<Rightarrow> ((goerror option \<times> 'a gvalue) \<times> ('a, 'w) service \<times> 'w) outcome" where
  "fresh_call mname m fill svc w =
     bind_outcome (newArgv m) (\<lambda>argv.
       bind_outcome (newReplyv m) (\<lambda>replyv. service_call mname m (fill argv) replyv svc w))"

text \<open>The reply type of a registered method must be a pointer, but nothing checks it: a call of
  a method whose reply type is a pointer runs the method exactly once on values of the right types
  and counts the call, and a call of any other registered method panics before the method runs.\<close>

theorem non_pointer_reply_panics:
  assumes "\<And>v. value_type (fill v) = value_type v"
  shows "if kind (ReplyType m) = KPtr
         then \<exists>argv replyv. newArgv m = Ret argv \<and> newReplyv m = Ret replyv
                \<and> assignable (value_type argv) (ArgType m)
                \<and> assignable (value_type replyv) (ReplyType m)
                \<and> fresh_call mname m fill svc w
                    = bind_outcome (rm_Func (mt_method m) (fill argv) replyv w)
                        (\<lambda>(r, w'). Ret (r, count_call mname svc, w'))
         else \<exists>msg. fresh_call mname m fill svc w = Panic msg"
proof (cases "kind (ReplyType m) = KPtr")
  case True
  obtain argv :: "'a gvalue" where a: "newArgv m = Ret argv" "assignable (value_type argv) (ArgType m)"
    using newArgv_ok by blast
  obtain replyv :: "'a gvalue"
    where r: "newReplyv m = Ret replyv" "assignable (value_type replyv) (ReplyType m)"
    using True newReplyv_assignable [of m] by blast
  have "fresh_call mname m fill svc w
      = bind_outcome (rm_Func (mt_method m) (fill argv) replyv w)
          (\<lambda>(r, w'). Ret (r, count_call mname svc, w'))"
    using a r assms by (simp add: fresh_call_def service_call_def reflect_Call_def)
  with True a r show ?thesis by simp
next
  case False
  obtain argv :: "'a gvalue" where a: "newArgv m = Ret argv" using newArgv_ok by blast
  have "\<exists>msg. fresh_call mname m fill svc w = Panic msg"
  proof (cases "newReplyv m :: 'a gvalue outcome")
    case (Ret v)
    then have "\<not> assignable (value_type v) (ReplyType m)"
      using newReplyv_assignable [of m] False by blast
    then obtain msg where "reflect_Call m (fill argv) v w = Panic msg" by (simp add: reflect_Call_def)
    then show ?thesis by (simp add: fresh_call_def service_call_def a Ret)
  qed (simp add: fresh_call_def a)
  with False show ?thesis by simp
qed

theorem non_pointer_reply_panics_witness:
  "suitable (demo_method ''Bad'' (Basic ''int'')) \<and>
   (\<exists>msg. fresh_call ''Bad'' (method_entry (demo_method ''Bad'' (Basic ''int''))) id
      \<lparr>svc_name = ''Foo'', svc_methods = registerMethods demo_methods\<rparr> 0 = Panic msg)"
proof -
  have "suitable (demo_method ''Bad'' (Basic ''int''))"
    by (simp add: suitable_def demo_method_def isExportedOrBuiltinType_def IsExported_def demo_args_def)
  moreover have "\<And>v :: nat gvalue. value_type (id v) = value_type v" by simp
  from non_pointer_reply_panics [where fill = id, OF this,
      of "method_entry (demo_method ''Bad'' (Basic ''int''))" "''Bad''"
        "\<lparr>svc_name = ''Foo'', svc_methods = registerMethods demo_methods\<rparr>" 0]
  have "\<exists>msg. fresh_call ''Bad'' (method_entry (demo_method ''Bad'' (Basic ''int''))) id
      \<lparr>svc_name = ''Foo'', svc_methods = registerMethods demo_methods\<rparr> 0 = Panic msg"
    by (simp add: method_entry_def demo_method_def)
  ultimately show ?thesis by blast
qed

end
