(* ===== verification/Server.thy ===== *)
theory Server
  imports Codec Service GoStrings
begin

text \<open>
  The RPC server of \<^verbatim>\<open>geerpc/server.go\<close> up to the point where a request is handed to its
  goroutine: registration, the search for a service method, reading a request, the negotiation of
  the options, and the HTTP entry point.  The goroutines of a connection are the theory ServeLoop.

  \<open>g\<close> says what gob makes of a message body that is decoded as a header, and \<open>dec t m\<close> what it
  makes of the message \<open>m\<close> when it is decoded into a variable of type \<open>t\<close>.
\<close>

section \<open>Services\<close>

record ('a, 'w) server =
  serviceMap :: "string \<rightharpoonup> ('a, 'w) service"

definition NewServer :: "('a, 'w) server" where
  "NewServer = \<lparr>serviceMap = (\<lambda>_. None)\<rparr>"

definition Register ::
    "('a, 'w) receiver \<Rightarrow> ('a, 'w) server \<Rightarrow> (goerror option \<times> ('a, 'w) server) outcome" where
  "Register rcvr srv =
     bind_outcome (newService rcvr) (\<lambda>s.
       case serviceMap srv (svc_name s) of
         Some _ \<Rightarrow> Ret (Some (''rpc: service already defined: '' @ svc_name s), srv)
       | None \<Rightarrow> Ret (None, srv\<lparr>serviceMap := (serviceMap srv)(svc_name s \<mapsto> s)\<rparr>))"

text \<open>The two names in front of and behind the last dot.\<close>

definition split_service_method :: "string \<Rightarrow> (string \<times> string) option" where
  "split_service_method sm =
     (let dot = last_index (CHR ''.'') sm in
      if dot < 0 then None else Some (take (nat dot) sm, drop (nat dot + 1) sm))"

definition findService ::
    "string \<Rightarrow> ('a, 'w) server \<Rightarrow> goerror + (('a, 'w) service \<times> ('a, 'w) method_type)" where
  "findService sm srv =
     (case split_service_method sm of
        None \<Rightarrow> Inl (''rpc server: service/method request ill-formed: '' @ sm)
      | Some (serviceName, methodName) \<Rightarrow>
          (case serviceMap srv serviceName of
             None \<Rightarrow> Inl (''rpc server: can't find service '' @ serviceName)
           | Some svc \<Rightarrow>
               (case svc_methods svc methodName of
                  None \<Rightarrow> Inl (''rpc server: can't find method '' @ methodName)
                | Some mtype \<Rightarrow> Inr (svc, mtype))))"

section \<open>Reading a request\<close>

text \<open>A request refers to its service by name: services are shared by pointer and never replaced.\<close>

record ('a, 'w) request =
  req_h :: header
  req_argv :: "'a gvalue"
  req_replyv :: "'a gvalue"
  req_mtype :: "('a, 'w) method_type"
  req_svc :: string

text \<open>The three kinds of results of \<open>readRequest\<close>: no request (\<open>req == nil\<close>), a request
  that must be answered with an error, a request that can be called.\<close>

datatype ('a, 'w) read_result =
  NoRequest goerror | BadRequest header goerror | Request "('a, 'w) request"

definition readRequestHeader ::
    "('b \<Rightarrow> goerror + header) \<Rightarrow> 'b gob_codec \<Rightarrow> (goerror + header) \<times> 'b gob_codec" where
  "readRequestHeader g cc = ReadHeader g cc"

text \<open>The body is decoded through a pointer to the argument: into the variable that \<open>argv\<close> points
  to when the argument is a pointer, and into \<open>argv\<close> itself otherwise.\<close>

fun argv_target :: "'a gvalue \<Rightarrow> gotype \<Rightarrow> gotype" where
  "argv_target (Ref v) t = value_type v"
| "argv_target v t = t"

fun argv_store :: "'a gvalue \<Rightarrow> 'a gvalue \<Rightarrow> 'a gvalue" where
  "argv_store (Ref v) x = Ref x"
| "argv_store v x = x"

definition readRequest ::
    "('b \<Rightarrow> goerror + header) \<Rightarrow> (gotype \<Rightarrow> 'b message \<Rightarrow> goerror + 'a gvalue)
       \<Rightarrow> ('a, 'w) server \<Rightarrow> 'b gob_codec \<Rightarrow> (('a, 'w) read_result \<times> 'b gob_codec) outcome" where
  "readRequest g dec srv cc =
     (case readRequestHeader g cc of
        (Inl err, cc1) \<Rightarrow> Ret (NoRequest err, cc1)
      | (Inr h, cc1) \<Rightarrow>
          (case findService (ServiceMethod h) srv of
             Inl err \<Rightarrow> Ret (BadRequest h err, cc1)
           | Inr (svc, mtype) \<Rightarrow>
               bind_outcome (newArgv mtype) (\<lambda>argv.
                 bind_outcome (newReplyv mtype) (\<lambda>replyv.
                   case ReadBody (dec (argv_target argv (ArgType mtype))) cc1 of
                     (Inl err, cc2) \<Rightarrow> Ret (BadRequest h err, cc2)
                   | (Inr x, cc2) \<Rightarrow>
                       Ret (Request \<lparr>req_h = h, req_argv = argv_store argv x, req_replyv = replyv,
                                     req_mtype = mtype, req_svc = svc_name svc\<rparr>, cc2)))))"

section \<open>Connections\<close>

definition MagicNumber :: int where "MagicNumber = 0x3bef5c"
definition connected :: string where "connected = ''200 Connected to Gee RPC''"
definition defaultRPCPath :: string where "defaultRPCPath = ''/_geerpc_''"

text \<open>Durations are nanoseconds.\<close>

record option_rec =
  opt_MagicNumber :: int
  opt_CodecType :: string
  ConnectTimeout :: int
  HandleTimeout :: int

definition DefaultOption :: option_rec where
  "DefaultOption =
     \<lparr>opt_MagicNumber = MagicNumber, opt_CodecType = GobType,
      ConnectTimeout = 10 * 10 ^ 9, HandleTimeout = 0\<rparr>"

text \<open>
  \<open>ServeConn\<close> up to \<open>serveCodec\<close>.  \<open>opt\<close> is what the JSON decoder makes of the option
  message.  The decoder reads from the connection in blocks and is thrown away with its buffer:
  \<open>ahead\<close> is the number of gob messages that arrived in the same block as the options, which the
  codec made afterwards never sees.  \<open>None\<close> is the connection closed without a word.
\<close>

definition ServeConn ::
    "goerror + option_rec \<Rightarrow> nat \<Rightarrow> 'b message list \<Rightarrow> bool \<Rightarrow> ('b gob_codec \<times> option_rec) option" where
  "ServeConn opt ahead input up =
     (case opt of
        Inl err \<Rightarrow> None
      | Inr opt \<Rightarrow>
          (if opt_MagicNumber opt \<noteq> MagicNumber then None
           else (case NewCodecFuncMap (opt_CodecType opt) of
                   None \<Rightarrow> None
                 | Some f \<Rightarrow> Some (f (drop ahead input) up, opt))))"

text \<open>The HTTP entry point: what is written, and whether the connection is then served.\<close>

definition Server_ServeHTTP :: "string \<Rightarrow> goerror option \<Rightarrow> string \<times> bool" where
  "Server_ServeHTTP method hijack_err =
     (if method \<noteq> ''CONNECT'' then (''405 must CONNECT'' @ [CHR 0x0A], False)
      else (case hijack_err of
              Some err \<Rightarrow> ('''', False)
            | None \<Rightarrow> (''HTTP/1.0 '' @ connected @ [CHR 0x0A, CHR 0x0A], True)))"

section \<open>Properties\<close>

lemma split_service_method_append:
  "CHR ''.'' \<notin> set m \<Longrightarrow> split_service_method (s @ CHR ''.'' # m) = Some (s, m)"
  by (simp add: split_service_method_def last_index_append Let_def nat_add_distrib)

lemma Register_Ret:
  "Register rcvr srv = Ret (err, srv') \<longleftrightarrow>
     IsExported (rcvr_name rcvr) \<and>
     (if serviceMap srv (rcvr_name rcvr) = None
      then err = None \<and> srv' = srv\<lparr>serviceMap := (serviceMap srv)(rcvr_name rcvr \<mapsto>
             \<lparr>svc_name = rcvr_name rcvr, svc_methods = registerMethods (rcvr_methods rcvr)\<rparr>)\<rparr>
      else err = Some (''rpc: service already defined: '' @ rcvr_name rcvr) \<and> srv' = srv)"
  by (auto simp: Register_def newService_def split: option.splits)

lemma findService_dot:
  assumes "CHR ''.'' \<notin> set m"
  shows "findService (s @ ''.'' @ m) srv =
     (case serviceMap srv s of
        None \<Rightarrow> Inl (''rpc server: can't find service '' @ s)
      | Some svc \<Rightarrow>
          (case svc_methods svc m of
             None \<Rightarrow> Inl (''rpc server: can't find method '' @ m)
           | Some mtype \<Rightarrow> Inr (svc, mtype)))"
  using split_service_method_append [OF assms] by (simp add: findService_def)

lemma findService_no_dot:
  "CHR ''.'' \<notin> set sm \<Longrightarrow>
     findService sm srv = Inl (''rpc server: service/method request ill-formed: '' @ sm)"
  by (simp add: findService_def split_service_method_def last_index_absent Let_def)

text \<open>Looking up what was registered.  After a successful \<open>Register\<close> of a receiver, the
  request \<open>Service.Method\<close> finds exactly the methods that registration accepted, every other
  service is found as before, a second registration of the same name is refused and changes
  nothing; and a request without a dot finds nothing.\<close>

theorem Register_findService:
  assumes "Register rcvr srv = Ret (None, srv')"
  shows "(\<forall>s m. CHR ''.'' \<notin> set m \<longrightarrow>
            findService (s @ ''.'' @ m) srv' =
              (if s = rcvr_name rcvr
               then (case registerMethods (rcvr_methods rcvr) m of
                       None \<Rightarrow> Inl (''rpc server: can't find method '' @ m)
                     | Some mt \<Rightarrow> Inr (\<lparr>svc_name = rcvr_name rcvr,
                                       svc_methods = registerMethods (rcvr_methods rcvr)\<rparr>, mt))
               else findService (s @ ''.'' @ m) srv))
       \<and> (\<forall>rcvr2. rcvr_name rcvr2 = rcvr_name rcvr \<longrightarrow>
            Register rcvr2 srv'
              = Ret (Some (''rpc: service already defined: '' @ rcvr_name rcvr), srv'))
       \<and> (\<forall>sm. CHR ''.'' \<notin> set sm \<longrightarrow>
            findService sm srv' = Inl (''rpc server: service/method request ill-formed: '' @ sm))"
proof -
  let ?s = "\<lparr>svc_name = rcvr_name rcvr, svc_methods = registerMethods (rcvr_methods rcvr)\<rparr>"
  have srv': "srv' = srv\<lparr>serviceMap := (serviceMap srv)(rcvr_name rcvr \<mapsto> ?s)\<rparr>"
    and exp: "IsExported (rcvr_name rcvr)"
    using assms by (simp_all add: Register_Ret split: if_splits)
  have "Register rcvr2 srv' = Ret (Some (''rpc: service already defined: '' @ rcvr_name rcvr), srv')"
    if "rcvr_name rcvr2 = rcvr_name rcvr" for rcvr2 :: "('a, 'b) receiver"
    using that exp by (simp add: Register_Ret srv')
  then show ?thesis by (simp add: findService_dot findService_no_dot srv' del: append_Cons)
qed

definition demo_receiver :: "(nat, nat) receiver" where
  "demo_receiver = \<lparr>rcvr_name = ''Foo'', rcvr_methods = demo_methods\<rparr>"

definition demo_server :: "(nat, nat) server" where
  "demo_server = \<lparr>serviceMap = [''Foo'' \<mapsto>
     \<lparr>svc_name = ''Foo'', svc_methods = registerMethods demo_methods\<rparr>]\<rparr>"

lemma demo_registered: "Register demo_receiver NewServer = Ret (None, demo_server)"
  by (simp add: Register_Ret demo_receiver_def NewServer_def demo_server_def IsExported_def)

theorem Register_findService_witness:
  "findService ''Foo.Nop'' demo_server = Inl ''rpc server: can't find method Nop''
   \<and> findService ''Foo'' demo_server = Inl ''rpc server: service/method request ill-formed: Foo''"
proof -
  have "registerMethods demo_methods ''Nop'' = None"
    using fold_register_method_None [of demo_methods "''Nop''" "\<lambda>_. None"]
    by (simp add: registerMethods_def demo_methods_def demo_method_def)
  then have "findService ''Foo.Nop'' demo_server = Inl ''rpc server: can't find method Nop''"
    using Register_findService [OF demo_registered, THEN conjunct1, rule_format, of "''Nop''" "''Foo''"]
    by (simp add: demo_receiver_def)
  moreover have "findService ''Foo'' demo_server
      = Inl ''rpc server: service/method request ill-formed: Foo''"
    using Register_findService [OF demo_registered, THEN conjunct2, THEN conjunct2, rule_format, of "''Foo''"]
    by simp
  ultimately show ?thesis by blast
qed

text \<open>What a request takes off the connection.\<close>

lemma readRequest_bad_method:
  assumes "\<not> conn_closed cc" and "conn_in cc = HeaderMsg h # ms"
    and "findService (ServiceMethod h) srv = Inl err"
  shows "readRequest g dec srv cc = Ret (BadRequest h err, cc\<lparr>conn_in := ms\<rparr>)"
  using assms by (simp add: readRequest_def readRequestHeader_def ReadHeader_HeaderMsg)

lemma readRequest_junk:
  assumes "\<not> conn_closed cc" and "conn_in cc = BodyMsg b # ms" and "g b = Inl err"
  shows "readRequest g dec srv cc = Ret (NoRequest err, cc\<lparr>conn_in := ms\<rparr>)"
  using assms by (simp add: readRequest_def readRequestHeader_def ReadHeader_def gob_decode_def)

lemma readRequest_closed:
  "conn_closed cc \<Longrightarrow> readRequest g dec srv cc = Ret (NoRequest err_closed, cc)"
  by (simp add: readRequest_def readRequestHeader_def ReadHeader_def gob_decode_def)

lemma readRequest_pair:
  fixes srv :: "('a, 'w) server"
  assumes "\<not> conn_closed cc" and "conn_in cc = HeaderMsg h # m # ms"
    and "findService (ServiceMethod h) srv = Inr (svc, mt)" and "kind (ReplyType mt) = KPtr"
  shows "\<exists>argv replyv :: 'a gvalue. newArgv mt = Ret argv \<and> newReplyv mt = Ret replyv \<and>
           readRequest g dec srv cc =
             Ret (case dec (argv_target argv (ArgType mt)) m of
                    Inl err \<Rightarrow> BadRequest h err
                  | Inr x \<Rightarrow> Request \<lparr>req_h = h, req_argv = argv_store argv x, req_replyv = replyv,
                                        req_mtype = mt, req_svc = svc_name svc\<rparr>,
                  cc\<lparr>conn_in := ms\<rparr>)"
proof -
  obtain argv :: "'a gvalue" where a: "newArgv mt = Ret argv" using newArgv_ok by blast
  obtain replyv :: "'a gvalue" where r: "newReplyv mt = Ret replyv"
    using assms(4) newReplyv_assignable [of mt] by blast
  have "readRequest g dec srv cc =
      Ret (case dec (argv_target argv (ArgType mt)) m of
             Inl err \<Rightarrow> BadRequest h err
           | Inr x \<Rightarrow> Request \<lparr>req_h = h, req_argv = argv_store argv x, req_replyv = replyv,
                                 req_mtype = mt, req_svc = svc_name svc\<rparr>,
           cc\<lparr>conn_in := ms\<rparr>)"
    using assms a r
    by (simp add: readRequest_def readRequestHeader_def ReadHeader_HeaderMsg ReadBody_def
        gob_decode_def split: sum.splits)
  with a r show ?thesis by blast
qed

text \<open>A request that names a registered method with a pointer reply is read together with its
  body: it takes exactly its two messages off the connection, whether or not the body fits the
  argument type; a body that fits gives a call of that method on the decoded argument and a fresh
  reply, a body that does not fit gives an error for this request only.\<close>

theorem readRequest_well_formed:
  fixes srv :: "('a, 'w) server"
  assumes "\<not> conn_closed cc" and "conn_in cc = HeaderMsg h # m # ms"
    and "findService (ServiceMethod h) srv = Inr (svc, mt)" and "kind (ReplyType mt) = KPtr"
  shows "\<exists>argv replyv :: 'a gvalue. newArgv mt = Ret argv \<and> newReplyv mt = Ret replyv \<and>
           readRequest g dec srv cc =
             Ret (case dec (argv_target argv (ArgType mt)) m of
                    Inl err \<Rightarrow> BadRequest h err
                  | Inr x \<Rightarrow> Request \<lparr>req_h = h, req_argv = argv_store argv x, req_replyv = replyv,
                                        req_mtype = mt, req_svc = svc_name svc\<rparr>,
                  cc\<lparr>conn_in := ms\<rparr>)"
  by (rule readRequest_pair [OF assms])

text \<open>Demo messages: a body is a string, and never a header.\<close>

definition demo_g :: "string \<Rightarrow> goerror + header" where
  "demo_g b = Inl ''gob: type mismatch''"

fun demo_dec :: "gotype \<Rightarrow> string message \<Rightarrow> goerror + nat gvalue" where
  "demo_dec t (HeaderMsg h) = Inl ''gob: type mismatch''"
| "demo_dec t (BodyMsg b) = Inr (Data t (length b))"

lemma demo_findService:
  "findService ''Foo.Sum'' demo_server
     = Inr (\<lparr>svc_name = ''Foo'', svc_methods = registerMethods demo_methods\<rparr>,
            method_entry (demo_method ''Sum'' (Ptr (Basic ''int''))))"
proof -
  have "registerMethods demo_methods ''Sum''
      = Some (method_entry (demo_method ''Sum'' (Ptr (Basic ''int''))))"
    by (simp add: registerMethods_def demo_methods_def register_method_eq suitable_def
        demo_method_def isExportedOrBuiltinType_def IsExported_def demo_args_def)
  then show ?thesis
    using findService_dot [of "''Sum''" "''Foo''" demo_server] by (simp add: demo_server_def)
qed

theorem readRequest_well_formed_witness:
  "\<exists>r. readRequest demo_g demo_dec demo_server
         (NewGobCodec [HeaderMsg \<lparr>ServiceMethod = ''Foo.Sum'', h_Seq = 7, h_Error = []\<rparr>, BodyMsg ''xyz''] True)
       = Ret (Request r, NewGobCodec [] True)
     \<and> req_argv r = Data demo_args 3 \<and> h_Seq (req_h r) = 7"
proof -
  let ?h = "\<lparr>ServiceMethod = ''Foo.Sum'', h_Seq = 7, h_Error = []\<rparr>"
  let ?cc = "NewGobCodec [HeaderMsg ?h, BodyMsg ''xyz''] True"
  let ?mt = "method_entry (demo_method ''Sum'' (Ptr (Basic ''int'')))"
  have f: "findService (ServiceMethod ?h) demo_server
      = Inr (\<lparr>svc_name = ''Foo'', svc_methods = registerMethods demo_methods\<rparr>, ?mt)"
    by (simp add: demo_findService)
  have k: "kind (ReplyType ?mt) = KPtr" by (simp add: method_entry_def demo_method_def)
  have c: "\<not> conn_closed ?cc" "conn_in ?cc = HeaderMsg ?h # BodyMsg ''xyz'' # []"
    by (simp_all add: NewGobCodec_def)
  from readRequest_well_formed [OF c f k, of demo_g demo_dec] show ?thesis
    by (auto simp: NewGobCodec_def newArgv_def method_entry_def demo_method_def demo_args_def)
qed

end
