(* ===== verification/ServeLoop.thy ===== *)
theory ServeLoop
  imports Server
begin

text \<open>
  The goroutines of one connection of \<^verbatim>\<open>geerpc/server.go\<close>, as a transition system: the reader
  (\<open>serveCodec\<close>), and for every request its handler (\<open>handleRequest\<close>) and the worker that the
  handler starts, which meet on the unbuffered channels \<open>called\<close> and \<open>sent\<close>.  A response is
  written under the mutex \<open>sending\<close> and is therefore one step.  Every request that is read gets the
  next number; \<open>cs_sent\<close> records which request each response was written for.
\<close>

section \<open>State and steps\<close>

datatype 'a rpc_body = InvalidRequest | ReplyValue "'a gvalue"

text \<open>What the connection is run with: how bodies are decoded and encoded, the handle timeout of the
  options (0 for none), and the text of a duration.\<close>

record ('a, 'b) rpc_env =
  env_g :: "'b \<Rightarrow> goerror + header"
  env_dec :: "gotype \<Rightarrow> 'b message \<Rightarrow> goerror + 'a gvalue"
  env_enc :: "'a rpc_body \<Rightarrow> goerror + 'b"
  env_timeout :: int
  env_dur :: "int \<Rightarrow> string"

text \<open>The handler is at its \<open>select\<close>, has chosen the timeout, waits for \<open>sent\<close>, or is done; the
  worker runs the method, offers on \<open>called\<close>, is about to respond, offers on \<open>sent\<close>, or has
  ended.\<close>

datatype handler_pc = HSelect | HTimedOut | HWaitSent | HDone
datatype ('a, 'w) worker_pc =
  WCall "('a, 'w) request" | WSendCalled "goerror option" "'a gvalue" | WRespond "goerror option" "'a gvalue"
| WSendSent | WExit

record ('a, 'w) handler =
  hd_h :: header
  hd_pc :: handler_pc
  hd_worker :: "('a, 'w) worker_pc"

datatype reader_pc = Reading | Replying nat goerror | Draining | ConnClosed | Crash

record ('a, 'b, 'w) conn_state =
  cs_codec :: "'b gob_codec"
  cs_server :: "('a, 'w) server"
  cs_world :: 'w
  cs_reader :: reader_pc
  cs_handlers :: "nat \<rightharpoonup> ('a, 'w) handler"
  cs_next :: nat
  cs_sent :: "(nat \<times> header \<times> 'a rpc_body) list"

definition conn_init :: "('a, 'w) server \<Rightarrow> 'b gob_codec \<Rightarrow> 'w \<Rightarrow> ('a, 'b, 'w) conn_state" where
  "conn_init srv cc w =
     \<lparr>cs_codec = cc, cs_server = srv, cs_world = w, cs_reader = Reading,
      cs_handlers = (\<lambda>_. None), cs_next = 0, cs_sent = []\<rparr>"

text \<open>A write error is logged and otherwise ignored.\<close>

definition sendResponse ::
    "('a, 'b) rpc_env \<Rightarrow> nat \<Rightarrow> header \<Rightarrow> 'a rpc_body \<Rightarrow> ('a, 'b, 'w) conn_state
       \<Rightarrow> ('a, 'b, 'w) conn_state" where
  "sendResponse env i h body s =
     s\<lparr>cs_codec := snd (gob_Write (env_enc env) h body (cs_codec s)),
       cs_sent := cs_sent s @ [(i, h, body)]\<rparr>"

definition spawn ::
    "header \<Rightarrow> ('a, 'w) request option \<Rightarrow> ('a, 'b, 'w) conn_state \<Rightarrow> ('a, 'b, 'w) conn_state" where
  "spawn h r s =
     s\<lparr>cs_handlers := (cs_handlers s)(cs_next s \<mapsto>
         (case r of
            None \<Rightarrow> \<lparr>hd_h = h, hd_pc = HDone, hd_worker = WExit\<rparr>
          | Some q \<Rightarrow> \<lparr>hd_h = h, hd_pc = HSelect, hd_worker = WCall q\<rparr>)),
       cs_next := Suc (cs_next s)\<rparr>"

text \<open>One turn of the loop of \<open>serveCodec\<close> up to the point where it replies or reads again.\<close>

definition reader_turn ::
    "('a, 'b) rpc_env \<Rightarrow> ('a, 'b, 'w) conn_state \<Rightarrow> ('a, 'b, 'w) conn_state" where
  "reader_turn env s =
     (case readRequest (env_g env) (env_dec env) (cs_server s) (cs_codec s) of
        Panic msg \<Rightarrow> s\<lparr>cs_reader := Crash\<rparr>
      | Ret (NoRequest err, cc) \<Rightarrow> s\<lparr>cs_codec := cc, cs_reader := Draining\<rparr>
      | Ret (BadRequest h err, cc) \<Rightarrow>
          spawn h None (s\<lparr>cs_codec := cc, cs_reader := Replying (cs_next s) err\<rparr>)
      | Ret (Request r, cc) \<Rightarrow> spawn (req_h r) (Some r) (s\<lparr>cs_codec := cc\<rparr>))"

definition set_handler ::
    "nat \<Rightarrow> ('a, 'w) handler \<Rightarrow> ('a, 'b, 'w) conn_state \<Rightarrow> ('a, 'b, 'w) conn_state" where
  "set_handler i hr s = s\<lparr>cs_handlers := (cs_handlers s)(i \<mapsto> hr)\<rparr>"

text \<open>The worker's call of the method.  A panic in it, like a panic of the reader, ends the process.\<close>

definition worker_call ::
    "nat \<Rightarrow> ('a, 'w) handler \<Rightarrow> ('a, 'w) request \<Rightarrow> ('a, 'b, 'w) conn_state \<Rightarrow> ('a, 'b, 'w) conn_state" where
  "worker_call i hr r s =
     (case serviceMap (cs_server s) (req_svc r) of
        None \<Rightarrow> s\<lparr>cs_reader := Crash\<rparr>
      | Some svc \<Rightarrow>
          (case service_call (rm_Name (mt_method (req_mtype r))) (req_mtype r) (req_argv r)
                  (req_replyv r) svc (cs_world s) of
             Panic msg \<Rightarrow> s\<lparr>cs_reader := Crash\<rparr>
           | Ret ((err, reply), svc', w) \<Rightarrow>
               set_handler i (hr\<lparr>hd_worker := WSendCalled err reply\<rparr>)
                 (s\<lparr>cs_server := (cs_server s)
                      \<lparr>serviceMap := (serviceMap (cs_server s))(req_svc r \<mapsto> svc')\<rparr>,
                    cs_world := w\<rparr>)))"

definition worker_respond ::
    "('a, 'b) rpc_env \<Rightarrow> nat \<Rightarrow> ('a, 'w) handler \<Rightarrow> goerror option \<Rightarrow> 'a gvalue
       \<Rightarrow> ('a, 'b, 'w) conn_state \<Rightarrow> ('a, 'b, 'w) conn_state" where
  "worker_respond env i hr err reply s =
     set_handler i (hr\<lparr>hd_worker := WSendSent\<rparr>)
       (case err of
          Some e \<Rightarrow> sendResponse env i ((hd_h hr)\<lparr>h_Error := e\<rparr>) InvalidRequest s
        | None \<Rightarrow> sendResponse env i (hd_h hr) (ReplyValue reply) s)"

definition timeout_error :: "('a, 'b) rpc_env \<Rightarrow> goerror" where
  "timeout_error env =
     ''rpc server: request handle timeout: expect within '' @ env_dur env (env_timeout env)"

text \<open>The end of \<open>serveCodec\<close>.\<close>

definition conn_finish :: "('a, 'b, 'w) conn_state \<Rightarrow> ('a, 'b, 'w) conn_state" where
  "conn_finish s = s\<lparr>cs_codec := gob_Close (cs_codec s), cs_reader := ConnClosed\<rparr>"

inductive conn_step ::
    "('a, 'b) rpc_env \<Rightarrow> ('a, 'b, 'w) conn_state \<Rightarrow> ('a, 'b, 'w) conn_state \<Rightarrow> bool"
  for env :: "('a, 'b) rpc_env" where
  read: "cs_reader s = Reading \<Longrightarrow> conn_step env s (reader_turn env s)"
| reply_bad: "cs_reader s = Replying i err \<Longrightarrow> cs_handlers s i = Some hr \<Longrightarrow>
    conn_step env s
      (sendResponse env i ((hd_h hr)\<lparr>h_Error := err\<rparr>) InvalidRequest (s\<lparr>cs_reader := Reading\<rparr>))"
| finish: "cs_reader s = Draining \<Longrightarrow>
    \<forall>i hr. cs_handlers s i = Some hr \<longrightarrow> hd_pc hr = HDone \<Longrightarrow>
    conn_step env s (conn_finish s)"
| call: "cs_reader s \<noteq> Crash \<Longrightarrow> cs_handlers s i = Some hr \<Longrightarrow> hd_worker hr = WCall r \<Longrightarrow>
    conn_step env s (worker_call i hr r s)"
| called: "cs_reader s \<noteq> Crash \<Longrightarrow> cs_handlers s i = Some hr \<Longrightarrow>
    hd_worker hr = WSendCalled err reply \<Longrightarrow> hd_pc hr = HSelect \<Longrightarrow>
    conn_step env s (set_handler i (hr\<lparr>hd_worker := WRespond err reply, hd_pc := HWaitSent\<rparr>) s)"
| respond: "cs_reader s \<noteq> Crash \<Longrightarrow> cs_handlers s i = Some hr \<Longrightarrow>
    hd_worker hr = WRespond err reply \<Longrightarrow> conn_step env s (worker_respond env i hr err reply s)"
| sent: "cs_reader s \<noteq> Crash \<Longrightarrow> cs_handlers s i = Some hr \<Longrightarrow> hd_worker hr = WSendSent \<Longrightarrow>
    hd_pc hr = HWaitSent \<Longrightarrow>
    conn_step env s (set_handler i (hr\<lparr>hd_worker := WExit, hd_pc := HDone\<rparr>) s)"
| timeout: "cs_reader s \<noteq> Crash \<Longrightarrow> cs_handlers s i = Some hr \<Longrightarrow> hd_pc hr = HSelect \<Longrightarrow>
    env_timeout env \<noteq> 0 \<Longrightarrow>
    conn_step env s (set_handler i (hr\<lparr>hd_pc := HTimedOut\<rparr>) s)"
| timeout_reply: "cs_reader s \<noteq> Crash \<Longrightarrow> cs_handlers s i = Some hr \<Longrightarrow> hd_pc hr = HTimedOut \<Longrightarrow>
    conn_step env s
      (set_handler i (hr\<lparr>hd_pc := HDone\<rparr>)
        (sendResponse env i ((hd_h hr)\<lparr>h_Error := timeout_error env\<rparr>) InvalidRequest s))"

section \<open>The invariant\<close>

definition answers :: "('a, 'b, 'w) conn_state \<Rightarrow> nat \<Rightarrow> nat" where
  "answers s i = length (filter (\<lambda>x. fst x = i) (cs_sent s))"

text \<open>How many responses a handler has been given, from where it and its worker stand; \<open>None\<close> is a
  combination that does not occur.\<close>

fun answered_at :: "handler_pc \<Rightarrow> ('a, 'w) worker_pc \<Rightarrow> nat option" where
  "answered_at HSelect (WCall r) = Some 0"
| "answered_at HSelect (WSendCalled e v) = Some 0"
| "answered_at HTimedOut (WCall r) = Some 0"
| "answered_at HTimedOut (WSendCalled e v) = Some 0"
| "answered_at HWaitSent (WRespond e v) = Some 0"
| "answered_at HWaitSent WSendSent = Some 1"
| "answered_at HDone WExit = Some 1"
| "answered_at HDone (WCall r) = Some 1"
| "answered_at HDone (WSendCalled e v) = Some 1"
| "answered_at _ _ = None"

definition being_refused :: "('a, 'b, 'w) conn_state \<Rightarrow> nat \<Rightarrow> bool" where
  "being_refused s i \<longleftrightarrow> (\<exists>err. cs_reader s = Replying i err)"

definition handler_ok :: "('a, 'b, 'w) conn_state \<Rightarrow> nat \<Rightarrow> ('a, 'w) handler \<Rightarrow> bool" where
  "handler_ok s i hr \<longleftrightarrow>
     (if being_refused s i then hd_pc hr = HDone \<and> hd_worker hr = WExit \<and> answers s i = 0
      else answered_at (hd_pc hr) (hd_worker hr) = Some (answers s i))"

text \<open>The header of a response repeats the number and the method of the request.\<close>

definition echoes :: "('a, 'b, 'w) conn_state \<Rightarrow> nat \<Rightarrow> header \<Rightarrow> bool" where
  "echoes s i h \<longleftrightarrow>
     (\<exists>hr. cs_handlers s i = Some hr \<and> h_Seq h = h_Seq (hd_h hr)
         \<and> ServiceMethod h = ServiceMethod (hd_h hr))"

definition echo_ok :: "('a, 'b, 'w) conn_state \<Rightarrow> bool" where
  "echo_ok s \<longleftrightarrow> (\<forall>x \<in> set (cs_sent s). echoes s (fst x) (fst (snd x)))"

definition conn_inv :: "('a, 'b, 'w) conn_state \<Rightarrow> bool" where
  "conn_inv s \<longleftrightarrow>
     echo_ok s \<and> (\<forall>i. answers s i \<le> 1) \<and> (\<forall>i. cs_handlers s i = None \<longleftrightarrow> cs_next s \<le> i) \<and>
     (cs_reader s \<noteq> Crash \<longrightarrow> (\<forall>i hr. cs_handlers s i = Some hr \<longrightarrow> handler_ok s i hr)) \<and>
     (\<forall>i err. cs_reader s = Replying i err \<longrightarrow> i < cs_next s) \<and>
     (cs_reader s = ConnClosed \<longrightarrow> (\<forall>i hr. cs_handlers s i = Some hr \<longrightarrow> hd_pc hr = HDone))"

lemma sendResponse_simps [simp]:
  "cs_handlers (sendResponse env i h body s) = cs_handlers s"
  "cs_next (sendResponse env i h body s) = cs_next s"
  "cs_reader (sendResponse env i h body s) = cs_reader s"
  "cs_server (sendResponse env i h body s) = cs_server s"
  "cs_sent (sendResponse env i h body s) = cs_sent s @ [(i, h, body)]"
  by (simp_all add: sendResponse_def)

lemma set_handler_simps [simp]:
  "cs_handlers (set_handler i hr s) = (cs_handlers s)(i \<mapsto> hr)"
  "cs_next (set_handler i hr s) = cs_next s" "cs_reader (set_handler i hr s) = cs_reader s"
  "cs_server (set_handler i hr s) = cs_server s" "cs_sent (set_handler i hr s) = cs_sent s"
  "cs_codec (set_handler i hr s) = cs_codec s"
  by (simp_all add: set_handler_def)

lemma spawn_simps [simp]:
  "cs_handlers (spawn h r s) = (cs_handlers s)(cs_next s \<mapsto>
     (case r of
        None \<Rightarrow> \<lparr>hd_h = h, hd_pc = HDone, hd_worker = WExit\<rparr>
      | Some q \<Rightarrow> \<lparr>hd_h = h, hd_pc = HSelect, hd_worker = WCall q\<rparr>))"
  "cs_next (spawn h r s) = Suc (cs_next s)" "cs_reader (spawn h r s) = cs_reader s"
  "cs_server (spawn h r s) = cs_server s" "cs_sent (spawn h r s) = cs_sent s"
  "cs_codec (spawn h r s) = cs_codec s"
  by (simp_all add: spawn_def)

lemma conn_finish_simps [simp]:
  "cs_handlers (conn_finish s) = cs_handlers s" "cs_next (conn_finish s) = cs_next s"
  "cs_reader (conn_finish s) = ConnClosed" "cs_server (conn_finish s) = cs_server s"
  "cs_sent (conn_finish s) = cs_sent s"
  by (simp_all add: conn_finish_def)

lemma answers_append [simp]:
  "cs_sent s' = cs_sent s @ [(j, h, body)] \<Longrightarrow> answers s' i = answers s i + (if i = j then 1 else 0)"
  by (simp add: answers_def)

lemma answers_same: "cs_sent s' = cs_sent s \<Longrightarrow> answers s' i = answers s i"
  by (simp add: answers_def)

lemma answers_0: "echo_ok s \<Longrightarrow> cs_handlers s i = None \<Longrightarrow> answers s i = 0"
  by (fastforce simp: echo_ok_def echoes_def answers_def filter_empty_conv)

lemma echoes_same_header:
  "cs_handlers s i = Some hr \<Longrightarrow> hd_h hr' = hd_h hr \<Longrightarrow>
     cs_handlers s' = (cs_handlers s)(i \<mapsto> hr') \<Longrightarrow> echoes s' = echoes s"
  by (auto simp: echoes_def fun_eq_iff)

lemma answered_at_le: "answered_at p q = Some n \<Longrightarrow> n \<le> 1"
  by (induction p q rule: answered_at.induct) auto

lemma answered_at_WRespond [simp]:
  "answered_at p (WRespond e v) = Some n \<longleftrightarrow> p = HWaitSent \<and> n = 0"
  by (cases p) auto

lemma answered_at_timeout: "answered_at HTimedOut w = answered_at HSelect w"
  by (cases w) auto

lemma answered_at_reply: "answered_at HTimedOut w = Some n \<Longrightarrow> answered_at HDone w = Some (Suc n)"
  by (cases w) auto

text \<open>A step of the handler or the worker of one request.\<close>

lemma conn_inv_handler_step:
  assumes inv: "conn_inv s" and run: "cs_reader s \<noteq> Crash"
    and hr: "cs_handlers s i = Some hr" "\<not> being_refused s i"
    and s': "cs_handlers s' = (cs_handlers s)(i \<mapsto> hr')" "cs_next s' = cs_next s"
      "cs_reader s' = cs_reader s"
    and hr': "hd_h hr' = hd_h hr" "hd_pc hr = HDone \<Longrightarrow> hd_pc hr' = HDone"
    and sent: "cs_sent s' = cs_sent s \<and> answered_at (hd_pc hr') (hd_worker hr') = Some (answers s i) \<or>
      (\<exists>h body. cs_sent s' = cs_sent s @ [(i, h, body)] \<and> h_Seq h = h_Seq (hd_h hr)
         \<and> ServiceMethod h = ServiceMethod (hd_h hr)
         \<and> answered_at (hd_pc hr') (hd_worker hr') = Some (Suc (answers s i)))"
  shows "conn_inv s'"
proof -
  have echo: "echo_ok s'"
    using inv sent echoes_same_header [OF hr(1) hr'(1) s'(1)] hr(1)
    by (auto simp: conn_inv_def echo_ok_def echoes_def [of s i])
  have ans: "answers s' j = answers s j" if "j \<noteq> i" for j
    using sent that by (auto simp: answers_def)
  have ans_i: "answered_at (hd_pc hr') (hd_worker hr') = Some (answers s' i)"
    using sent by (auto simp: answers_def)
  have "answers s' j \<le> 1" for j
    using inv ans answered_at_le [OF ans_i] by (cases "j = i") (auto simp: conn_inv_def)
  moreover have "handler_ok s' j x" if "cs_handlers s' j = Some x" for j x
  proof (cases "j = i")
    case True
    then show ?thesis using that hr(2) s' ans_i by (simp add: handler_ok_def being_refused_def)
  next
    case False
    then have "handler_ok s j x" using that inv run s'(1) by (simp add: conn_inv_def)
    with False ans s'(3) show ?thesis by (simp add: handler_ok_def being_refused_def)
  qed
  moreover have dom: "cs_handlers s j = None \<longleftrightarrow> cs_next s \<le> j" for j
    using inv unfolding conn_inv_def by blast
  have "cs_handlers s' j = None \<longleftrightarrow> cs_next s' \<le> j" for j
    using dom [of j] hr(1) s'(1,2) by auto
  moreover have "hd_pc x = HDone" if "cs_reader s' = ConnClosed" "cs_handlers s' j = Some x" for j x
    using that inv hr(1) hr'(2) s' by (auto simp: conn_inv_def split: if_splits)
  ultimately show ?thesis
    using echo inv s'(2,3) unfolding conn_inv_def by simp
qed

lemma conn_inv_spawn:
  assumes inv: "conn_inv s" and run: "cs_reader s = Reading"
    and s': "cs_handlers s' = (cs_handlers s)(cs_next s \<mapsto> hr)" "cs_next s' = Suc (cs_next s)"
      "cs_sent s' = cs_sent s"
    and r: "cs_reader s' = Reading \<and> answered_at (hd_pc hr) (hd_worker hr) = Some 0 \<or>
      (\<exists>err. cs_reader s' = Replying (cs_next s) err) \<and> hd_pc hr = HDone \<and> hd_worker hr = WExit"
  shows "conn_inv s'"
proof -
  have dom: "cs_handlers s j = None \<longleftrightarrow> cs_next s \<le> j" for j
    using inv unfolding conn_inv_def by blast
  have echo: "echo_ok s" using inv by (simp add: conn_inv_def)
  then have "echo_ok s'"
    using s' dom [of "cs_next s"] by (auto simp: echo_ok_def echoes_def)
  moreover have ans: "answers s' j = answers s j" for j using s'(3) by (rule answers_same)
  have ans0: "answers s (cs_next s) = 0" using answers_0 [OF echo] dom by blast
  have "answers s' j \<le> 1" for j using inv ans by (simp add: conn_inv_def)
  moreover have "cs_handlers s' j = None \<longleftrightarrow> cs_next s' \<le> j" for j
    using dom [of j] s'(1,2) by auto
  moreover have "handler_ok s' j x" if "cs_handlers s' j = Some x" for j x
  proof (cases "j = cs_next s")
    case True
    then show ?thesis using that s'(1) r ans ans0 by (auto simp: handler_ok_def being_refused_def)
  next
    case False
    then have "handler_ok s j x" using that inv run s'(1) by (simp add: conn_inv_def)
    with False ans r run show ?thesis by (auto simp: handler_ok_def being_refused_def)
  qed
  ultimately show ?thesis using r s'(2) unfolding conn_inv_def by auto
qed

lemma conn_inv_reader:
  assumes inv: "conn_inv s" and run: "cs_reader s = Reading"
  shows "conn_inv (reader_turn env s)"
proof (cases "readRequest (env_g env) (env_dec env) (cs_server s) (cs_codec s)")
  case (Panic msg)
  with inv show ?thesis
    by (simp add: reader_turn_def conn_inv_def echo_ok_def echoes_def answers_def)
next
  case (Ret x)
  obtain rr cc where x: "x = (rr, cc)" by (cases x)
  show ?thesis
  proof (cases rr)
    case (NoRequest err)
    with Ret x inv run show ?thesis
      by (auto simp: reader_turn_def conn_inv_def echo_ok_def echoes_def answers_def
          handler_ok_def being_refused_def)
  next
    case (BadRequest h err)
    with Ret x run show ?thesis
      by (intro conn_inv_spawn [where hr = "\<lparr>hd_h = h, hd_pc = HDone, hd_worker = WExit\<rparr>",
            OF inv run]) (simp_all add: reader_turn_def)
  next
    case (Request r)
    with Ret x run show ?thesis
      by (intro conn_inv_spawn [where hr = "\<lparr>hd_h = req_h r, hd_pc = HSelect, hd_worker = WCall r\<rparr>",
            OF inv run]) (simp_all add: reader_turn_def)
  qed
qed

lemma conn_inv_crash: "conn_inv s \<Longrightarrow> conn_inv (s\<lparr>cs_reader := Crash\<rparr>)"
  by (simp add: conn_inv_def echo_ok_def echoes_def answers_def)

lemma conn_inv_reply_bad:
  assumes inv: "conn_inv s" and r: "cs_reader s = Replying i err" and hr: "cs_handlers s i = Some hr"
  shows "conn_inv (sendResponse env i ((hd_h hr)\<lparr>h_Error := err\<rparr>) InvalidRequest
    (s\<lparr>cs_reader := Reading\<rparr>))" (is "conn_inv ?s")
proof -
  have ok: "handler_ok s j x" if "cs_handlers s j = Some x" for j x
    using that inv r by (simp add: conn_inv_def)
  have i: "hd_pc hr = HDone" "hd_worker hr = WExit" "answers s i = 0"
    using ok [OF hr] r by (simp_all add: handler_ok_def being_refused_def)
  have ans: "answers ?s j = answers s j + (if j = i then 1 else 0)" for j
    by (simp add: answers_def)
  have "echo_ok ?s"
    using inv hr by (auto simp: conn_inv_def echo_ok_def echoes_def)
  moreover have "answers ?s j \<le> 1" for j
    using inv i(3) unfolding ans by (simp add: conn_inv_def)
  moreover have "handler_ok ?s j x" if "cs_handlers ?s j = Some x" for j x
    using that ok [of j x] hr i r by (auto simp: handler_ok_def being_refused_def ans)
  ultimately show ?thesis using inv unfolding conn_inv_def by simp
qed

lemma not_refused:
  assumes "conn_inv s" and "cs_reader s \<noteq> Crash" and "cs_handlers s i = Some hr"
    and "hd_pc hr \<noteq> HDone \<or> hd_worker hr \<noteq> WExit"
  shows "\<not> being_refused s i \<and> answered_at (hd_pc hr) (hd_worker hr) = Some (answers s i)"
  using assms by (auto simp: conn_inv_def handler_ok_def split: if_splits)

lemma conn_inv_call:
  assumes inv: "conn_inv s" and run: "cs_reader s \<noteq> Crash" and hr: "cs_handlers s i = Some hr"
    and w: "hd_worker hr = WCall r"
  shows "conn_inv (worker_call i hr r s)"
proof -
  have ok: "\<not> being_refused s i" "answered_at (hd_pc hr) (hd_worker hr) = Some (answers s i)"
    using not_refused [OF inv run hr] w by simp_all
  have "answered_at (hd_pc hr) (WSendCalled e v) = Some (answers s i)" for e v
    using ok(2) w by (cases "hd_pc hr") auto
  then show ?thesis
    using inv conn_inv_crash [OF inv]
    by (auto simp: worker_call_def split: option.splits outcome.splits
        intro!: conn_inv_handler_step [OF inv run hr ok(1)])
qed

lemma conn_step_inv:
  assumes "conn_step env s s'" and inv: "conn_inv s"
  shows "conn_inv s'"
  using assms(1)
proof cases
  case read
  then show ?thesis using conn_inv_reader [OF inv] by simp
next
  case (reply_bad i err hr)
  then show ?thesis using conn_inv_reply_bad [OF inv] by simp
next
  case finish
  with inv show ?thesis
    by (simp add: conn_finish_def conn_inv_def echo_ok_def echoes_def answers_def handler_ok_def
        being_refused_def)
next
  case (call i hr r)
  then show ?thesis using conn_inv_call [OF inv] by simp
next
  case (called i hr err reply)
  with not_refused [OF inv called(2,3)] show ?thesis
    by (auto intro!: conn_inv_handler_step [OF inv called(2,3)])
next
  case (respond i hr err reply)
  with not_refused [OF inv respond(2,3)] show ?thesis
    by (auto intro!: conn_inv_handler_step [OF inv respond(2,3)] simp: worker_respond_def
        split: option.splits)
next
  case (sent i hr)
  with not_refused [OF inv sent(2,3)] show ?thesis
    by (auto intro!: conn_inv_handler_step [OF inv sent(2,3)])
next
  case (timeout i hr)
  with not_refused [OF inv timeout(2,3)] show ?thesis
    by (auto intro!: conn_inv_handler_step [OF inv timeout(2,3)] simp: answered_at_timeout)
next
  case (timeout_reply i hr)
  with not_refused [OF inv timeout_reply(2,3)] show ?thesis
    by (auto intro!: conn_inv_handler_step [OF inv timeout_reply(2,3)] simp: answered_at_reply)
qed

definition conn_start :: "('a, 'b, 'w) conn_state \<Rightarrow> bool" where
  "conn_start s \<longleftrightarrow> (\<exists>srv cc w. s = conn_init srv cc w)"

lemma conn_start_inv: "conn_start s \<Longrightarrow> conn_inv s"
  by (auto simp: conn_start_def conn_init_def conn_inv_def echo_ok_def answers_def)

interpretation serve: invariant_system conn_start "conn_step env" conn_inv for env
  by unfold_locales (simp_all add: conn_start_inv conn_step_inv)

section \<open>A demo connection\<close>

text \<open>One request with number 7 for \<open>Foo.Sum\<close>, a handle timeout of one second, and a method that
  takes longer.\<close>

definition demo_env :: "(nat, string) rpc_env" where
  "demo_env =
     \<lparr>env_g = demo_g, env_dec = demo_dec, env_enc = (\<lambda>b. Inr ''body''),
      env_timeout = 10 ^ 9, env_dur = (\<lambda>d. ''1s'')\<rparr>"

definition demo_request_header :: header where
  "demo_request_header = \<lparr>ServiceMethod = ''Foo.Sum'', h_Seq = 7, h_Error = []\<rparr>"

definition demo_conn :: "string \<Rightarrow> (nat, string, nat) conn_state" where
  "demo_conn sm =
     conn_init demo_server (NewGobCodec [HeaderMsg \<lparr>ServiceMethod = sm, h_Seq = 7, h_Error = []\<rparr>, BodyMsg ''xyz''] True) 0"

lemma demo_conn_start: "conn_start (demo_conn sm)"
  unfolding conn_start_def demo_conn_def by blast

lemma demo_conn_read:
  obtains s1 r where "(conn_step demo_env)\<^sup>*\<^sup>* (demo_conn ''Foo.Sum'') s1"
    and "cs_handlers s1 0 = Some \<lparr>hd_h = demo_request_header, hd_pc = HSelect, hd_worker = WCall r\<rparr>"
    and "cs_reader s1 = Reading" and "cs_sent s1 = []"
proof -
  let ?c = "NewGobCodec [HeaderMsg demo_request_header, BodyMsg ''xyz''] True"
  let ?mt = "method_entry (demo_method ''Sum'' (Ptr (Basic ''int'')))"
  have c: "\<not> conn_closed ?c" "conn_in ?c = HeaderMsg demo_request_header # BodyMsg ''xyz'' # []"
    by (simp_all add: NewGobCodec_def)
  have f: "findService (ServiceMethod demo_request_header) demo_server
      = Inr (\<lparr>svc_name = ''Foo'', svc_methods = registerMethods demo_methods\<rparr>, ?mt)"
    by (simp add: demo_findService demo_request_header_def)
  have k: "kind (ReplyType ?mt) = KPtr" by (simp add: method_entry_def demo_method_def)
  from readRequest_pair [OF c f k, of demo_g demo_dec] obtain r cc where
    "readRequest demo_g demo_dec demo_server ?c = Ret (Request r, cc)" "req_h r = demo_request_header"
    by auto
  moreover have reading: "cs_reader (demo_conn ''Foo.Sum'') = Reading"
    by (simp add: demo_conn_def conn_init_def)
  ultimately show ?thesis
    by (intro that [of "reader_turn demo_env (demo_conn ''Foo.Sum'')" r]
        r_into_rtranclp [of "conn_step demo_env"] conn_step.read)
      (simp_all add: reader_turn_def demo_conn_def conn_init_def demo_env_def demo_request_header_def)
qed

text \<open>A run in which the handler gives up before the method returns.\<close>

lemma demo_conn_timeout:
  obtains s r where "(conn_step demo_env)\<^sup>*\<^sup>* (demo_conn ''Foo.Sum'') s"
    and "cs_handlers s 0 = Some \<lparr>hd_h = demo_request_header, hd_pc = HDone, hd_worker = WCall r\<rparr>"
    and "map (\<lambda>(i, h, b). (i, h_Seq h, h_Error h)) (cs_sent s)
           = [(0, 7, ''rpc server: request handle timeout: expect within 1s'')]"
    and "cs_reader s = Reading"
proof -
  obtain s1 r where s1: "(conn_step demo_env)\<^sup>*\<^sup>* (demo_conn ''Foo.Sum'') s1"
      "cs_handlers s1 0 = Some \<lparr>hd_h = demo_request_header, hd_pc = HSelect, hd_worker = WCall r\<rparr>"
      "cs_reader s1 = Reading" "cs_sent s1 = []"
    by (rule demo_conn_read)
  define h2 :: "(nat, nat) handler"
    where "h2 = \<lparr>hd_h = demo_request_header, hd_pc = HTimedOut, hd_worker = WCall r\<rparr>"
  define s2 where "s2 = set_handler 0 h2 s1"
  have step2: "conn_step demo_env s1 s2"
    using conn_step.timeout [of s1 0 _ demo_env] s1 by (simp add: demo_env_def s2_def h2_def)
  define s3 where "s3 = set_handler 0 (h2\<lparr>hd_pc := HDone\<rparr>)
    (sendResponse demo_env 0 ((hd_h h2)\<lparr>h_Error := timeout_error demo_env\<rparr>) InvalidRequest s2)"
  have step3: "conn_step demo_env s2 s3"
    unfolding s3_def using s1 by (intro conn_step.timeout_reply) (simp_all add: s2_def h2_def)
  show ?thesis
  proof (rule that [of s3 r])
    show "(conn_step demo_env)\<^sup>*\<^sup>* (demo_conn ''Foo.Sum'') s3"
      using s1(1) step2 step3 by (meson rtranclp.rtrancl_into_rtrancl)
  qed (simp_all add: s3_def s2_def h2_def s1 demo_request_header_def timeout_error_def demo_env_def)
qed

section \<open>Properties\<close>

lemma answers_all:
  assumes "conn_inv s" and "cs_reader s = ConnClosed" and "i < cs_next s"
  shows "answers s i = 1"
proof -
  obtain hr where hr: "cs_handlers s i = Some hr" "hd_pc hr = HDone" "handler_ok s i hr"
    using assms unfolding conn_inv_def by (metis not_less not_None_eq reader_pc.distinct)
  then have "answered_at HDone (hd_worker hr) = Some (answers s i)"
    using assms(2) by (simp add: handler_ok_def being_refused_def)
  then show ?thesis by (cases "hd_worker hr") auto
qed

text \<open>C24: Exactly one response.  However the reader, the handlers, the workers and the timeouts of
  a connection interleave, no request is ever answered twice, every response repeats the sequence
  number and the method of the request it answers, and when the server closes the connection every
  request that was read has been answered exactly once.\<close>

theorem exactly_one_response:
  assumes "conn_start s0" and "(conn_step env)\<^sup>*\<^sup>* s0 s"
  shows "(\<forall>i. answers s i \<le> 1)
       \<and> (\<forall>x \<in> set (cs_sent s). echoes s (fst x) (fst (snd x)))
       \<and> (cs_reader s = ConnClosed \<longrightarrow> (\<forall>i < cs_next s. answers s i = 1))"
proof -
  have inv: "conn_inv s" by (rule serve.run_inv [OF assms])
  then have "\<forall>i. answers s i \<le> 1" "echo_ok s" unfolding conn_inv_def by blast+
  with answers_all [OF inv] show ?thesis unfolding echo_ok_def by blast
qed

theorem exactly_one_response_witness:
  "\<exists>s. (conn_step demo_env)\<^sup>*\<^sup>* (demo_conn ''Foo.Sum'') s \<and> cs_sent s \<noteq> [] \<and> answers s 0 \<le> 1"
proof -
  obtain s where s: "(conn_step demo_env)\<^sup>*\<^sup>* (demo_conn ''Foo.Sum'') s" "cs_sent s \<noteq> []"
    by (rule demo_conn_timeout) auto
  with exactly_one_response [OF demo_conn_start s(1)] show ?thesis by blast
qed

text \<open>A worker whose handler timed out is never released.  Once the timeout response has been
  sent and the handler is done, the worker stays in the method or at its offer on \<open>called\<close> for
  ever, since nobody receives from that channel any more: one goroutine is lost per timeout; and
  its late result is never sent.\<close>

theorem timed_out_worker_is_stuck:
  assumes "conn_start s0" and "(conn_step env)\<^sup>*\<^sup>* s0 s"
    and "cs_handlers s i = Some hr" and "hd_pc hr = HDone" and "hd_worker hr \<noteq> WExit"
    and "(conn_step env)\<^sup>*\<^sup>* s s'" and "cs_reader s' \<noteq> Crash"
  shows "\<exists>hr'. cs_handlers s' i = Some hr' \<and> hd_pc hr' = HDone
           \<and> ((\<exists>r. hd_worker hr' = WCall r) \<or> (\<exists>e v. hd_worker hr' = WSendCalled e v))
           \<and> answers s' i = 1"
proof -
  let ?late = "\<lambda>w. (\<exists>r. w = WCall r) \<or> (\<exists>e v. w = WSendCalled e v)"
  let ?P = "\<lambda>s. \<exists>hr. cs_handlers s i = Some hr \<and> hd_pc hr = HDone \<and> ?late (hd_worker hr)"
  have inv: "conn_inv s" by (rule serve.run_inv [OF assms(1,2)])
  have keep: "?P z" if step: "conn_step env y z" and P: "?P y" and y: "conn_inv y" for y z
    using step
  proof cases
    case read
    from P y have "i < cs_next y" unfolding conn_inv_def by (metis not_less option.distinct(1))
    with P show ?thesis
      by (auto simp: read reader_turn_def split: outcome.splits read_result.splits)
  next
    case (call j hj r)
    with P show ?thesis
      by (cases "j = i") (auto simp: worker_call_def split: option.splits outcome.splits)
  next
    case (respond j hj err reply)
    with P show ?thesis by (auto simp: worker_respond_def split: option.splits)
  qed (use P in auto)
  have start: "?P s"
  proof (cases "cs_reader s = Crash")
    case True
    have "s' = s"
      using assms(6) True
    proof (induction rule: converse_rtranclp_induct)
      case (step y z)
      from step.hyps(1) step.prems have False by cases auto
      then show ?case ..
    qed simp
    with True assms(7) show ?thesis by simp
  next
    case False
    with not_refused [OF inv False assms(3)] assms(4,5) assms(3) show ?thesis
      by (cases "hd_worker hr") auto
  qed
  have "?P s' \<and> conn_inv s'"
    using assms(6)
  proof (induction rule: rtranclp_induct)
    case base
    with start inv show ?case by blast
  next
    case (step y z)
    with keep conn_step_inv show ?case by blast
  qed
  then obtain hr' where hr': "cs_handlers s' i = Some hr'" "hd_pc hr' = HDone" "?late (hd_worker hr')"
    and inv': "conn_inv s'" by blast
  then have "answered_at (hd_pc hr') (hd_worker hr') = Some (answers s' i)"
    using not_refused [OF inv' assms(7) hr'(1)] by auto
  with hr' show ?thesis by auto
qed

theorem timed_out_worker_is_stuck_witness:
  "\<exists>s. (conn_step demo_env)\<^sup>*\<^sup>* (demo_conn ''Foo.Sum'') s \<and> answers s 0 = 1 \<and> cs_reader s \<noteq> Crash"
proof -
  obtain s r where s: "(conn_step demo_env)\<^sup>*\<^sup>* (demo_conn ''Foo.Sum'') s"
    "cs_handlers s 0 = Some \<lparr>hd_h = demo_request_header, hd_pc = HDone, hd_worker = WCall r\<rparr>"
    "cs_reader s \<noteq> Crash"
    by (rule demo_conn_timeout) auto
  from timed_out_worker_is_stuck [OF demo_conn_start s(1,2) _ _ rtranclp.rtrancl_refl s(3)]
  have "answers s 0 = 1" by auto
  with s show ?thesis by blast
qed

text \<open>How many more steps the handler and the worker of a request can make.\<close>

fun handler_rank :: "handler_pc \<Rightarrow> nat" where
  "handler_rank HSelect = 3"
| "handler_rank HTimedOut = 2"
| "handler_rank HWaitSent = 1"
| "handler_rank HDone = 0"

fun worker_rank :: "('a, 'w) worker_pc \<Rightarrow> nat" where
  "worker_rank (WCall r) = 4"
| "worker_rank (WSendCalled e v) = 3"
| "worker_rank (WRespond e v) = 2"
| "worker_rank WSendSent = 1"
| "worker_rank WExit = 0"

definition request_rank :: "('a, 'w) handler option \<Rightarrow> nat" where
  "request_rank x = (case x of None \<Rightarrow> 0 | Some hr \<Rightarrow> handler_rank (hd_pc hr) + worker_rank (hd_worker hr))"

definition conn_rank :: "('a, 'b, 'w) conn_state \<Rightarrow> nat" where
  "conn_rank s = (\<Sum>i < cs_next s. request_rank (cs_handlers s i))"

lemma conn_rank_less:
  assumes "i < cs_next s" and "cs_handlers s' = (cs_handlers s)(i \<mapsto> hr')" and "cs_next s' = cs_next s"
    and "request_rank (Some hr') < request_rank (cs_handlers s i)"
  shows "conn_rank s' < conn_rank s"
proof -
  have "(\<Sum>j \<in> {..<cs_next s} - {i}. request_rank (cs_handlers s' j))
      = (\<Sum>j \<in> {..<cs_next s} - {i}. request_rank (cs_handlers s j))"
    using assms(2) by (intro sum.cong) auto
  with assms show ?thesis
    by (simp add: conn_rank_def sum.remove [of "{..<cs_next s}" i])
qed

lemma handler_next: "conn_inv s \<Longrightarrow> cs_handlers s i = Some hr \<Longrightarrow> i < cs_next s"
  unfolding conn_inv_def by (metis not_less option.distinct(1))

lemma service_call_frame:
  "service_call mname m a v svc w = Ret (r, svc', w') \<Longrightarrow> svc' = count_call mname svc"
  by (auto simp: service_call_def bind_outcome_Ret_iff)

lemma worker_call_cases:
  obtains "worker_call i hr r s = s\<lparr>cs_reader := Crash\<rparr>"
  | err reply svc mname where "cs_handlers (worker_call i hr r s)
        = (cs_handlers s)(i \<mapsto> hr\<lparr>hd_worker := WSendCalled err reply\<rparr>)"
      "cs_next (worker_call i hr r s) = cs_next s" "cs_reader (worker_call i hr r s) = cs_reader s"
      "cs_codec (worker_call i hr r s) = cs_codec s"
      "serviceMap (cs_server s) (req_svc r) = Some svc"
      "serviceMap (cs_server (worker_call i hr r s))
         = (serviceMap (cs_server s))(req_svc r \<mapsto> count_call mname svc)"
proof (cases "serviceMap (cs_server s) (req_svc r)")
  case None
  with that(1) show ?thesis by (simp add: worker_call_def)
next
  case (Some svc)
  show ?thesis
  proof (cases "service_call (rm_Name (mt_method (req_mtype r))) (req_mtype r) (req_argv r)
                  (req_replyv r) svc (cs_world s)")
    case (Panic m)
    with Some that(1) show ?thesis by (simp add: worker_call_def)
  next
    case (Ret x)
    obtain err reply svc' w where x: "x = ((err, reply), svc', w)" by (metis prod.collapse)
    have "svc' = count_call (rm_Name (mt_method (req_mtype r))) svc"
      using Ret [unfolded x] by (rule service_call_frame)
    with Some Ret x that(2) show ?thesis by (simp add: worker_call_def)
  qed
qed

text \<open>C27: Draining terminates.  Once the reader has stopped, some goroutine of the connection can
  always move; every step, unless it crashes the process or is the closing of the connection, makes
  the total of the remaining steps smaller, whatever the interleaving.  So if no method panics the
  connection is closed after finitely many steps.\<close>

theorem draining_ends:
  assumes "conn_start s0" and "(conn_step env)\<^sup>*\<^sup>* s0 s" and "cs_reader s = Draining"
  shows "(\<exists>s'. conn_step env s s')
       \<and> (\<forall>s'. conn_step env s s' \<longrightarrow>
            cs_reader s' \<in> {ConnClosed, Crash} \<or> cs_reader s' = Draining \<and> conn_rank s' < conn_rank s)"
proof -
  have inv: "conn_inv s" by (rule serve.run_inv [OF assms(1,2)])
  have "\<exists>s'. conn_step env s s'"
  proof (cases "\<forall>i hr. cs_handlers s i = Some hr \<longrightarrow> hd_pc hr = HDone")
    case True
    with conn_step.finish [OF assms(3)] show ?thesis by blast
  next
    case False
    then obtain i hr where hr: "cs_handlers s i = Some hr" "hd_pc hr \<noteq> HDone" by blast
    have run: "cs_reader s \<noteq> Crash" using assms(3) by simp
    have at: "answered_at (hd_pc hr) (hd_worker hr) \<noteq> None"
      using not_refused [OF inv run hr(1)] hr(2) by simp
    show ?thesis
    proof (cases "hd_worker hr")
      case (WCall r)
      from conn_step.call [OF run hr(1) WCall] show ?thesis by blast
    next
      case (WSendCalled e v)
      with at hr(2) have "hd_pc hr = HSelect \<or> hd_pc hr = HTimedOut" by (cases "hd_pc hr") auto
      with conn_step.called [OF run hr(1) WSendCalled] conn_step.timeout_reply [OF run hr(1)]
      show ?thesis by blast
    next
      case (WRespond e v)
      from conn_step.respond [OF run hr(1) WRespond] show ?thesis by blast
    next
      case WSendSent
      with at hr(2) have "hd_pc hr = HWaitSent" by (cases "hd_pc hr") auto
      from conn_step.sent [OF run hr(1) WSendSent this] show ?thesis by blast
    next
      case WExit
      with at hr(2) show ?thesis by (cases "hd_pc hr") auto
    qed
  qed
  moreover have "cs_reader s' \<in> {ConnClosed, Crash} \<or> cs_reader s' = Draining \<and> conn_rank s' < conn_rank s"
    if "conn_step env s s'" for s'
    using that
  proof cases
    case (call i hr r)
    from worker_call_cases [of i hr r s] show ?thesis
    proof cases
      case 2
      with conn_rank_less [OF handler_next [OF inv call(3)] 2(1,2)] call assms(3) show ?thesis
        by (simp add: request_rank_def)
    qed (simp add: call)
  next
    case (called i hr err reply)
    with assms(3) show ?thesis
      by (auto intro!: conn_rank_less [OF handler_next [OF inv called(3)]] simp: request_rank_def)
  next
    case (respond i hr err reply)
    with assms(3) show ?thesis
      by (auto intro!: conn_rank_less [OF handler_next [OF inv respond(3)]]
          simp: request_rank_def worker_respond_def split: option.splits)
  next
    case (sent i hr)
    with assms(3) show ?thesis
      by (auto intro!: conn_rank_less [OF handler_next [OF inv sent(3)]] simp: request_rank_def)
  next
    case (timeout i hr)
    with assms(3) show ?thesis
      by (auto intro!: conn_rank_less [OF handler_next [OF inv timeout(3)]] simp: request_rank_def)
  next
    case (timeout_reply i hr)
    with assms(3) show ?thesis
      by (auto intro!: conn_rank_less [OF handler_next [OF inv timeout_reply(3)]] simp: request_rank_def)
  qed (use assms(3) in auto)
  ultimately show ?thesis by blast
qed

theorem draining_ends_witness:
  "\<exists>s'. conn_step demo_env
     ((conn_init demo_server (NewGobCodec [] True) 0 :: (nat, string, nat) conn_state)\<lparr>cs_reader := Draining\<rparr>) s'"
proof -
  let ?s = "conn_init demo_server (NewGobCodec [] True) 0 :: (nat, string, nat) conn_state"
  have start: "conn_start ?s" unfolding conn_start_def by blast
  have "reader_turn demo_env ?s = ?s\<lparr>cs_reader := Draining\<rparr>"
    by (simp add: reader_turn_def conn_init_def readRequest_def readRequestHeader_def ReadHeader_def
        gob_decode_def NewGobCodec_def)
  then have "conn_step demo_env ?s (?s\<lparr>cs_reader := Draining\<rparr>)"
    using conn_step.read [of ?s demo_env] by (simp add: conn_init_def)
  then have "(conn_step demo_env)\<^sup>*\<^sup>* ?s (?s\<lparr>cs_reader := Draining\<rparr>)" by (rule r_into_rtranclp)
  from draining_ends [OF start this] show ?thesis by simp
qed

text \<open>A call changes a counter of its service and nothing that \<open>findService\<close> fails on.\<close>

lemma findService_count:
  assumes "findService sm srv = Inl e" and "serviceMap srv n = Some svc"
    and "serviceMap srv' = (serviceMap srv)(n \<mapsto> count_call mname svc)"
  shows "findService sm srv' = Inl e"
  using assms
  by (auto simp: findService_def count_call_def split: option.splits if_splits prod.splits)

text \<open>C28: A request for an unknown service or method ends the connection.  Its body is left unread,
  so the next turn of the reader takes the body for a header; if gob cannot make a header of it,
  the reader stops, and whatever the client sent after the refused request is never read, let alone
  answered.\<close>

theorem unknown_method_ends_connection:
  assumes "cs_reader s = Reading" and "conn_in (cs_codec s) = HeaderMsg h # BodyMsg b # rest"
    and "findService (ServiceMethod h) (cs_server s) = Inl err" and "env_g env b = Inl err'"
    and "(conn_step env)\<^sup>*\<^sup>* s s'"
  shows "cs_next s' \<le> Suc (cs_next s) \<and> (\<exists>unread. conn_in (cs_codec s') = unread @ rest)"
proof -
  let ?n = "cs_next s"
  let ?P = "\<lambda>y. findService (ServiceMethod h) (cs_server y) = Inl err \<and>
    (cs_reader y = Reading \<and> conn_in (cs_codec y) = HeaderMsg h # BodyMsg b # rest \<and> cs_next y = ?n \<or>
     cs_reader y \<notin> {Draining, ConnClosed, Crash}
       \<and> conn_in (cs_codec y) = BodyMsg b # rest \<and> cs_next y = Suc ?n \<or>
     cs_reader y \<in> {Draining, ConnClosed, Crash} \<and> cs_next y \<le> Suc ?n
       \<and> (\<exists>unread. conn_in (cs_codec y) = unread @ rest))"
  have keep: "?P z" if step: "conn_step env y z" and P: "?P y" for y z
    using step
  proof cases
    case read
    show ?thesis
    proof (cases "conn_closed (cs_codec y)")
      case True
      with P read show ?thesis by (auto simp: reader_turn_def readRequest_closed)
    next
      case False
      with P read assms(4) show ?thesis
        by (auto simp: reader_turn_def readRequest_bad_method readRequest_junk)
    qed
  next
    case (call i hr r)
    from worker_call_cases [of i hr r y] show ?thesis
    proof cases
      case 1
      with P call(1) show ?thesis by auto
    next
      case (2 e v svc mname)
      with findService_count [OF _ 2(5,6)] P call(1) show ?thesis by simp
    qed
  next
    case (respond i hr e v)
    with P show ?thesis
      by (simp add: worker_respond_def sendResponse_def set_handler_def split: option.splits)
  qed (use P in \<open>auto simp: sendResponse_def set_handler_def conn_finish_def gob_Close_def\<close>)
  have "?P s'"
    using assms(5)
  proof (induction rule: rtranclp_induct)
    case base
    show ?case using assms(1-3) by simp
  next
    case (step y z)
    with keep show ?case by blast
  qed
  moreover have "HeaderMsg h # BodyMsg b # rest = [HeaderMsg h, BodyMsg b] @ rest"
    "BodyMsg b # rest = [BodyMsg b] @ rest" by simp_all
  ultimately show ?thesis by (metis le_SucI order_refl)
qed

theorem unknown_method_ends_connection_witness:
  "\<exists>s. conn_step demo_env (demo_conn ''Foo.Nop'') s \<and> cs_next s \<le> 1"
proof -
  have reading: "cs_reader (demo_conn ''Foo.Nop'') = Reading"
    by (simp add: demo_conn_def conn_init_def)
  have msgs: "conn_in (cs_codec (demo_conn ''Foo.Nop''))
      = HeaderMsg \<lparr>ServiceMethod = ''Foo.Nop'', h_Seq = 7, h_Error = []\<rparr> # BodyMsg ''xyz'' # []"
    by (simp add: demo_conn_def conn_init_def NewGobCodec_def)
  have "registerMethods demo_methods ''Nop'' = None"
    using fold_register_method_None [of demo_methods "''Nop''" "\<lambda>_. None"]
    by (simp add: registerMethods_def demo_methods_def demo_method_def)
  then have "\<exists>err. findService (ServiceMethod \<lparr>ServiceMethod = ''Foo.Nop'', h_Seq = 7, h_Error = []\<rparr>)
      (cs_server (demo_conn ''Foo.Nop'')) = Inl err"
    using findService_dot [of "''Nop''" "''Foo''" demo_server]
    by (simp add: demo_conn_def conn_init_def demo_server_def)
  then obtain err where err: "findService (ServiceMethod \<lparr>ServiceMethod = ''Foo.Nop'', h_Seq = 7, h_Error = []\<rparr>)
      (cs_server (demo_conn ''Foo.Nop'')) = Inl err" ..
  have g: "env_g demo_env ''xyz'' = Inl ''gob: type mismatch''" by (simp add: demo_env_def demo_g_def)
  have step: "conn_step demo_env (demo_conn ''Foo.Nop'') (reader_turn demo_env (demo_conn ''Foo.Nop''))"
    using reading by (rule conn_step.read)
  have n: "cs_next (demo_conn ''Foo.Nop'') = 0" by (simp add: demo_conn_def conn_init_def)
  have "(conn_step demo_env)\<^sup>*\<^sup>* (demo_conn ''Foo.Nop'') (reader_turn demo_env (demo_conn ''Foo.Nop''))"
    using step by (rule r_into_rtranclp)
  from unknown_method_ends_connection [OF reading msgs err g this] n step show ?thesis by auto
qed

end
