(* ===== verification/RpcClient.thy ===== *)
theory RpcClient
  imports Codec
begin

text \<open>
  The RPC client of \<^verbatim>\<open>geerpc/client.go\<close> as a transition system: any number of goroutines issue
  calls (\<open>Go\<close>, \<open>Call\<close>), one goroutine receives the responses, and anybody may close the
  client.  The mutex \<open>mu\<close> makes \<open>registerCall\<close>, \<open>removeCall\<close> and \<open>terminateCalls\<close> atomic;
  \<open>sending\<close> is held for the whole of \<open>send\<close> and of \<open>terminateCalls\<close>, and its holder is part of
  the state.  \<open>conn_in\<close> of the codec is all that the server will ever send; that the responses
  are not there yet shows in the receiver's step being late.

  \<open>g\<close> and \<open>dec\<close> say what gob makes of a body decoded as a header and of a message decoded into
  the reply; \<open>enc\<close> encodes the arguments.
\<close>

section \<open>State\<close>

definition ErrShutdown :: goerror where "ErrShutdown = ''connection is shut down''"

text \<open>The caller of a call waits for it, has received it from \<open>Done\<close>, or has given up because its
  context ended.\<close>

datatype call_status = Awaited | Received | Expired

text \<open>
  A \<open>Call\<close>.  \<open>rc_dones\<close> is the number of times that \<open>done\<close> has sent it on its channel, and
  \<open>rc_answer\<close> the header of the response that completed it, both recorded for the statements.
\<close>

record ('v, 'r) rpc_call =
  rc_Seq :: uint64
  rc_ServiceMethod :: string
  rc_Args :: 'v
  rc_Reply :: "'r option"
  rc_Error :: "goerror option"
  rc_dones :: nat
  rc_answer :: "header option"
  rc_status :: call_status

text \<open>Who holds \<open>sending\<close>: nobody, or a \<open>send\<close> about to write or about to clean up.\<close>

datatype send_pc = SIdle | SWrite nat uint64 | SFailed nat uint64 goerror

text \<open>The receiver reads a header, has one, has taken the call out of the map, is about to run
  \<open>terminateCalls\<close>, or has ended.\<close>

datatype recv_pc = RRead | RHeader header | RCall header "nat option" | RTerminate goerror | RStopped

record ('b, 'v, 'r) client =
  cl_cc :: "'b gob_codec"
  cl_seq :: uint64
  cl_pending :: "uint64 \<rightharpoonup> nat"
  cl_closing :: bool
  cl_shutdown :: bool
  cl_calls :: "nat \<rightharpoonup> ('v, 'r) rpc_call"
  cl_next :: nat
  cl_registered :: nat
  cl_send :: send_pc
  cl_recv :: recv_pc

definition client_new :: "'b gob_codec \<Rightarrow> ('b, 'v, 'r) client" where
  "client_new cc =
     \<lparr>cl_cc = cc, cl_seq = 1, cl_pending = (\<lambda>_. None), cl_closing = False, cl_shutdown = False,
      cl_calls = (\<lambda>_. None), cl_next = 0, cl_registered = 0, cl_send = SIdle, cl_recv = RRead\<rparr>"

definition IsAvailable :: "('b, 'v, 'r) client \<Rightarrow> bool" where
  "IsAvailable s \<longleftrightarrow> \<not> cl_shutdown s \<and> \<not> cl_closing s"

section \<open>Operations\<close>

text \<open>Closing the connection of a codec that has closed it itself, after a failed write, is an error.\<close>

definition client_Close :: "('b, 'v, 'r) client \<Rightarrow> goerror option \<times> ('b, 'v, 'r) client" where
  "client_Close s =
     (if cl_closing s then (Some ErrShutdown, s)
      else (if conn_closed (cl_cc s) then Some err_closed else None,
            s\<lparr>cl_closing := True, cl_cc := gob_Close (cl_cc s)\<rparr>))"

text \<open>Set a call's error, if there is one to set, and send it on its channel.\<close>

definition finish_call ::
    "nat \<Rightarrow> (('v, 'r) rpc_call \<Rightarrow> ('v, 'r) rpc_call) \<Rightarrow> ('b, 'v, 'r) client \<Rightarrow> ('b, 'v, 'r) client" where
  "finish_call c f s =
     s\<lparr>cl_calls := (cl_calls s)(c := map_option (\<lambda>x. (f x)\<lparr>rc_dones := Suc (rc_dones x)\<rparr>) (cl_calls s c))\<rparr>"

definition set_Error :: "goerror \<Rightarrow> ('v, 'r) rpc_call \<Rightarrow> ('v, 'r) rpc_call" where
  "set_Error e x = x\<lparr>rc_Error := Some e\<rparr>"

definition registerCall :: "nat \<Rightarrow> ('b, 'v, 'r) client \<Rightarrow> (goerror + uint64) \<times> ('b, 'v, 'r) client" where
  "registerCall c s =
     (if cl_closing s \<or> cl_shutdown s then (Inl ErrShutdown, s)
      else (Inr (cl_seq s),
            s\<lparr>cl_calls := (cl_calls s)(c := map_option (rc_Seq_update (\<lambda>_. cl_seq s)) (cl_calls s c)),
              cl_pending := (cl_pending s)(cl_seq s \<mapsto> c),
              cl_seq := cl_seq s + 1,
              cl_registered := Suc (cl_registered s)\<rparr>))"

definition removeCall :: "uint64 \<Rightarrow> ('b, 'v, 'r) client \<Rightarrow> nat option \<times> ('b, 'v, 'r) client" where
  "removeCall q s = (cl_pending s q, s\<lparr>cl_pending := (cl_pending s)(q := None)\<rparr>)"

text \<open>Every pending call gets the error and is sent on its channel; the map is not emptied.\<close>

definition terminateCalls :: "goerror \<Rightarrow> ('b, 'v, 'r) client \<Rightarrow> ('b, 'v, 'r) client" where
  "terminateCalls err s =
     s\<lparr>cl_shutdown := True,
       cl_calls := (\<lambda>c. if c \<in> ran (cl_pending s)
          then map_option (\<lambda>x. (set_Error err x)\<lparr>rc_dones := Suc (rc_dones x)\<rparr>) (cl_calls s c)
          else cl_calls s c)\<rparr>"

text \<open>\<open>send\<close> up to \<open>cc.Write\<close>.\<close>

definition send_begin :: "nat \<Rightarrow> ('b, 'v, 'r) client \<Rightarrow> ('b, 'v, 'r) client" where
  "send_begin c s =
     (case registerCall c s of
        (Inl err, s1) \<Rightarrow> finish_call c (set_Error err) s1
      | (Inr seq, s1) \<Rightarrow> s1\<lparr>cl_send := SWrite c seq\<rparr>)"

text \<open>\<open>Go\<close>: a new call is sent.\<close>

definition client_Go :: "string \<Rightarrow> 'v \<Rightarrow> ('b, 'v, 'r) client \<Rightarrow> ('b, 'v, 'r) client" where
  "client_Go sm args s =
     (let c = cl_next s;
          s1 = s\<lparr>cl_calls := (cl_calls s)(c \<mapsto>
                   \<lparr>rc_Seq = 0, rc_ServiceMethod = sm, rc_Args = args, rc_Reply = None, rc_Error = None,
                    rc_dones = 0, rc_answer = None, rc_status = Awaited\<rparr>),
                 cl_next := Suc c\<rparr>
      in send_begin c s1)"

text \<open>The rest of \<open>send\<close>: the header carries the method and the number, and no error.\<close>

definition send_write ::
    "('v \<Rightarrow> goerror + 'b) \<Rightarrow> nat \<Rightarrow> uint64 \<Rightarrow> ('v, 'r) rpc_call \<Rightarrow> ('b, 'v, 'r) client \<Rightarrow> ('b, 'v, 'r) client" where
  "send_write enc c q x s =
     (case gob_Write enc \<lparr>ServiceMethod = rc_ServiceMethod x, h_Seq = q, h_Error = ''''\<rparr> (rc_Args x) (cl_cc s) of
        (None, cc) \<Rightarrow> s\<lparr>cl_cc := cc, cl_send := SIdle\<rparr>
      | (Some err, cc) \<Rightarrow> s\<lparr>cl_cc := cc, cl_send := SFailed c q err\<rparr>)"

definition send_cleanup :: "uint64 \<Rightarrow> goerror \<Rightarrow> ('b, 'v, 'r) client \<Rightarrow> ('b, 'v, 'r) client" where
  "send_cleanup q err s =
     (case removeCall q s of
        (None, s1) \<Rightarrow> s1\<lparr>cl_send := SIdle\<rparr>
      | (Some c, s1) \<Rightarrow> (finish_call c (set_Error err) s1)\<lparr>cl_send := SIdle\<rparr>)"

text \<open>The loop of \<open>receive\<close>: the header, the call, the body.\<close>

definition recv_header :: "('b \<Rightarrow> goerror + header) \<Rightarrow> ('b, 'v, 'r) client \<Rightarrow> ('b, 'v, 'r) client" where
  "recv_header g s =
     (case ReadHeader g (cl_cc s) of
        (Inl err, cc) \<Rightarrow> s\<lparr>cl_cc := cc, cl_recv := RTerminate err\<rparr>
      | (Inr h, cc) \<Rightarrow> s\<lparr>cl_cc := cc, cl_recv := RHeader h\<rparr>)"

definition recv_remove :: "header \<Rightarrow> ('b, 'v, 'r) client \<Rightarrow> ('b, 'v, 'r) client" where
  "recv_remove h s = (let (c, s1) = removeCall (h_Seq h) s in s1\<lparr>cl_recv := RCall h c\<rparr>)"

definition recv_next :: "goerror + 'x \<Rightarrow> recv_pc" where
  "recv_next r = (case r of Inl err \<Rightarrow> RTerminate err | Inr _ \<Rightarrow> RRead)"

definition recv_body ::
    "('b message \<Rightarrow> goerror + 'r) \<Rightarrow> header \<Rightarrow> nat option \<Rightarrow> ('b, 'v, 'r) client \<Rightarrow> ('b, 'v, 'r) client" where
  "recv_body dec h call s =
     (case call of
        None \<Rightarrow>
          (let (r, cc) = ReadBody discard (cl_cc s) in s\<lparr>cl_cc := cc, cl_recv := recv_next r\<rparr>)
      | Some c \<Rightarrow>
          (if h_Error h \<noteq> '''' then
             (let (r, cc) = ReadBody discard (cl_cc s) in
              finish_call c (\<lambda>x. (set_Error (h_Error h) x)\<lparr>rc_answer := Some h\<rparr>)
                (s\<lparr>cl_cc := cc, cl_recv := recv_next r\<rparr>))
           else
             (case ReadBody dec (cl_cc s) of
                (Inl err, cc) \<Rightarrow>
                  finish_call c (\<lambda>x. (set_Error (''reading body '' @ err) x)\<lparr>rc_answer := Some h\<rparr>)
                    (s\<lparr>cl_cc := cc, cl_recv := RTerminate err\<rparr>)
              | (Inr v, cc) \<Rightarrow>
                  finish_call c (\<lambda>x. x\<lparr>rc_Reply := Some v, rc_answer := Some h\<rparr>)
                    (s\<lparr>cl_cc := cc, cl_recv := RRead\<rparr>))))"

text \<open>The two ends of the \<open>select\<close> in \<open>Call\<close>.\<close>

definition set_status :: "call_status \<Rightarrow> nat \<Rightarrow> ('b, 'v, 'r) client \<Rightarrow> ('b, 'v, 'r) client" where
  "set_status st c s = s\<lparr>cl_calls := (cl_calls s)(c := map_option (rc_status_update (\<lambda>_. st)) (cl_calls s c))\<rparr>"

definition call_expire :: "nat \<Rightarrow> ('v, 'r) rpc_call \<Rightarrow> ('b, 'v, 'r) client \<Rightarrow> ('b, 'v, 'r) client" where
  "call_expire c x s = set_status Expired c (snd (removeCall (rc_Seq x) s))"

fun sending_call :: "send_pc \<Rightarrow> nat \<Rightarrow> bool" where
  "sending_call SIdle c = False"
| "sending_call (SWrite d q) c = (d = c)"
| "sending_call (SFailed d q err) c = (d = c)"

inductive client_step ::
    "('b \<Rightarrow> goerror + header) \<Rightarrow> ('b message \<Rightarrow> goerror + 'r) \<Rightarrow> ('v \<Rightarrow> goerror + 'b)
       \<Rightarrow> ('b, 'v, 'r) client \<Rightarrow> ('b, 'v, 'r) client \<Rightarrow> bool"
  for g dec enc where
  go: "cl_send s = SIdle \<Longrightarrow> client_step g dec enc s (client_Go sm args s)"
| do_write: "cl_send s = SWrite c q \<Longrightarrow> cl_calls s c = Some x \<Longrightarrow>
    client_step g dec enc s (send_write enc c q x s)"
| cleanup: "cl_send s = SFailed c q err \<Longrightarrow> client_step g dec enc s (send_cleanup q err s)"
| header: "cl_recv s = RRead \<Longrightarrow> client_step g dec enc s (recv_header g s)"
| take_call: "cl_recv s = RHeader h \<Longrightarrow> client_step g dec enc s (recv_remove h s)"
| body: "cl_recv s = RCall h c \<Longrightarrow> client_step g dec enc s (recv_body dec h c s)"
| terminate: "cl_recv s = RTerminate err \<Longrightarrow> cl_send s = SIdle \<Longrightarrow>
    client_step g dec enc s ((terminateCalls err s)\<lparr>cl_recv := RStopped\<rparr>)"
| receive_done: "cl_calls s c = Some x \<Longrightarrow> \<not> sending_call (cl_send s) c \<Longrightarrow> rc_status x = Awaited \<Longrightarrow>
    0 < rc_dones x \<Longrightarrow> client_step g dec enc s (set_status Received c s)"
| expire: "cl_calls s c = Some x \<Longrightarrow> \<not> sending_call (cl_send s) c \<Longrightarrow> rc_status x = Awaited \<Longrightarrow>
    client_step g dec enc s (call_expire c x s)"
| close: "client_step g dec enc s (snd (client_Close s))"

section \<open>The invariant\<close>

definition seq_of :: "('b, 'v, 'r) client \<Rightarrow> nat \<Rightarrow> uint64 option" where
  "seq_of s c = map_option rc_Seq (cl_calls s c)"

text \<open>Numbers identify calls: as long as the counter has not wrapped around, no two registered calls
  have the same number, and the map, the receiver and the sender agree with the calls on it.\<close>

definition seqs_ok :: "('b, 'v, 'r) client \<Rightarrow> bool" where
  "seqs_ok s \<longleftrightarrow>
     unat (cl_seq s) = Suc (cl_registered s) \<and>
     (\<forall>c. seq_of s c = None \<longleftrightarrow> cl_next s \<le> c) \<and>
     (\<forall>c q. seq_of s c = Some q \<longrightarrow> unat q \<le> cl_registered s) \<and>
     (\<forall>c d q. seq_of s c = Some q \<longrightarrow> seq_of s d = Some q \<longrightarrow> q \<noteq> 0 \<longrightarrow> c = d) \<and>
     (\<forall>q c. cl_pending s q = Some c \<longrightarrow> seq_of s c = Some q \<and> q \<noteq> 0) \<and>
     (\<forall>h c. cl_recv s = RCall h (Some c) \<longrightarrow> seq_of s c = Some (h_Seq h)) \<and>
     (\<forall>c q. cl_send s = SWrite c q \<or> (\<exists>e. cl_send s = SFailed c q e) \<longrightarrow> seq_of s c = Some q)"

fun holds :: "recv_pc \<Rightarrow> nat \<Rightarrow> bool" where
  "holds (RCall h (Some d)) c = (d = c)"
| "holds _ c = False"

text \<open>
  What is known of a call: whether it is in the map (\<open>p\<close>), with the receiver (\<open>r\<close>), and whether
  the receiver has stopped (\<open>t\<close>).  A call that is done without an error has a reply that came
  with a header of its own number and without an error.
\<close>

definition call_ok :: "bool \<Rightarrow> bool \<Rightarrow> bool \<Rightarrow> ('v, 'r) rpc_call \<Rightarrow> bool" where
  "call_ok p r t x \<longleftrightarrow>
     rc_dones x \<le> 1 \<and> (rc_dones x = 1 \<or> rc_status x = Expired \<or> p \<or> r) \<and> \<not> (p \<and> r) \<and>
     (p \<and> \<not> t \<or> r \<longrightarrow> rc_dones x = 0) \<and> (p \<and> t \<longrightarrow> rc_dones x = 1) \<and>
     (rc_status x = Received \<longrightarrow> rc_dones x = 1) \<and>
     (\<forall>h. rc_answer x = Some h \<longrightarrow> h_Seq h = rc_Seq x) \<and>
     (rc_dones x = 1 \<longrightarrow> rc_Error x = None \<longrightarrow>
        rc_Reply x \<noteq> None \<and> (\<exists>h. rc_answer x = Some h \<and> h_Error h = ''''))"

definition pends :: "('b, 'v, 'r) client \<Rightarrow> nat \<Rightarrow> ('v, 'r) rpc_call \<Rightarrow> bool" where
  "pends s c x \<longleftrightarrow> cl_pending s (rc_Seq x) = Some c"

definition calls_ok :: "('b, 'v, 'r) client \<Rightarrow> bool" where
  "calls_ok s \<longleftrightarrow>
     (\<forall>c x. cl_calls s c = Some x \<longrightarrow>
        call_ok (pends s c x) (holds (cl_recv s) c) (cl_recv s = RStopped) x)"

definition client_inv :: "('b, 'v, 'r) client \<Rightarrow> bool" where
  "client_inv s \<longleftrightarrow>
     (cl_registered s < 2 ^ 64 - 1 \<longrightarrow> seqs_ok s \<and> calls_ok s) \<and>
     (cl_recv s = RStopped \<longrightarrow> cl_shutdown s \<and> cl_send s = SIdle)"

lemma finish_call_simps [simp]:
  "cl_cc (finish_call c f s) = cl_cc s" "cl_seq (finish_call c f s) = cl_seq s"
  "cl_pending (finish_call c f s) = cl_pending s" "cl_closing (finish_call c f s) = cl_closing s"
  "cl_shutdown (finish_call c f s) = cl_shutdown s" "cl_next (finish_call c f s) = cl_next s"
  "cl_registered (finish_call c f s) = cl_registered s" "cl_send (finish_call c f s) = cl_send s"
  "cl_recv (finish_call c f s) = cl_recv s"
  by (simp_all add: finish_call_def)

lemma seq_of_finish_call [simp]:
  "(\<And>x. rc_Seq (f x) = rc_Seq x) \<Longrightarrow> seq_of (finish_call c f s) = seq_of s"
  by (auto simp: seq_of_def finish_call_def fun_eq_iff option.map_comp o_def)

lemma set_status_simps [simp]:
  "cl_pending (set_status st c s) = cl_pending s" "cl_seq (set_status st c s) = cl_seq s"
  "cl_shutdown (set_status st c s) = cl_shutdown s" "cl_next (set_status st c s) = cl_next s"
  "cl_registered (set_status st c s) = cl_registered s" "cl_send (set_status st c s) = cl_send s"
  "cl_recv (set_status st c s) = cl_recv s" "seq_of (set_status st c s) = seq_of s"
  by (auto simp: set_status_def seq_of_def fun_eq_iff option.map_comp o_def)

lemma set_Error_simps [simp]:
  "rc_Seq (set_Error e x) = rc_Seq x" "rc_dones (set_Error e x) = rc_dones x"
  "rc_status (set_Error e x) = rc_status x" "rc_Error (set_Error e x) = Some e"
  "rc_answer (set_Error e x) = rc_answer x" "rc_Reply (set_Error e x) = rc_Reply x"
  by (simp_all add: set_Error_def)

lemma removeCall_simps [simp]:
  "fst (removeCall q s) = cl_pending s q"
  "cl_pending (snd (removeCall q s)) = (cl_pending s)(q := None)"
  "cl_seq (snd (removeCall q s)) = cl_seq s" "cl_calls (snd (removeCall q s)) = cl_calls s"
  "cl_shutdown (snd (removeCall q s)) = cl_shutdown s" "cl_next (snd (removeCall q s)) = cl_next s"
  "cl_registered (snd (removeCall q s)) = cl_registered s" "cl_send (snd (removeCall q s)) = cl_send s"
  "cl_recv (snd (removeCall q s)) = cl_recv s" "seq_of (snd (removeCall q s)) = seq_of s"
  by (simp_all add: removeCall_def seq_of_def fun_eq_iff)

lemma calls_finish:
  "cl_calls (finish_call c f s) d =
     (if d = c then map_option (\<lambda>x. (f x)\<lparr>rc_dones := Suc (rc_dones x)\<rparr>) (cl_calls s c) else cl_calls s d)"
  by (simp add: finish_call_def)

lemma calls_set_status:
  "cl_calls (set_status st c s) d =
     (if d = c then map_option (rc_status_update (\<lambda>_. st)) (cl_calls s c) else cl_calls s d)"
  by (simp add: set_status_def)

lemma holds_iff: "holds r c \<longleftrightarrow> (\<exists>h. r = RCall h (Some c))"
  by (induction r c rule: holds.induct) auto

text \<open>Steps that change no call keep the invariant when every call is in the same places as before.\<close>

lemma calls_ok_same:
  assumes "calls_ok s" and "cl_calls s' = cl_calls s"
    and "\<And>c x. cl_calls s c = Some x \<Longrightarrow> pends s' c x = pends s c x"
    and "\<And>c. holds (cl_recv s') c = holds (cl_recv s) c"
    and "(cl_recv s' = RStopped) = (cl_recv s = RStopped)"
  shows "calls_ok s'"
  using assms by (simp add: calls_ok_def)

text \<open>Steps that finish one call.\<close>

lemma calls_ok_one:
  assumes "calls_ok s" and "\<And>d. d \<noteq> c \<Longrightarrow> cl_calls s' d = cl_calls s d"
    and "\<And>d x. d \<noteq> c \<Longrightarrow> cl_calls s d = Some x \<Longrightarrow> pends s' d x = pends s d x"
    and "\<And>d. d \<noteq> c \<Longrightarrow> holds (cl_recv s') d = holds (cl_recv s) d"
    and "(cl_recv s' = RStopped) = (cl_recv s = RStopped)"
    and "\<And>x. cl_calls s' c = Some x \<Longrightarrow> call_ok (pends s' c x) (holds (cl_recv s') c) (cl_recv s' = RStopped) x"
  shows "calls_ok s'"
  unfolding calls_ok_def
proof (intro allI impI)
  fix d x assume d: "cl_calls s' d = Some x"
  show "call_ok (pends s' d x) (holds (cl_recv s') d) (cl_recv s' = RStopped) x"
  proof (cases "d = c")
    case True
    with d assms(6) show ?thesis by simp
  next
    case False
    with d assms(2) have "cl_calls s d = Some x" by simp
    with False assms(1,3-5) show ?thesis by (simp add: calls_ok_def)
  qed
qed

lemma seqs_ok_same:
  assumes "seqs_ok s" and "cl_seq s' = cl_seq s" and "cl_next s' = cl_next s"
    and "cl_registered s' = cl_registered s" and "seq_of s' = seq_of s"
    and "cl_pending s' \<subseteq>\<^sub>m cl_pending s"
    and "\<And>h c. cl_recv s' = RCall h (Some c) \<Longrightarrow> seq_of s c = Some (h_Seq h)"
    and "\<And>c q e. cl_send s' = SWrite c q \<or> cl_send s' = SFailed c q e \<Longrightarrow> seq_of s c = Some q"
  shows "seqs_ok s'"
proof -
  have pend: "cl_pending s q = Some c" if "cl_pending s' q = Some c" for q c
    using that assms(6) by (metis domI map_le_def)
  show ?thesis
    unfolding seqs_ok_def assms(2-5)
  proof (intro conjI)
    show "\<forall>q c. cl_pending s' q = Some c \<longrightarrow> seq_of s c = Some q \<and> q \<noteq> 0"
      using assms(1) pend unfolding seqs_ok_def by metis
    show "\<forall>h c. cl_recv s' = RCall h (Some c) \<longrightarrow> seq_of s c = Some (h_Seq h)"
      using assms(7) by simp
    show "\<forall>c q. cl_send s' = SWrite c q \<or> (\<exists>e. cl_send s' = SFailed c q e) \<longrightarrow> seq_of s c = Some q"
      using assms(8) by metis
  qed (use assms(1) in \<open>unfold seqs_ok_def, simp_all\<close>)
qed

lemma seqs_okD:
  assumes "seqs_ok s"
  shows "cl_pending s q = Some c \<Longrightarrow> seq_of s c = Some q \<and> q \<noteq> 0"
    and "cl_recv s = RCall h (Some c) \<Longrightarrow> seq_of s c = Some (h_Seq h)"
    and "cl_send s = SWrite c q \<Longrightarrow> seq_of s c = Some q"
    and "cl_send s = SFailed c q e \<Longrightarrow> seq_of s c = Some q"
    and "seq_of s c = Some q \<Longrightarrow> seq_of s d = Some q \<Longrightarrow> q \<noteq> 0 \<Longrightarrow> c = d"
    and "seq_of s c = Some q \<Longrightarrow> unat q \<le> cl_registered s"
    and "seq_of s c = None \<longleftrightarrow> cl_next s \<le> c"
    and "unat (cl_seq s) = Suc (cl_registered s)"
  using assms unfolding seqs_ok_def by blast+

lemma map_le_remove [simp]: "m(q := None) \<subseteq>\<^sub>m m"
  by (simp add: map_le_def)

text \<open>The sender.\<close>

lemma send_write_inv:
  assumes "seqs_ok s" and "calls_ok s" and "cl_send s = SWrite c q"
  shows "seqs_ok (send_write enc c q x s) \<and> calls_ok (send_write enc c q x s)"
proof -
  obtain r cc where w: "gob_Write enc \<lparr>ServiceMethod = rc_ServiceMethod x, h_Seq = q, h_Error = []\<rparr>
      (rc_Args x) (cl_cc s) = (r, cc)" by fastforce
  have "seqs_ok (send_write enc c q x s)"
    using seqs_okD [OF assms(1)] assms(3) w
    by (intro seqs_ok_same [OF assms(1)])
      (auto simp: send_write_def seq_of_def fun_eq_iff split: option.splits)
  moreover have "calls_ok (send_write enc c q x s)"
    using w by (intro calls_ok_same [OF assms(2)])
      (auto simp: send_write_def pends_def split: option.splits)
  ultimately show ?thesis ..
qed

lemma call_ok_finish:
  assumes "call_ok p r t x" and "p \<and> \<not> t \<or> r" and "rc_Seq y = rc_Seq x" and "rc_status y = rc_status x"
    and "rc_dones y = Suc (rc_dones x)"
    and "\<And>h. rc_answer y = Some h \<Longrightarrow> h_Seq h = rc_Seq x"
    and "rc_Error y = None \<Longrightarrow> rc_Reply y \<noteq> None \<and> (\<exists>h. rc_answer y = Some h \<and> h_Error h = '''')"
  shows "call_ok False False t' y"
  using assms unfolding call_ok_def by auto

lemma send_cleanup_inv:
  assumes q: "seqs_ok s" and c: "calls_ok s" and pc: "cl_send s = SFailed d q e"
    and nt: "cl_recv s \<noteq> RStopped"
  shows "seqs_ok (send_cleanup q err s) \<and> calls_ok (send_cleanup q err s)"
proof (cases "cl_pending s q")
  case None
  let ?s = "(snd (removeCall q s))\<lparr>cl_send := SIdle\<rparr>"
  have eq: "send_cleanup q err s = ?s"
    using None by (simp add: send_cleanup_def removeCall_def)
  have "seqs_ok ?s"
    using seqs_okD(2) [OF q] by (intro seqs_ok_same [OF q]) (auto simp: seq_of_def fun_eq_iff)
  moreover have "calls_ok ?s"
    using None by (intro calls_ok_same [OF c]) (auto simp: pends_def)
  ultimately show ?thesis by (simp only: eq)
next
  case (Some a)
  let ?s = "(finish_call a (set_Error err) (snd (removeCall q s)))\<lparr>cl_send := SIdle\<rparr>"
  have eq: "send_cleanup q err s = ?s"
    using Some by (simp add: send_cleanup_def removeCall_def)
  have a: "seq_of s a = Some q" "q \<noteq> 0" using seqs_okD(1) [OF q Some] by simp_all
  then obtain x where x: "cl_calls s a = Some x" "rc_Seq x = q" by (auto simp: seq_of_def)
  have ok: "call_ok (pends s a x) (holds (cl_recv s) a) (cl_recv s = RStopped) x"
    using c x by (simp add: calls_ok_def)
  have p: "pends s a x" using Some x by (simp add: pends_def)
  have "seqs_ok ?s"
    using seqs_okD(2) [OF q]
    by (intro seqs_ok_same [OF q]) (auto simp: seq_of_def [of "_\<lparr>cl_send := _\<rparr>"] seq_of_def [symmetric] fun_eq_iff)
  moreover have "calls_ok ?s"
  proof (rule calls_ok_one [OF c, where c = a])
    fix d y assume "d \<noteq> a" "cl_calls s d = Some y"
    with seqs_okD(5) [OF q a(1) _ a(2), of d] show "pends ?s d y = pends s d y"
      by (auto simp: pends_def seq_of_def)
  next
    fix y assume "cl_calls ?s a = Some y"
    then have y: "y = (set_Error err x)\<lparr>rc_dones := Suc (rc_dones x)\<rparr>"
      using x by (simp add: calls_finish)
    have "call_ok False False (cl_recv ?s = RStopped) y"
      using ok p nt unfolding y by (intro call_ok_finish [OF ok]) (auto simp: call_ok_def)
    moreover have "\<not> holds (cl_recv s) a" using ok p by (simp add: call_ok_def)
    ultimately show "call_ok (pends ?s a y) (holds (cl_recv ?s) a) (cl_recv ?s = RStopped) y"
      using x by (simp add: pends_def y)
  qed (simp_all add: calls_finish)
  ultimately show ?thesis by (simp only: eq)
qed

text \<open>The receiver.\<close>

lemma recv_header_inv:
  assumes "seqs_ok s" and "calls_ok s" and "cl_recv s = RRead"
  shows "seqs_ok (recv_header g s) \<and> calls_ok (recv_header g s)"
proof -
  obtain r cc where w: "ReadHeader g (cl_cc s) = (r, cc)" by fastforce
  have "seqs_ok (recv_header g s)"
    using seqs_okD(3,4) [OF assms(1)] assms(3) w
    by (intro seqs_ok_same [OF assms(1)])
      (auto simp: recv_header_def seq_of_def fun_eq_iff split: sum.splits)
  moreover have "calls_ok (recv_header g s)"
    using w assms(3) by (intro calls_ok_same [OF assms(2)])
      (auto simp: recv_header_def pends_def split: sum.splits)
  ultimately show ?thesis ..
qed

lemma recv_remove_inv:
  assumes q: "seqs_ok s" and c: "calls_ok s" and pc: "cl_recv s = RHeader h"
  shows "seqs_ok (recv_remove h s) \<and> calls_ok (recv_remove h s)"
proof -
  let ?s = "(snd (removeCall (h_Seq h) s))\<lparr>cl_recv := RCall h (cl_pending s (h_Seq h))\<rparr>"
  have eq: "recv_remove h s = ?s" by (simp add: recv_remove_def removeCall_def)
  have "seqs_ok ?s"
    using seqs_okD(1,3,4) [OF q]
    by (intro seqs_ok_same [OF q]) (auto simp: seq_of_def [of "_\<lparr>cl_recv := _\<rparr>"] seq_of_def [symmetric] fun_eq_iff)
  moreover have "calls_ok ?s"
  proof (cases "cl_pending s (h_Seq h)")
    case None
    with pc show ?thesis by (intro calls_ok_same [OF c]) (auto simp: pends_def)
  next
    case (Some a)
    have a: "seq_of s a = Some (h_Seq h)" "h_Seq h \<noteq> 0" using seqs_okD(1) [OF q Some] by simp_all
    then obtain x where x: "cl_calls s a = Some x" "rc_Seq x = h_Seq h" by (auto simp: seq_of_def)
    have ok: "call_ok (pends s a x) (holds (cl_recv s) a) (cl_recv s = RStopped) x"
      using c x by (simp add: calls_ok_def)
    have p: "pends s a x" using Some x by (simp add: pends_def)
    show ?thesis
    proof (rule calls_ok_one [OF c, where c = a])
      fix d y assume "d \<noteq> a" "cl_calls s d = Some y"
      with seqs_okD(5) [OF q a(1) _ a(2), of d] show "pends ?s d y = pends s d y"
        by (auto simp: pends_def seq_of_def)
    next
      fix y assume "cl_calls ?s a = Some y"
      with x have y: "y = x" by simp
      have "call_ok True False False x" using ok p pc by simp
      then have "call_ok False True False x" unfolding call_ok_def by auto
      then show "call_ok (pends ?s a y) (holds (cl_recv ?s) a) (cl_recv ?s = RStopped) y"
        unfolding y using x(2) Some by (simp add: pends_def)
    qed (simp_all add: pc Some)
  qed
  ultimately show ?thesis by (simp only: eq)
qed

lemma recv_finish_inv:
  assumes q: "seqs_ok s" and c: "calls_ok s" and pc: "cl_recv s = RCall h (Some a)"
    and r: "r \<noteq> RStopped" "\<And>h c. r \<noteq> RCall h c"
    and f: "\<And>x. rc_Seq (f x) = rc_Seq x" "\<And>x. rc_status (f x) = rc_status x"
      "\<And>x. rc_dones (f x) = rc_dones x" "\<And>x. rc_answer (f x) = Some h"
      "\<And>x. rc_Error (f x) = None \<Longrightarrow> rc_Reply (f x) \<noteq> None \<and> h_Error h = ''''"
  shows "seqs_ok (finish_call a f (s\<lparr>cl_cc := cc, cl_recv := r\<rparr>))
       \<and> calls_ok (finish_call a f (s\<lparr>cl_cc := cc, cl_recv := r\<rparr>))"
proof -
  let ?s = "finish_call a f (s\<lparr>cl_cc := cc, cl_recv := r\<rparr>)"
  have a: "seq_of s a = Some (h_Seq h)" using seqs_okD(2) [OF q pc] .
  then obtain x where x: "cl_calls s a = Some x" "rc_Seq x = h_Seq h" by (auto simp: seq_of_def)
  have ok: "call_ok (pends s a x) True (cl_recv s = RStopped) x"
    using c [unfolded calls_ok_def, rule_format, OF x(1)] pc by simp
  then have p: "\<not> pends s a x" by (simp add: call_ok_def)
  have "seqs_ok ?s"
    using seqs_okD(3,4) [OF q] f(1) r(2)
    by (intro seqs_ok_same [OF q])
      (auto simp: seq_of_def fun_eq_iff calls_finish option.map_comp o_def)
  moreover have "calls_ok ?s"
  proof (rule calls_ok_one [OF c, where c = a])
    fix y assume "cl_calls ?s a = Some y"
    then have y: "y = (f x)\<lparr>rc_dones := Suc (rc_dones x)\<rparr>"
      using x by (simp add: calls_finish)
    have "call_ok False False (cl_recv ?s = RStopped) y"
      using f x(2) unfolding y by (intro call_ok_finish [OF ok]) simp_all
    moreover have "\<not> holds r a" using r(2) by (simp add: holds_iff)
    ultimately show "call_ok (pends ?s a y) (holds (cl_recv ?s) a) (cl_recv ?s = RStopped) y"
      using x p f(1) by (simp add: pends_def y)
  qed (use pc r in \<open>auto simp: calls_finish pends_def holds_iff\<close>)
  ultimately show ?thesis ..
qed

lemma recv_next_simps:
  "recv_next r \<noteq> RStopped" "recv_next r \<noteq> RCall h c"
  by (simp_all add: recv_next_def split: sum.splits)

lemma recv_body_inv:
  assumes q: "seqs_ok s" and c: "calls_ok s" and pc: "cl_recv s = RCall h a"
  shows "seqs_ok (recv_body dec h a s) \<and> calls_ok (recv_body dec h a s)"
proof (cases a)
  case None
  obtain r :: "goerror + unit" and cc where w: "ReadBody discard (cl_cc s) = (r, cc)" by fastforce
  let ?s = "s\<lparr>cl_cc := cc, cl_recv := recv_next r\<rparr>"
  have "seqs_ok ?s"
    using seqs_okD(3,4) [OF q] recv_next_simps [of r]
    by (intro seqs_ok_same [OF q]) (auto simp: seq_of_def fun_eq_iff)
  moreover have "calls_ok ?s"
    using pc None recv_next_simps [of r]
    by (intro calls_ok_same [OF c]) (auto simp: pends_def holds_iff)
  ultimately show ?thesis using None w by (simp add: recv_body_def)
next
  case (Some d)
  note finish = recv_finish_inv [OF q c pc [unfolded Some]]
  show ?thesis
  proof (cases "h_Error h = ''''")
    case True
    obtain r cc where w: "ReadBody dec (cl_cc s) = (r, cc)" by fastforce
    show ?thesis
    proof (cases r)
      case (Inl err)
      with True Some w show ?thesis
        using finish [of "RTerminate err" "\<lambda>x. (set_Error (''reading body '' @ err) x)\<lparr>rc_answer := Some h\<rparr>" cc]
        by (simp add: recv_body_def)
    next
      case (Inr v)
      with True Some w show ?thesis
        using finish [of RRead "\<lambda>x. x\<lparr>rc_Reply := Some v, rc_answer := Some h\<rparr>" cc]
        by (simp add: recv_body_def)
    qed
  next
    case False
    obtain r :: "goerror + unit" and cc where w: "ReadBody discard (cl_cc s) = (r, cc)" by fastforce
    with False Some show ?thesis
      using finish [of "recv_next r" "\<lambda>x. (set_Error (h_Error h) x)\<lparr>rc_answer := Some h\<rparr>" cc]
        recv_next_simps [of r] by (simp add: recv_body_def)
  qed
qed

lemma terminate_inv:
  assumes q: "seqs_ok s" and c: "calls_ok s" and pc: "cl_recv s = RTerminate err" "cl_send s = SIdle"
  shows "seqs_ok ((terminateCalls err s)\<lparr>cl_recv := RStopped\<rparr>)
       \<and> calls_ok ((terminateCalls err s)\<lparr>cl_recv := RStopped\<rparr>)"
proof -
  let ?s = "(terminateCalls err s)\<lparr>cl_recv := RStopped\<rparr>"
  have "seqs_ok ?s"
    using pc by (intro seqs_ok_same [OF q])
      (auto simp: terminateCalls_def seq_of_def fun_eq_iff option.map_comp o_def)
  moreover have "call_ok (pends ?s d y) (holds (cl_recv ?s) d) (cl_recv ?s = RStopped) y"
    if "cl_calls ?s d = Some y" for d y
  proof -
    have "cl_calls s d \<noteq> None" using that by (auto simp: terminateCalls_def split: if_splits)
    then obtain x where "cl_calls s d = Some x" by blast
    with that have x: "cl_calls s d = Some x"
      "y = (if d \<in> ran (cl_pending s) then (set_Error err x)\<lparr>rc_dones := Suc (rc_dones x)\<rparr> else x)"
      by (auto simp: terminateCalls_def split: if_splits)
    have "d \<in> ran (cl_pending s) \<longleftrightarrow> pends s d x"
      using seqs_okD(1) [OF q, of _ d] x(1) by (auto simp: ran_def pends_def seq_of_def)
    moreover have "pends ?s d y = pends s d x"
      using x(2) by (simp add: pends_def terminateCalls_def)
    moreover have "call_ok (pends s d x) False False x"
      using c [unfolded calls_ok_def, rule_format, OF x(1)] pc by simp
    ultimately show ?thesis using x(2) by (auto simp: call_ok_def)
  qed
  ultimately show ?thesis unfolding calls_ok_def by blast
qed

text \<open>The callers.\<close>

lemma set_status_inv:
  assumes q: "seqs_ok s" and c: "calls_ok s" and x: "cl_calls s a = Some x"
    and st: "st = Expired \<or> rc_dones x = 1"
  shows "seqs_ok (set_status st a s) \<and> calls_ok (set_status st a s)"
proof -
  have "seqs_ok (set_status st a s)"
    using seqs_okD(2-4) [OF q] by (intro seqs_ok_same [OF q]) auto
  moreover have "calls_ok (set_status st a s)"
  proof (rule calls_ok_one [OF c, where c = a])
    fix y assume "cl_calls (set_status st a s) a = Some y"
    then have y: "y = x\<lparr>rc_status := st\<rparr>" using x by (simp add: calls_set_status)
    have "call_ok (pends s a x) (holds (cl_recv s) a) (cl_recv s = RStopped) x"
      using c [unfolded calls_ok_def, rule_format, OF x] .
    then show "call_ok (pends (set_status st a s) a y) (holds (cl_recv (set_status st a s)) a)
        (cl_recv (set_status st a s) = RStopped) y"
      using st unfolding y by (auto simp: call_ok_def pends_def)
  qed (simp_all add: calls_set_status pends_def)
  ultimately show ?thesis ..
qed

lemma expire_inv:
  assumes q: "seqs_ok s" and c: "calls_ok s" and x: "cl_calls s a = Some x" "rc_status x = Awaited"
  shows "seqs_ok (call_expire a x s) \<and> calls_ok (call_expire a x s)"
proof -
  let ?s = "call_expire a x s"
  have a: "seq_of s a = Some (rc_Seq x)" using x by (simp add: seq_of_def)
  have "seqs_ok ?s"
    using seqs_okD(2-4) [OF q] by (intro seqs_ok_same [OF q]) (auto simp: call_expire_def)
  moreover have "calls_ok ?s"
  proof (rule calls_ok_one [OF c, where c = a])
    fix d y assume d: "d \<noteq> a" "cl_calls s d = Some y"
    show "pends ?s d y = pends s d y"
    proof (cases "rc_Seq y = rc_Seq x")
      case True
      then have "cl_pending s (rc_Seq x) \<noteq> Some d"
        using seqs_okD(1) [OF q, of "rc_Seq x" d] seqs_okD(5) [OF q a, of d] d by auto
      with True show ?thesis by (simp add: pends_def call_expire_def)
    qed (simp add: pends_def call_expire_def)
  next
    fix y assume "cl_calls ?s a = Some y"
    then have y: "y = x\<lparr>rc_status := Expired\<rparr>"
      using x by (simp add: call_expire_def calls_set_status)
    have "call_ok (pends s a x) (holds (cl_recv s) a) (cl_recv s = RStopped) x"
      using c x by (simp add: calls_ok_def)
    then show "call_ok (pends ?s a y) (holds (cl_recv ?s) a) (cl_recv ?s = RStopped) y"
      unfolding y by (auto simp: call_ok_def pends_def call_expire_def)
  qed (simp_all add: call_expire_def calls_set_status)
  ultimately show ?thesis ..
qed

definition new_call :: "string \<Rightarrow> 'v \<Rightarrow> ('v, 'r) rpc_call" where
  "new_call sm args =
     \<lparr>rc_Seq = 0, rc_ServiceMethod = sm, rc_Args = args, rc_Reply = None, rc_Error = None,
      rc_dones = 0, rc_answer = None, rc_status = Awaited\<rparr>"

lemma client_Go_refused:
  assumes "cl_closing s \<or> cl_shutdown s"
  shows "client_Go sm args s =
     s\<lparr>cl_calls := (cl_calls s)(cl_next s \<mapsto> (new_call sm args)\<lparr>rc_Error := Some ErrShutdown, rc_dones := 1\<rparr>),
       cl_next := Suc (cl_next s)\<rparr>"
  using assms
  by (simp add: client_Go_def send_begin_def registerCall_def finish_call_def set_Error_def
      new_call_def Let_def)

lemma client_Go_registered:
  assumes "\<not> (cl_closing s \<or> cl_shutdown s)"
  shows "client_Go sm args s =
     s\<lparr>cl_calls := (cl_calls s)(cl_next s \<mapsto> (new_call sm args)\<lparr>rc_Seq := cl_seq s\<rparr>),
       cl_next := Suc (cl_next s), cl_pending := (cl_pending s)(cl_seq s \<mapsto> cl_next s),
       cl_seq := cl_seq s + 1, cl_registered := Suc (cl_registered s),
       cl_send := SWrite (cl_next s) (cl_seq s)\<rparr>"
  using assms by (simp add: client_Go_def send_begin_def registerCall_def new_call_def Let_def)

lemma pending_lt_next:
  assumes "seqs_ok s"
  shows "cl_pending s q = Some c \<Longrightarrow> c < cl_next s"
    and "cl_recv s = RCall h (Some c) \<Longrightarrow> c < cl_next s"
  using seqs_okD(1,2,7) [OF assms] by (metis not_less option.distinct(1))+

lemma go_refused_inv:
  assumes q: "seqs_ok s" and c: "calls_ok s" and "cl_closing s \<or> cl_shutdown s" and "cl_send s = SIdle"
  shows "seqs_ok (client_Go sm args s) \<and> calls_ok (client_Go sm args s)"
proof -
  let ?n = "cl_next s" and ?s = "client_Go sm args s"
  note s = client_Go_refused [OF assms(3), of sm args]
  have seq: "seq_of ?s = (seq_of s)(?n \<mapsto> 0)"
    by (auto simp: s seq_of_def fun_eq_iff new_call_def)
  have old: "seq_of s d = Some p \<Longrightarrow> d \<noteq> ?n" for d p
    using seqs_okD(7) [OF q, of d] by auto
  have "seqs_ok ?s"
    unfolding seqs_ok_def seq
  proof (intro conjI allI impI)
    fix d e p assume "((seq_of s)(?n \<mapsto> 0)) d = Some p" "((seq_of s)(?n \<mapsto> 0)) e = Some p" "p \<noteq> 0"
    then show "d = e" using seqs_okD(5) [OF q] by (auto split: if_splits)
  next
    fix d p assume "cl_pending ?s p = Some d"
    then have "seq_of s d = Some p \<and> p \<noteq> 0" using seqs_okD(1) [OF q] by (simp add: s)
    with old show "((seq_of s)(?n \<mapsto> 0)) d = Some p" and "p \<noteq> 0" by auto
  next
    fix h d assume "cl_recv ?s = RCall h (Some d)"
    then have "seq_of s d = Some (h_Seq h)" using seqs_okD(2) [OF q] by (simp add: s)
    with old show "((seq_of s)(?n \<mapsto> 0)) d = Some (h_Seq h)" by auto
  qed (use seqs_okD(6,7,8) [OF q] assms(4) in \<open>auto simp: s split: if_splits\<close>)
  moreover have "calls_ok ?s"
  proof (rule calls_ok_one [OF c, where c = ?n])
    fix x assume "cl_calls ?s ?n = Some x"
    then have x: "x = (new_call sm args)\<lparr>rc_Error := Some ErrShutdown, rc_dones := 1\<rparr>" by (simp add: s)
    have "\<not> pends ?s ?n x" using pending_lt_next(1) [OF q] by (auto simp: pends_def s)
    moreover have "\<not> holds (cl_recv ?s) ?n" using pending_lt_next(2) [OF q] by (auto simp: holds_iff s)
    ultimately show "call_ok (pends ?s ?n x) (holds (cl_recv ?s) ?n) (cl_recv ?s = RStopped) x"
      by (simp add: call_ok_def x new_call_def)
  qed (simp_all add: s pends_def)
  ultimately show ?thesis ..
qed

lemma go_registered_inv:
  assumes q: "seqs_ok s" and c: "calls_ok s" and go: "\<not> (cl_closing s \<or> cl_shutdown s)"
    and bound: "Suc (cl_registered s) < 2 ^ 64 - 1" and nt: "cl_recv s \<noteq> RStopped"
  shows "seqs_ok (client_Go sm args s) \<and> calls_ok (client_Go sm args s)"
proof -
  let ?n = "cl_next s" and ?s = "client_Go sm args s" and ?q = "cl_seq s"
  note s = client_Go_registered [OF go, of sm args]
  have seq: "seq_of ?s = (seq_of s)(?n \<mapsto> ?q)"
    by (auto simp: s seq_of_def fun_eq_iff new_call_def)
  have old: "seq_of s d = Some p \<Longrightarrow> d \<noteq> ?n" for d p
    using seqs_okD(7) [OF q, of d] by auto
  have q1: "unat ?q = Suc (cl_registered s)" by (rule seqs_okD(8) [OF q])
  then have q0: "?q \<noteq> 0" by auto
  have q2: "unat (?q + 1) = Suc (Suc (cl_registered s))"
    using q1 bound by (simp add: unat_word_ariths)
  have fresh: "seq_of s d \<noteq> Some ?q" for d
    using seqs_okD(6) [OF q, of d ?q] q1 by auto
  have "seqs_ok ?s"
    unfolding seqs_ok_def seq
  proof (intro conjI allI impI)
    fix d e p assume "((seq_of s)(?n \<mapsto> ?q)) d = Some p" "((seq_of s)(?n \<mapsto> ?q)) e = Some p" "p \<noteq> 0"
    then show "d = e" using seqs_okD(5) [OF q] fresh by (auto split: if_splits)
  next
    fix d p assume "cl_pending ?s p = Some d"
    then have "p = ?q \<and> d = ?n \<or> seq_of s d = Some p \<and> p \<noteq> 0"
      using seqs_okD(1) [OF q] by (auto simp: s split: if_splits)
    with old q0 show "((seq_of s)(?n \<mapsto> ?q)) d = Some p" and "p \<noteq> 0" by auto
  next
    fix h d assume "cl_recv ?s = RCall h (Some d)"
    then have "seq_of s d = Some (h_Seq h)" using seqs_okD(2) [OF q] by (simp add: s)
    with old show "((seq_of s)(?n \<mapsto> ?q)) d = Some (h_Seq h)" by auto
  next
    fix d p assume "((seq_of s)(?n \<mapsto> ?q)) d = Some p"
    then show "unat p \<le> cl_registered ?s"
      using seqs_okD(6) [OF q, of d p] q1 by (auto simp: s split: if_splits)
  next
    show "unat (cl_seq ?s) = Suc (cl_registered ?s)" using q2 by (simp add: s)
  next
    fix d show "((seq_of s)(?n \<mapsto> ?q)) d = None \<longleftrightarrow> cl_next ?s \<le> d"
      using seqs_okD(7) [OF q, of d] by (simp add: s) linarith
  next
    fix d p assume "cl_send ?s = SWrite d p \<or> (\<exists>e. cl_send ?s = SFailed d p e)"
    then show "((seq_of s)(?n \<mapsto> ?q)) d = Some p" by (simp add: s)
  qed
  moreover have "calls_ok ?s"
  proof (rule calls_ok_one [OF c, where c = ?n])
    fix d x assume "d \<noteq> ?n" "cl_calls s d = Some x"
    with fresh [of d] show "pends ?s d x = pends s d x"
      by (simp add: pends_def s seq_of_def)
  next
    fix x assume "cl_calls ?s ?n = Some x"
    then have x: "x = (new_call sm args)\<lparr>rc_Seq := ?q\<rparr>" by (simp add: s)
    have "pends ?s ?n x" by (simp add: pends_def s x)
    moreover have "\<not> holds (cl_recv ?s) ?n" using pending_lt_next(2) [OF q] by (auto simp: holds_iff s)
    ultimately show "call_ok (pends ?s ?n x) (holds (cl_recv ?s) ?n) (cl_recv ?s = RStopped) x"
      using nt by (simp add: call_ok_def x new_call_def s)
  qed (simp_all add: s)
  ultimately show ?thesis ..
qed

lemma client_Close_inv:
  assumes "seqs_ok s" and "calls_ok s"
  shows "seqs_ok (snd (client_Close s)) \<and> calls_ok (snd (client_Close s))"
proof -
  have "seqs_ok (snd (client_Close s))"
    using seqs_okD(2-4) [OF assms(1)]
    by (cases "cl_closing s"; intro seqs_ok_same [OF assms(1)])
      (auto simp: client_Close_def seq_of_def fun_eq_iff)
  moreover have "calls_ok (snd (client_Close s))"
    by (cases "cl_closing s"; intro calls_ok_same [OF assms(2)]) (auto simp: client_Close_def pends_def)
  ultimately show ?thesis ..
qed

lemma cl_registered_simps [simp]:
  "cl_registered (send_write enc c q x s) = cl_registered s"
  "cl_registered (send_cleanup q err s) = cl_registered s"
  "cl_registered (recv_header g s) = cl_registered s"
  "cl_registered (recv_remove h s) = cl_registered s"
  "cl_registered (recv_body dec h a s) = cl_registered s"
  "cl_registered (terminateCalls err s) = cl_registered s"
  "cl_registered (call_expire c y s) = cl_registered s"
  "cl_registered (snd (client_Close s)) = cl_registered s"
  by (auto simp: send_write_def send_cleanup_def recv_header_def recv_remove_def recv_body_def
      terminateCalls_def call_expire_def client_Close_def removeCall_def Let_def
      split: prod.splits option.splits sum.splits)

lemma client_step_registered:
  assumes "client_step g dec enc s s'"
  shows "cl_registered s \<le> cl_registered s'"
  using assms
proof cases
  case (go sm args)
  then show ?thesis
    by (cases "cl_closing s \<or> cl_shutdown s") (simp_all add: client_Go_refused client_Go_registered)
qed simp_all

text \<open>The receiver stops only through \<open>terminateCalls\<close>, and then nobody sends any more.\<close>

lemma client_step_stopped:
  assumes "client_step g dec enc s s'"
    and inv: "cl_recv s = RStopped \<longrightarrow> cl_shutdown s \<and> cl_send s = SIdle"
  shows "cl_recv s' = RStopped \<longrightarrow> cl_shutdown s' \<and> cl_send s' = SIdle"
  using assms(1)
proof cases
  case (go sm args)
  with inv show ?thesis
    by (cases "cl_closing s \<or> cl_shutdown s") (auto simp: client_Go_refused client_Go_registered)
next
  case (do_write c q x)
  with inv show ?thesis by (auto simp: send_write_def split: prod.splits option.splits)
next
  case (cleanup c q err)
  with inv show ?thesis
    by (auto simp: send_cleanup_def removeCall_def split: option.splits)
next
  case header
  then show ?thesis by (auto simp: recv_header_def split: prod.splits sum.splits)
next
  case (take_call h)
  then show ?thesis by (simp add: recv_remove_def Let_def split: prod.splits)
next
  case (body h c)
  then show ?thesis
    using recv_next_simps by (auto simp: recv_body_def split: prod.splits sum.splits option.splits)
next
  case (terminate err)
  then show ?thesis by (simp add: terminateCalls_def)
next
  case close
  with inv show ?thesis by (auto simp: client_Close_def)
qed (use inv in \<open>auto simp: call_expire_def\<close>)

lemma client_step_ok:
  assumes "client_step g dec enc s s'" and q: "seqs_ok s" and c: "calls_ok s"
    and stop: "cl_recv s = RStopped \<longrightarrow> cl_shutdown s \<and> cl_send s = SIdle"
    and bound: "cl_registered s' < 2 ^ 64 - 1"
  shows "seqs_ok s' \<and> calls_ok s'"
  using assms(1)
proof cases
  case (go sm args)
  show ?thesis
  proof (cases "cl_closing s \<or> cl_shutdown s")
    case True
    from go_refused_inv [OF q c this go(2)] show ?thesis by (simp add: go)
  next
    case False
    with stop bound show ?thesis
      using go_registered_inv [OF q c False, of sm args] by (auto simp: go client_Go_registered)
  qed
next
  case (do_write a p x)
  with send_write_inv [OF q c] show ?thesis by simp
next
  case (cleanup a p err)
  with send_cleanup_inv [OF q c cleanup(2)] stop show ?thesis by fastforce
next
  case header
  with recv_header_inv [OF q c] show ?thesis by simp
next
  case (take_call h)
  with recv_remove_inv [OF q c] show ?thesis by simp
next
  case (body h a)
  with recv_body_inv [OF q c] show ?thesis by simp
next
  case (terminate err)
  with terminate_inv [OF q c] show ?thesis by simp
next
  case (receive_done a x)
  moreover have "rc_dones x = 1"
    using c [unfolded calls_ok_def, rule_format, OF receive_done(2)] receive_done(5)
    by (auto simp: call_ok_def)
  ultimately show ?thesis using set_status_inv [OF q c] by simp
next
  case (expire a x)
  with expire_inv [OF q c] show ?thesis by simp
next
  case close
  with client_Close_inv [OF q c] show ?thesis by simp
qed

lemma client_step_inv:
  assumes step: "client_step g dec enc s s'" and inv: "client_inv s"
  shows "client_inv s'"
proof -
  have "seqs_ok s' \<and> calls_ok s'" if "cl_registered s' < 2 ^ 64 - 1"
    using client_step_ok [OF step] client_step_registered [OF step] inv that
    unfolding client_inv_def by auto
  with client_step_stopped [OF step] inv show ?thesis unfolding client_inv_def by blast
qed

definition client_start :: "('b, 'v, 'r) client \<Rightarrow> bool" where
  "client_start s \<longleftrightarrow> (\<exists>cc. s = client_new cc)"

lemma client_start_inv: "client_start s \<Longrightarrow> client_inv s"
  by (auto simp: client_start_def client_new_def client_inv_def seqs_ok_def calls_ok_def seq_of_def)

interpretation rpc_client: invariant_system client_start "client_step g dec enc" client_inv
  for g dec enc
  by unfold_locales (simp_all add: client_start_inv client_step_inv)

section \<open>A demo run\<close>

text \<open>One call that is sent, answered with number 1, and then the server closes the connection.\<close>

definition demo_cg :: "string \<Rightarrow> goerror + header" where
  "demo_cg b = Inl ''gob: type mismatch''"

fun demo_cdec :: "string message \<Rightarrow> goerror + nat" where
  "demo_cdec (HeaderMsg h) = Inl ''gob: type mismatch''"
| "demo_cdec (BodyMsg b) = Inr (length b)"

definition demo_cenc :: "nat \<Rightarrow> goerror + string" where
  "demo_cenc n = Inr (replicate n (CHR ''x''))"

definition demo_h1 :: header where
  "demo_h1 = \<lparr>ServiceMethod = ''Foo.Sum'', h_Seq = 1, h_Error = ''''\<rparr>"

definition demo_sent :: "(nat, nat) rpc_call" where
  "demo_sent = \<lparr>rc_Seq = 1, rc_ServiceMethod = ''Foo.Sum'', rc_Args = 2, rc_Reply = None,
     rc_Error = None, rc_dones = 0, rc_answer = None, rc_status = Awaited\<rparr>"

definition demo_answered :: "(nat, nat) rpc_call" where
  "demo_answered = demo_sent\<lparr>rc_Reply := Some 3, rc_dones := 1, rc_answer := Some demo_h1\<rparr>"

definition demo_state ::
    "string message list \<Rightarrow> string message list \<Rightarrow> bool \<Rightarrow> (nat, nat) rpc_call \<Rightarrow> send_pc \<Rightarrow> recv_pc
       \<Rightarrow> (string, nat, nat) client" where
  "demo_state input output waiting x sp rp =
     \<lparr>cl_cc = \<lparr>conn_in = input, conn_out = output, conn_up = True, conn_closed = False, buf = [], buf_err = None\<rparr>,
      cl_seq = 2, cl_pending = (if waiting then [1 \<mapsto> 0] else (\<lambda>_. None)), cl_closing = False,
      cl_shutdown = (rp = RStopped), cl_calls = [0 \<mapsto> x], cl_next = 1, cl_registered = 1,
      cl_send = sp, cl_recv = rp\<rparr>"

definition demo_client :: "nat \<Rightarrow> (string, nat, nat) client" where
  "demo_client n =
     (let i = [HeaderMsg demo_h1, BodyMsg ''abc'']; out = [HeaderMsg demo_h1, BodyMsg ''xx''] in
      if n = 0 then client_new (NewGobCodec i True)
      else if n = 1 then demo_state i [] True demo_sent (SWrite 0 1) RRead
      else if n = 2 then demo_state i out True demo_sent SIdle RRead
      else if n = 3 then demo_state [BodyMsg ''abc''] out True demo_sent SIdle (RHeader demo_h1)
      else if n = 4 then demo_state [BodyMsg ''abc''] out False demo_sent SIdle (RCall demo_h1 (Some 0))
      else if n = 5 then demo_state [] out False demo_answered SIdle RRead
      else if n = 6 then demo_state [] out False demo_answered SIdle (RTerminate err_EOF)
      else demo_state [] out False demo_answered SIdle RStopped)"

lemma demo_step_1: "client_step demo_cg demo_cdec demo_cenc (demo_client 0) (demo_client 1)"
  using client_step.go [of "demo_client 0" demo_cg demo_cdec demo_cenc "''Foo.Sum''" 2]
  by (simp add: demo_client_def client_new_def client_Go_registered NewGobCodec_def new_call_def
      demo_state_def demo_sent_def)

lemma demo_step_2: "client_step demo_cg demo_cdec demo_cenc (demo_client 1) (demo_client 2)"
  using client_step.do_write [of "demo_client 1" 0 1 demo_sent demo_cg demo_cdec demo_cenc]
  by (simp add: demo_client_def demo_state_def send_write_def gob_Write_def gob_encode_def
      buf_Flush_def demo_cenc_def demo_sent_def demo_h1_def numeral_2_eq_2)

lemma demo_step_3: "client_step demo_cg demo_cdec demo_cenc (demo_client 2) (demo_client 3)"
  using client_step.header [of "demo_client 2" demo_cg demo_cdec demo_cenc]
  by (simp add: demo_client_def demo_state_def recv_header_def ReadHeader_def gob_decode_def)

lemma demo_step_4: "client_step demo_cg demo_cdec demo_cenc (demo_client 3) (demo_client 4)"
  using client_step.take_call [of "demo_client 3" demo_h1 demo_cg demo_cdec demo_cenc]
  by (simp add: demo_client_def demo_state_def recv_remove_def removeCall_def demo_h1_def)

lemma demo_step_5: "client_step demo_cg demo_cdec demo_cenc (demo_client 4) (demo_client 5)"
  using client_step.body [of "demo_client 4" demo_h1 "Some 0" demo_cg demo_cdec demo_cenc]
  by (simp add: demo_client_def demo_state_def recv_body_def ReadBody_def gob_decode_def demo_h1_def
      finish_call_def demo_answered_def demo_sent_def numeral_3_eq_3)

lemma demo_step_6: "client_step demo_cg demo_cdec demo_cenc (demo_client 5) (demo_client 6)"
  using client_step.header [of "demo_client 5" demo_cg demo_cdec demo_cenc]
  by (simp add: demo_client_def demo_state_def recv_header_def ReadHeader_def gob_decode_def)

lemma terminateCalls_none: "cl_pending s = (\<lambda>_. None) \<Longrightarrow> terminateCalls e s = s\<lparr>cl_shutdown := True\<rparr>"
  by (simp add: terminateCalls_def)

lemma demo_step_7: "client_step demo_cg demo_cdec demo_cenc (demo_client 6) (demo_client 7)"
  using client_step.terminate [of "demo_client 6" err_EOF demo_cg demo_cdec demo_cenc]
  by (simp add: demo_client_def demo_state_def terminateCalls_none)

lemma demo_client_start: "client_start (demo_client 0)"
  by (auto simp: client_start_def demo_client_def)

lemma demo_client_answered:
  "(client_step demo_cg demo_cdec demo_cenc)\<^sup>*\<^sup>* (demo_client 0) (demo_client 5)"
  using demo_step_1 demo_step_2 demo_step_3 demo_step_4 demo_step_5
  by (meson rtranclp.rtrancl_into_rtrancl rtranclp.rtrancl_refl)

lemma demo_client_stopped:
  "(client_step demo_cg demo_cdec demo_cenc)\<^sup>*\<^sup>* (demo_client 0) (demo_client 7)"
  using demo_client_answered demo_step_6 demo_step_7 by (meson rtranclp.rtrancl_into_rtrancl)

section \<open>Properties\<close>

lemma client_reachable_ok:
  assumes "client_start s0" and "(client_step g dec enc)\<^sup>*\<^sup>* s0 s" and "cl_registered s < 2 ^ 64 - 1"
  shows "seqs_ok s" and "calls_ok s" and "cl_recv s = RStopped \<Longrightarrow> cl_shutdown s \<and> cl_send s = SIdle"
  using rpc_client.run_inv [OF assms(1,2)] assms(3) unfolding client_inv_def by blast+

text \<open>C25: Responses and calls are matched.  However the callers, the receiver, timeouts of contexts
  and failing connections interleave, and as long as the 64-bit counter has not wrapped around: a
  call is sent on its \<open>Done\<close> channel at most once, so \<open>done\<close> never blocks; no two calls share a
  number; the response that completes a call carries the call's own number; and a call that is
  completed without an error holds a reply that came with an error-free header of that number.\<close>

theorem client_matches_responses:
  assumes "client_start s0" and "(client_step g dec enc)\<^sup>*\<^sup>* s0 s" and "cl_registered s < 2 ^ 64 - 1"
    and "cl_calls s c = Some x"
  shows "rc_dones x \<le> 1
       \<and> (\<forall>d y. cl_calls s d = Some y \<longrightarrow> rc_Seq y = rc_Seq x \<longrightarrow> rc_Seq x \<noteq> 0 \<longrightarrow> d = c)
       \<and> (\<forall>h. rc_answer x = Some h \<longrightarrow> h_Seq h = rc_Seq x)
       \<and> (rc_dones x = 1 \<longrightarrow> rc_Error x = None \<longrightarrow>
            rc_Reply x \<noteq> None \<and> (\<exists>h. rc_answer x = Some h \<and> h_Error h = ''''))"
proof -
  note ok = client_reachable_ok [OF assms(1-3)]
  have "call_ok (pends s c x) (holds (cl_recv s) c) (cl_recv s = RStopped) x"
    using ok(2) assms(4) by (simp add: calls_ok_def)
  moreover have "d = c" if "cl_calls s d = Some y" "rc_Seq y = rc_Seq x" "rc_Seq x \<noteq> 0" for d y
    using seqs_okD(5) [OF ok(1), of d "rc_Seq x" c] that assms(4) by (simp add: seq_of_def)
  ultimately show ?thesis unfolding call_ok_def by blast
qed

theorem client_matches_responses_witness:
  "rc_dones demo_answered \<le> 1 \<and> (\<exists>h. rc_answer demo_answered = Some h \<and> h_Error h = '''')"
  using client_matches_responses [OF demo_client_start demo_client_answered, of 0 demo_answered]
  by (simp add: demo_client_def demo_state_def demo_answered_def demo_sent_def)

text \<open>C26: No call is lost.  At every moment a call that was started is completed, abandoned by its
  caller's context, waiting in the map of pending calls, or in the hands of the receiver; once the
  receiver has stopped, every call that was not abandoned has been completed, and every later call
  completes at once with \<open>ErrShutdown\<close>.\<close>

theorem client_loses_no_call:
  assumes "client_start s0" and "(client_step g dec enc)\<^sup>*\<^sup>* s0 s" and "cl_registered s < 2 ^ 64 - 1"
    and "cl_calls s c = Some x"
  shows "(rc_dones x = 1 \<or> rc_status x = Expired \<or> cl_pending s (rc_Seq x) = Some c
            \<or> (\<exists>h. cl_recv s = RCall h (Some c)))
       \<and> (cl_recv s = RStopped \<longrightarrow>
            (rc_dones x = 1 \<or> rc_status x = Expired)
            \<and> (\<forall>sm args. \<exists>y. cl_calls (client_Go sm args s) (cl_next s) = Some y
                 \<and> rc_dones y = 1 \<and> rc_Error y = Some ErrShutdown))"
proof -
  note ok = client_reachable_ok [OF assms(1-3)]
  have "call_ok (pends s c x) (holds (cl_recv s) c) (cl_recv s = RStopped) x"
    using ok(2) assms(4) by (simp add: calls_ok_def)
  then show ?thesis
    using ok(3) by (auto simp: call_ok_def pends_def holds_iff client_Go_refused)
qed

theorem client_loses_no_call_witness:
  "cl_recv (demo_client 7) = RStopped \<and> (rc_dones demo_answered = 1 \<or> rc_status demo_answered = Expired)"
  using client_loses_no_call [OF demo_client_start demo_client_stopped, of 0 demo_answered]
  by (simp add: demo_client_def demo_state_def)

end
