(* ===== verification/Registry.thy ===== *)
theory Registry
  imports GoStrings "HOL-Library.List_Lexorder" "HOL-Library.Char_ord"
begin

text \<open>
  The registry of \<^verbatim>\<open>geerpc/registry/registry.go\<close>: servers announce themselves with heartbeats and
  are dropped when their last heartbeat is older than the timeout.  Times and durations are
  nanoseconds.  The Go map is an association list without duplicate keys; the order in which Go
  iterates over a map is arbitrary, and so is the order of the list.
\<close>

section \<open>State and operations\<close>

record server_item =
  item_Addr :: string
  item_start :: int

record registry =
  reg_timeout :: int
  reg_servers :: "(string \<times> server_item) list"

definition minute :: int where "minute = 60 * 10 ^ 9"

definition defaultTimeout :: int where "defaultTimeout = 5 * minute"

definition registry_new :: "int \<Rightarrow> registry" where
  "registry_new t = \<lparr>reg_timeout = t, reg_servers = []\<rparr>"

definition putServer :: "int \<Rightarrow> string \<Rightarrow> registry \<Rightarrow> registry" where
  "putServer now addr r =
     (case map_of (reg_servers r) addr of
        None \<Rightarrow> r\<lparr>reg_servers := (addr, \<lparr>item_Addr = addr, item_start = now\<rparr>) # reg_servers r\<rparr>
      | Some s \<Rightarrow>
          r\<lparr>reg_servers := map (\<lambda>p. if fst p = addr then (addr, s\<lparr>item_start := now\<rparr>) else p) (reg_servers r)\<rparr>)"

definition is_alive :: "int \<Rightarrow> registry \<Rightarrow> server_item \<Rightarrow> bool" where
  "is_alive now r s \<longleftrightarrow> reg_timeout r = 0 \<or> now < item_start s + reg_timeout r"

text \<open>The clock is read anew for every entry of the map: \<open>clk a\<close> is the time when the entry of \<open>a\<close> is looked
  at.\<close>

definition aliveServers :: "(string \<Rightarrow> int) \<Rightarrow> registry \<Rightarrow> string list \<times> registry" where
  "aliveServers clk r =
     (let alive = filter (\<lambda>p. is_alive (clk (fst p)) r (snd p)) (reg_servers r)
      in (sort (map fst alive), r\<lparr>reg_servers := alive\<rparr>))"

text \<open>The handler: the status code, the value of \<^verbatim>\<open>X-Geerpc-Servers\<close>, and the new state.\<close>

definition Registry_ServeHTTP :: "(string \<Rightarrow> int) \<Rightarrow> string \<Rightarrow> string \<Rightarrow> registry \<Rightarrow> nat \<times> string \<times> registry" where
  "Registry_ServeHTTP clk method addr r =
     (if method = ''GET'' then (let (alive, r') = aliveServers clk r in (200, join '','' alive, r'))
      else if method = ''POST'' then
        (if addr = '''' then (500, '''', r) else (200, '''', putServer (clk addr) addr r))
      else (405, '''', r))"

text \<open>
  \<open>Heartbeat\<close>: \<open>outcomes\<close> are the errors of the successive sends, the first one before the
  goroutine starts.  The loop of the goroutine waits for a tick and sends, while the last send
  succeeded; the sends that are made are returned.
\<close>

definition heartbeat_duration :: "int \<Rightarrow> int" where
  "heartbeat_duration d = (if d = 0 then defaultTimeout - 1 * minute else d)"

fun heartbeat_loop :: "goerror option \<Rightarrow> goerror option list \<Rightarrow> goerror option list" where
  "heartbeat_loop (Some err) outcomes = []"
| "heartbeat_loop None [] = []"
| "heartbeat_loop None (r # outcomes) = r # heartbeat_loop r outcomes"

definition Heartbeat :: "goerror option list \<Rightarrow> goerror option list" where
  "Heartbeat outcomes =
     (case outcomes of [] \<Rightarrow> [] | r # rs \<Rightarrow> r # heartbeat_loop r rs)"

section \<open>Lemmas\<close>

definition reg_inv :: "registry \<Rightarrow> bool" where
  "reg_inv r \<longleftrightarrow> distinct (map fst (reg_servers r)) \<and> (\<forall>p \<in> set (reg_servers r). item_Addr (snd p) = fst p)"

definition last_beat :: "registry \<Rightarrow> string \<rightharpoonup> int" where
  "last_beat r addr = map_option item_start (map_of (reg_servers r) addr)"

lemma map_of_map_same_key:
  "map_of (map (\<lambda>p. if fst p = a then (a, v) else p) xs) k
     = (if k = a then map_option (\<lambda>_. v) (map_of xs k) else map_of xs k)"
  by (induction xs) auto

lemma putServer_timeout [simp]: "reg_timeout (putServer now a r) = reg_timeout r"
  by (simp add: putServer_def split: option.splits)

lemma putServer_last_beat: "last_beat (putServer now a r) = (last_beat r)(a \<mapsto> now)"
proof (cases "map_of (reg_servers r) a")
  case None
  then show ?thesis by (simp add: putServer_def last_beat_def fun_eq_iff)
next
  case (Some s)
  then show ?thesis
    by (auto simp: putServer_def last_beat_def fun_eq_iff map_of_map_same_key)
qed

lemma putServer_inv: "reg_inv r \<Longrightarrow> reg_inv (putServer now a r)"
proof (cases "map_of (reg_servers r) a")
  case None
  then have "a \<notin> fst ` set (reg_servers r)" by (simp add: map_of_eq_None_iff)
  moreover assume "reg_inv r"
  ultimately show ?thesis using None by (simp add: putServer_def reg_inv_def)
next
  case (Some s)
  let ?xs = "map (\<lambda>p. if fst p = a then (a, s\<lparr>item_start := now\<rparr>) else p) (reg_servers r)"
  assume inv: "reg_inv r"
  have "map fst ?xs = map fst (reg_servers r)" by (auto simp: o_def)
  with inv have "distinct (map fst ?xs)" by (simp only: reg_inv_def)
  moreover have "(a, s) \<in> set (reg_servers r)" using Some by (rule map_of_SomeD)
  with inv have "\<forall>p \<in> set ?xs. item_Addr (snd p) = fst p" by (auto simp: reg_inv_def)
  ultimately show ?thesis using Some by (simp add: putServer_def reg_inv_def)
qed

lemma aliveServers_members:
  assumes "reg_inv r"
  shows "set (fst (aliveServers clk r)) =
    {a. \<exists>t. last_beat r a = Some t \<and> (reg_timeout r = 0 \<or> clk a < t + reg_timeout r)}"
    (is "?l = ?r")
proof -
  have "a \<in> ?l \<longleftrightarrow> (\<exists>s. (a, s) \<in> set (reg_servers r) \<and> is_alive (clk a) r s)" for a
    by (force simp: aliveServers_def Let_def)
  moreover have "(a, s) \<in> set (reg_servers r) \<longleftrightarrow> map_of (reg_servers r) a = Some s" for a s
    using assms by (simp add: reg_inv_def)
  ultimately show ?thesis by (auto simp: last_beat_def is_alive_def)
qed

lemma aliveServers_sorted: "sorted (fst (aliveServers clk r))" and
  aliveServers_distinct: "reg_inv r \<Longrightarrow> distinct (fst (aliveServers clk r))"
  by (simp_all add: aliveServers_def Let_def reg_inv_def distinct_map_fst_filter)

lemma aliveServers_inv: "reg_inv r \<Longrightarrow> reg_inv (snd (aliveServers clk r))"
  by (simp add: aliveServers_def Let_def reg_inv_def distinct_map_fst_filter)

lemma aliveServers_last_beat:
  assumes "reg_inv r"
  shows "last_beat (snd (aliveServers clk r)) a =
     (case last_beat r a of
        None \<Rightarrow> None
      | Some t \<Rightarrow> if reg_timeout r = 0 \<or> clk a < t + reg_timeout r then Some t else None)"
proof -
  have "map_of (filter (\<lambda>p. P (fst p) (snd p)) xs) a
      = (case map_of xs a of None \<Rightarrow> None | Some s \<Rightarrow> if P a s then Some s else None)"
    if "distinct (map fst xs)" for P and xs :: "(string \<times> server_item) list"
    using that by (induction xs) (auto simp: map_of_eq_None_iff split: option.splits)
  from this [of "reg_servers r" "\<lambda>a. is_alive (clk a) r"] assms show ?thesis
    by (auto simp: aliveServers_def Let_def last_beat_def reg_inv_def is_alive_def split: option.splits)
qed

end
