(* ===== verification/Heartbeats.thy ===== *)
theory Heartbeats
  imports Registry
begin

text \<open>
  The heartbeats of \<^verbatim>\<open>geerpc/registry/registry.go\<close> (\<open>Heartbeat\<close> and \<open>sendHeartbeat\<close>) as they are made over HTTP, and
  what a registry makes of them.  The HTTP client and the clock of the server that announces itself
  are a record of functions on a world; the world of the property is the clock, the number of posts so far
  and the registry that serves them, through a network that may lose a request or its answer.
\<close>

section \<open>Sending\<close>

text \<open>
  \<open>hb_parses\<close> says whether \<open>http.NewRequest\<close> accepts the URL; \<open>hb_Do\<close> sends a POST with the value of the
  header \<^verbatim>\<open>X-Geerpc-Server\<close>, and returns an error of the client or the status of the answer; \<open>hb_wait\<close>
  waits for the next tick.
\<close>

record 'w heartbeat_env =
  hb_parses :: "string \<Rightarrow> bool"
  hb_Do :: "string \<Rightarrow> string \<Rightarrow> 'w \<Rightarrow> (goerror + nat) \<times> 'w"
  hb_wait :: "int \<Rightarrow> 'w \<Rightarrow> 'w"

text \<open>
  One heartbeat.  The error of \<open>NewRequest\<close> is dropped, and then the header of a nil request is set;
  of the answer to the post, only an error of the client counts, its status is not looked at.
\<close>

definition sendHeartbeat ::
    "'w heartbeat_env \<Rightarrow> string \<Rightarrow> string \<Rightarrow> 'w \<Rightarrow> (goerror option \<times> 'w) outcome" where
  "sendHeartbeat env url addr w =
     (if \<not> hb_parses env url then Panic ''invalid memory address or nil pointer dereference''
      else (case hb_Do env url addr w of
              (Inl err, w') \<Rightarrow> Ret (Some err, w')
            | (Inr status, w') \<Rightarrow> Ret (None, w')))"

text \<open>The loop of the goroutine, for at most \<open>n\<close> ticks; the sends that it makes are returned.\<close>

fun heartbeat_ticks ::
    "'w heartbeat_env \<Rightarrow> string \<Rightarrow> string \<Rightarrow> int \<Rightarrow> nat \<Rightarrow> goerror option \<Rightarrow> 'w
       \<Rightarrow> (goerror option list \<times> 'w) outcome" where
  "heartbeat_ticks env url addr d n (Some err) w = Ret ([], w)"
| "heartbeat_ticks env url addr d 0 None w = Ret ([], w)"
| "heartbeat_ticks env url addr d (Suc n) None w =
     bind_outcome (sendHeartbeat env url addr (hb_wait env d w)) (\<lambda>(err, w').
       bind_outcome (heartbeat_ticks env url addr d n err w') (\<lambda>(sends, w'').
         Ret (err # sends, w'')))"

text \<open>\<open>Heartbeat\<close>: the first send, then the ticker, which panics on a negative duration, and the loop.\<close>

definition heartbeat_run ::
    "'w heartbeat_env \<Rightarrow> string \<Rightarrow> string \<Rightarrow> int \<Rightarrow> nat \<Rightarrow> 'w \<Rightarrow> (goerror option list \<times> 'w) outcome" where
  "heartbeat_run env url addr duration n w =
     (let d = heartbeat_duration duration in
      bind_outcome (sendHeartbeat env url addr w) (\<lambda>(err, w').
        if d \<le> 0 then Panic ''non-positive interval for NewTicker''
        else bind_outcome (heartbeat_ticks env url addr d n err w') (\<lambda>(sends, w'').
          Ret (err # sends, w''))))"

text \<open>The sends that are made are those that \<open>Heartbeat\<close> makes when the sends end as they do.\<close>

lemma heartbeat_ticks_loop:
  "heartbeat_ticks env url addr d n err w = Ret (sends, w') \<Longrightarrow> heartbeat_loop err sends = sends"
proof (induction env url addr d n err w arbitrary: sends w' rule: heartbeat_ticks.induct)
  case (3 env url addr d n w)
  then obtain err w1 rest w2 where
    "sendHeartbeat env url addr (hb_wait env d w) = Ret (err, w1)"
    "heartbeat_ticks env url addr d n err w1 = Ret (rest, w2)" "sends = err # rest"
    by (auto simp: bind_outcome_Ret_iff)
  with "3.IH" show ?case by fastforce
qed simp_all

lemma heartbeat_run_sends:
  assumes "heartbeat_run env url addr duration n w = Ret (sends, w')"
  shows "Heartbeat sends = sends"
  using assms heartbeat_ticks_loop
  by (fastforce simp: heartbeat_run_def Heartbeat_def Let_def bind_outcome_Ret_iff split: if_splits)

section \<open>What the registry makes of it\<close>

text \<open>
  The value of a header: \<^verbatim>\<open>net/http\<close> refuses to send control characters other than a tab, and strips white
  space from both ends.
\<close>

definition valid_header_value :: "string \<Rightarrow> bool" where
  "valid_header_value s \<longleftrightarrow>
     list_all (\<lambda>c. c = CHR 0x09 \<or> (32 \<le> (of_char c :: nat) \<and> of_char c \<noteq> (127 :: nat))) s"

definition header_space :: "char \<Rightarrow> bool" where
  "header_space c \<longleftrightarrow> c \<in> {CHR '' '', CHR 0x09, CHR 0x0A, CHR 0x0D}"

definition header_trim :: "string \<Rightarrow> string" where
  "header_trim s = rev (dropWhile header_space (rev (dropWhile header_space s)))"

datatype post_fate = Delivered | RequestLost goerror | AnswerLost goerror

text \<open>A post at the registry: \<open>net i\<close> is the fate of the \<open>i\<close>-th one.\<close>

type_synonym beat_world = "int \<times> nat \<times> registry"

definition registry_post ::
    "(nat \<Rightarrow> post_fate) \<Rightarrow> string \<Rightarrow> string \<Rightarrow> beat_world \<Rightarrow> (goerror + nat) \<times> beat_world" where
  "registry_post net url addr w =
     (case w of (now, i, r) \<Rightarrow>
        if \<not> valid_header_value addr
        then (Inl ''net/http: invalid header field value for \"X-Geerpc-Server\"'', (now, i, r))
        else (case Registry_ServeHTTP (\<lambda>_. now) ''POST'' (header_trim addr) r of
                (status, h, r') \<Rightarrow>
                  (case net i of
                     Delivered \<Rightarrow> (Inr status, (now, Suc i, r'))
                   | RequestLost err \<Rightarrow> (Inl err, (now, Suc i, r))
                   | AnswerLost err \<Rightarrow> (Inl err, (now, Suc i, r')))))"

definition registry_env :: "(nat \<Rightarrow> post_fate) \<Rightarrow> beat_world heartbeat_env" where
  "registry_env net =
     \<lparr>hb_parses = (\<lambda>_. True), hb_Do = registry_post net, hb_wait = (\<lambda>d (now, i, r). (now + d, i, r))\<rparr>"

text \<open>The registry after posts at the given times; an empty address is refused.\<close>

fun posted :: "string \<Rightarrow> int list \<Rightarrow> registry \<Rightarrow> registry" where
  "posted a [] r = r"
| "posted a (t # ts) r = posted a ts (if a = '''' then r else putServer t a r)"

lemma posted_empty [simp]: "posted '''' ts r = r"
  by (induction ts) simp_all

lemma posted_inv: "reg_inv r \<Longrightarrow> reg_inv (posted a ts r) \<and> reg_timeout (posted a ts r) = reg_timeout r"
  by (induction a ts r rule: posted.induct) (simp_all add: putServer_inv)

lemma posted_append: "posted a (ts @ us) r = posted a us (posted a ts r)"
  by (induction a ts r rule: posted.induct) simp_all

lemma posted_last_beat:
  assumes "a \<noteq> ''''" and "ts \<noteq> []"
  shows "last_beat (posted a ts r) a = Some (last ts)"
  using assms by (cases ts rule: rev_cases) (simp_all add: posted_append putServer_last_beat)

text \<open>One send on this network.\<close>

lemma send_registry:
  assumes "valid_header_value addr"
  shows "sendHeartbeat (registry_env net) url addr (now, i, r) =
    (case net i of
       Delivered \<Rightarrow> Ret (None, now, Suc i, posted (header_trim addr) [now] r)
     | RequestLost err \<Rightarrow> Ret (Some err, now, Suc i, r)
     | AnswerLost err \<Rightarrow> Ret (Some err, now, Suc i, posted (header_trim addr) [now] r))"
  using assms
  by (simp add: sendHeartbeat_def registry_env_def registry_post_def Registry_ServeHTTP_def split: post_fate.split)

text \<open>The network delivers the posts up to number \<open>k\<close> and fails with \<open>err\<close> on the next one; \<open>arriving\<close> posts
  reach the registry.\<close>

definition fails_after :: "(nat \<Rightarrow> post_fate) \<Rightarrow> nat \<Rightarrow> goerror \<Rightarrow> nat \<Rightarrow> bool" where
  "fails_after net k err arriving \<longleftrightarrow>
     (\<forall>i \<le> k. net i = Delivered) \<and>
     (net (Suc k) = RequestLost err \<and> arriving = Suc k \<or> net (Suc k) = AnswerLost err \<and> arriving = Suc (Suc k))"

lemma upt_Suc_shift: "map f [0..<Suc m] = f 0 # map (\<lambda>j. f (Suc j)) [0..<m]"
  by (simp add: upt_conv_Cons map_Suc_upt [symmetric] o_def del: upt_Suc)

lemma ticks_registry:
  assumes valid: "valid_header_value addr" and net: "fails_after net k err arriving" and "i \<le> Suc k"
  shows "\<exists>now' i'. heartbeat_ticks (registry_env net) url addr d n None (now, i, r)
    = Ret (take n (replicate (Suc k - i) None @ [Some err]), now', i',
        posted (header_trim addr) (map (\<lambda>j. now + int (Suc j) * d) [0..<min n (arriving - i)]) r)"
  using assms(3)
proof (induction n arbitrary: now i r)
  case (Suc n)
  let ?a = "header_trim addr"
  have wait: "hb_wait (registry_env net) d (now, i, r) = (now + d, i, r)" by (simp add: registry_env_def)
  show ?case
  proof (cases "i \<le> k")
    case True
    then have send: "sendHeartbeat (registry_env net) url addr (now + d, i, r)
        = Ret (None, now + d, Suc i, posted ?a [now + d] r)"
      using net valid by (simp add: send_registry fails_after_def)
    have arr: "arriving - i = Suc (arriving - Suc i)" and diff: "Suc k - i = Suc (k - i)"
      using net True by (auto simp: fails_after_def)
    from Suc.IH [of "Suc i" "now + d" "posted ?a [now + d] r"] True obtain now' i' where
      "heartbeat_ticks (registry_env net) url addr d n None (now + d, Suc i, posted ?a [now + d] r)
        = Ret (take n (replicate (k - i) None @ [Some err]), now', i',
            posted ?a (map (\<lambda>j. now + d + int (Suc j) * d) [0..<min n (arriving - Suc i)]) (posted ?a [now + d] r))"
      by auto
    moreover have "map (\<lambda>j. now + int (Suc j) * d) [0..<Suc m] = (now + d) # map (\<lambda>j. now + d + int (Suc j) * d) [0..<m]"
      for m unfolding upt_Suc_shift by (simp add: algebra_simps)
    ultimately show ?thesis
      by (simp add: wait send arr diff del: upt_Suc map_upt_Suc)
  next
    case False
    with Suc.prems have i: "i = Suc k" by simp
    show ?thesis
      using net valid wait [unfolded i] unfolding i by (auto simp: send_registry fails_after_def)
  qed
qed simp

lemma run_registry:
  assumes valid: "valid_header_value addr" and net: "fails_after net k err arriving"
    and "d = heartbeat_duration duration" and "d > 0"
  shows "\<exists>now' i'. heartbeat_run (registry_env net) url addr duration n (t0, 0, r)
    = Ret (take (Suc n) (replicate (Suc k) None @ [Some err]), now', i',
        posted (header_trim addr) (map (\<lambda>j. t0 + int j * d) [0..<Suc (min n (arriving - 1))]) r)"
proof -
  have "net 0 = Delivered" using net by (simp add: fails_after_def)
  moreover obtain now' i' where
    "heartbeat_ticks (registry_env net) url addr d n None (t0, 1, posted (header_trim addr) [t0] r)
      = Ret (take n (replicate k None @ [Some err]), now', i',
          posted (header_trim addr) (map (\<lambda>j. t0 + int (Suc j) * d) [0..<min n (arriving - 1)])
            (posted (header_trim addr) [t0] r))"
    using ticks_registry [OF valid net, of 1 url d n t0 "posted (header_trim addr) [t0] r"] by auto
  ultimately show ?thesis
    using valid assms(3,4) unfolding upt_Suc_shift
    by (simp add: heartbeat_run_def send_registry del: upt_Suc)
qed

section \<open>Properties\<close>

text \<open>C30: Heartbeats with the default settings, every four minutes against a timeout of five.  Let the
  network deliver the posts up to number \<open>k\<close> and fail on the next one, with or without that one reaching
  the registry.  Then exactly these posts are made and no other after the failure, although the server
  goes on serving.  If the address, as it arrives in the header, is not empty, it is listed at every
  moment until the tick after the last success, and not listed any more from five minutes after the
  last post that has arrived on.  If it arrives empty, the registry refuses every post with status
  500, which the server does not notice: it goes on in the same way, and the registry stays as it is.\<close>

theorem heartbeat_until_first_failure:
  assumes "reg_inv r" and "reg_timeout r = defaultTimeout" and "d = heartbeat_duration 0"
    and "valid_header_value addr" and "a = header_trim addr" and "fails_after net k err arriving"
  shows "\<exists>now' i' r'. heartbeat_run (registry_env net) url addr 0 n (t0, 0, r)
             = Ret (take (Suc n) (replicate (Suc k) None @ [Some err]), now', i', r')
           \<and> (a = '''' \<longrightarrow> r' = r)
           \<and> (a \<noteq> '''' \<longrightarrow> n \<le> k \<longrightarrow>
                (\<forall>clk. t0 + int n * d \<le> clk a \<and> clk a \<le> t0 + (int n + 1) * d \<longrightarrow> a \<in> set (fst (aliveServers clk r'))))
           \<and> (a \<noteq> '''' \<longrightarrow>
                (\<forall>clk. t0 + (int arriving - 1) * d + defaultTimeout \<le> clk a \<longrightarrow> a \<notin> set (fst (aliveServers clk r'))))"
proof -
  have d: "d = 4 * minute" "defaultTimeout = 5 * minute" "minute > 0"
    using assms(3) by (simp_all add: heartbeat_duration_def defaultTimeout_def minute_def)
  let ?m = "min n (arriving - 1)"
  let ?r = "posted a (map (\<lambda>j. t0 + int j * d) [0..<Suc ?m]) r"
  have inv: "reg_inv ?r" "reg_timeout ?r = defaultTimeout" using posted_inv [OF assms(1)] assms(2) by auto
  have arr: "arriving \<ge> Suc k" using assms(6) by (auto simp: fails_after_def)
  have beat: "last_beat ?r a = Some (t0 + int ?m * d)" if "a \<noteq> ''''"
    using posted_last_beat [OF that] by simp
  have timeout: "defaultTimeout \<noteq> 0" by (simp add: d(2) d(3) less_imp_neq [symmetric])
  have "a \<in> set (fst (aliveServers clk ?r))" if "a \<noteq> ''''" "n \<le> k" "clk a \<le> t0 + (int n + 1) * d" for clk
  proof -
    have "?m = n" using that(2) arr by simp
    then have "clk a < t0 + int ?m * d + defaultTimeout"
      using that(3) d by (simp add: algebra_simps)
    then show ?thesis using beat [OF that(1)] inv by (simp add: aliveServers_members)
  qed
  moreover have "a \<notin> set (fst (aliveServers clk ?r))"
    if "a \<noteq> ''''" "t0 + (int arriving - 1) * d + defaultTimeout \<le> clk a" for clk
  proof -
    have "int ?m * d \<le> (int arriving - 1) * d" using arr d by (intro mult_right_mono) (auto simp: d(1) min_def)
    with that(2) have "\<not> clk a < t0 + int ?m * d + defaultTimeout" by linarith
    then show ?thesis using beat [OF that(1)] inv timeout by (simp add: aliveServers_members)
  qed
  moreover obtain now' i' where "heartbeat_run (registry_env net) url addr 0 n (t0, 0, r)
      = Ret (take (Suc n) (replicate (Suc k) None @ [Some err]), now', i', ?r)"
    using run_registry [OF assms(4,6,3), of url n t0 r] d assms(5) by auto
  ultimately show ?thesis by (intro exI [of _ now'] exI [of _ i'] exI [of _ ?r]) auto
qed

definition drop_third :: "nat \<Rightarrow> post_fate" where
  "drop_third i = (if i = 2 then RequestLost ''connection refused'' else Delivered)"

theorem heartbeat_until_first_failure_witness:
  "\<exists>now' i' r'. heartbeat_run (registry_env drop_third) ''http://localhost:9999/_geerpc_/registry'' ''tcp@a'' 0 9 (0, 0, registry_new defaultTimeout)
       = Ret ([None, None, Some ''connection refused''], now', i', r')
     \<and> ''tcp@a'' \<notin> set (fst (aliveServers (\<lambda>_. 9 * minute) r'))"
proof -
  have reg: "reg_inv (registry_new defaultTimeout)" "reg_timeout (registry_new defaultTimeout) = defaultTimeout"
    by (simp_all add: reg_inv_def registry_new_def)
  have addr: "valid_header_value ''tcp@a''" "''tcp@a'' = header_trim ''tcp@a''"
    by (simp_all add: valid_header_value_def header_trim_def header_space_def)
  have net: "fails_after drop_third 1 ''connection refused'' 2"
    by (auto simp: fails_after_def drop_third_def)
  have "(0::int) + (int 2 - 1) * heartbeat_duration 0 + defaultTimeout \<le> 9 * minute"
    by (simp add: heartbeat_duration_def defaultTimeout_def minute_def)
  with heartbeat_until_first_failure [OF reg refl addr net,
      of "''http://localhost:9999/_geerpc_/registry''" 9 0] show ?thesis
    by (auto simp: numeral_eq_Suc)
qed

text \<open>An address that the header cannot carry ends the heartbeats with the first one, and a URL that does not
  parse is a panic.\<close>

lemma invalid_address_stops:
  "\<not> valid_header_value addr \<Longrightarrow>
     heartbeat_run (registry_env net) url addr 0 n (t0, i, r)
       = Ret ([Some ''net/http: invalid header field value for \"X-Geerpc-Server\"''], t0, i, r)"
  by (cases n) (simp_all add: heartbeat_run_def sendHeartbeat_def registry_env_def registry_post_def
      heartbeat_duration_def defaultTimeout_def minute_def)

lemma unparsable_url_panics:
  "\<not> hb_parses env url \<Longrightarrow>
     heartbeat_run env url addr duration n w = Panic ''invalid memory address or nil pointer dereference''"
  by (simp add: heartbeat_run_def sendHeartbeat_def Let_def)

end
