(* ===== verification/Discovery.thy ===== *)
theory Discovery
  imports Registry "HOL-Library.Multiset"
begin

text \<open>
  Service discovery of \<^verbatim>\<open>geerpc/xclient/discovery.go\<close> and \<^verbatim>\<open>geerpc/xclient/discovery_gee.go\<close>: a
  hand-maintained list of servers with random and round-robin selection, and the list that is
  refreshed from the registry.  What an operation gets from outside is the record \<open>disc_env\<close>:
  the time, what \<open>rand.Intn\<close> draws, and what the registry answers to a GET, an error or the value
  of the header \<^verbatim>\<open>X-Geerpc-Servers\<close>.

  The interface \<open>Discovery\<close> of the source is the locale \<open>discovery\<close>; both structures interpret it.
\<close>

section \<open>State and operations\<close>

text \<open>A \<open>SelectMode\<close> is any integer; 0 and 1 have names.\<close>

type_synonym select_mode = int

definition RandomSelect :: select_mode where "RandomSelect = 0"
definition RoundRobinSelect :: select_mode where "RoundRobinSelect = 1"

record disc_env =
  env_now :: int
  env_Intn :: "nat \<Rightarrow> nat"
  env_registry :: "goerror + string"

record multi_discovery =
  md_servers :: "string list"
  md_index :: nat

definition NewMultiServerDiscovery :: "string list \<Rightarrow> (nat \<Rightarrow> nat) \<Rightarrow> multi_discovery" where
  "NewMultiServerDiscovery ss intn = \<lparr>md_servers = ss, md_index = intn (2 ^ 31 - 1 - 1)\<rparr>"

definition multi_Refresh :: "disc_env \<Rightarrow> multi_discovery \<Rightarrow> goerror option \<times> multi_discovery" where
  "multi_Refresh e d = (None, d)"

definition multi_Update :: "string list \<Rightarrow> disc_env \<Rightarrow> multi_discovery \<Rightarrow> multi_discovery" where
  "multi_Update ss e d = d\<lparr>md_servers := ss\<rparr>"

definition multi_Get ::
    "select_mode \<Rightarrow> disc_env \<Rightarrow> multi_discovery \<Rightarrow> (goerror + string) \<times> multi_discovery" where
  "multi_Get mode e d =
     (let n = length (md_servers d) in
      if n = 0 then (Inl ''rpc discovery: no available servers'', d)
      else if mode = RandomSelect then (Inr (md_servers d ! env_Intn e n), d)
      else if mode = RoundRobinSelect then
        (Inr (md_servers d ! (md_index d mod n)), d\<lparr>md_index := (md_index d + 1) mod n\<rparr>)
      else (Inl ''rpc discovery: not supported select mode'', d))"

definition multi_GetAll :: "disc_env \<Rightarrow> multi_discovery \<Rightarrow> (goerror + string list) \<times> multi_discovery" where
  "multi_GetAll e d = (Inr (md_servers d), d)"

text \<open>\<open>lastUpdate\<close> starts at the zero time, long before any timeout: \<open>None\<close>.\<close>

record gee_discovery =
  gd_multi :: multi_discovery
  gd_registry :: string
  gd_timeout :: int
  lastUpdate :: "int option"

definition defaultUpdateTimeout :: int where "defaultUpdateTimeout = 10 * 10 ^ 9"

definition NewGeeRegistryDiscovery :: "string \<Rightarrow> int \<Rightarrow> (nat \<Rightarrow> nat) \<Rightarrow> gee_discovery" where
  "NewGeeRegistryDiscovery addr timeout intn =
     \<lparr>gd_multi = NewMultiServerDiscovery [] intn, gd_registry = addr,
      gd_timeout = (if timeout = 0 then defaultUpdateTimeout else timeout), lastUpdate = None\<rparr>"

definition gee_Update :: "string list \<Rightarrow> disc_env \<Rightarrow> gee_discovery \<Rightarrow> gee_discovery" where
  "gee_Update ss e d =
     d\<lparr>gd_multi := (gd_multi d)\<lparr>md_servers := ss\<rparr>, lastUpdate := Some (env_now e)\<rparr>"

definition parse_servers :: "string \<Rightarrow> string list" where
  "parse_servers h = map trim_space (filter (\<lambda>s. trim_space s \<noteq> '''') (split_char (CHR '','') h))"

definition is_fresh :: "disc_env \<Rightarrow> gee_discovery \<Rightarrow> bool" where
  "is_fresh e d \<longleftrightarrow>
     (case lastUpdate d of None \<Rightarrow> False | Some t \<Rightarrow> env_now e < t + gd_timeout d)"

definition gee_Refresh :: "disc_env \<Rightarrow> gee_discovery \<Rightarrow> goerror option \<times> gee_discovery" where
  "gee_Refresh e d =
     (if is_fresh e d then (None, d)
      else (case env_registry e of
              Inl err \<Rightarrow> (Some err, d)
            | Inr h \<Rightarrow>
                (None, d\<lparr>gd_multi := (gd_multi d)\<lparr>md_servers := parse_servers h\<rparr>,
                         lastUpdate := Some (env_now e)\<rparr>)))"

definition gee_Get ::
    "select_mode \<Rightarrow> disc_env \<Rightarrow> gee_discovery \<Rightarrow> (goerror + string) \<times> gee_discovery" where
  "gee_Get mode e d =
     (case gee_Refresh e d of
        (Some err, d1) \<Rightarrow> (Inl err, d1)
      | (None, d1) \<Rightarrow> (let (r, m) = multi_Get mode e (gd_multi d1) in (r, d1\<lparr>gd_multi := m\<rparr>)))"

definition gee_GetAll :: "disc_env \<Rightarrow> gee_discovery \<Rightarrow> (goerror + string list) \<times> gee_discovery" where
  "gee_GetAll e d =
     (case gee_Refresh e d of
        (Some err, d1) \<Rightarrow> (Inl err, d1)
      | (None, d1) \<Rightarrow> (let (r, m) = multi_GetAll e (gd_multi d1) in (r, d1\<lparr>gd_multi := m\<rparr>)))"

section \<open>The interface\<close>

text \<open>The generator's contract: \<open>Intn(n)\<close> draws below \<open>n\<close>.\<close>

definition env_ok :: "disc_env \<Rightarrow> bool" where
  "env_ok e \<longleftrightarrow> (\<forall>n > 0. env_Intn e n < n)"

text \<open>
  What a client of a discovery relies on: a server that is picked is on the list, the whole list is
  what is broadcast to, the two do not change the list they answered from, and a manual update is
  the list.
\<close>

locale discovery =
  fixes get :: "select_mode \<Rightarrow> disc_env \<Rightarrow> 'd \<Rightarrow> (goerror + string) \<times> 'd"
    and get_all :: "disc_env \<Rightarrow> 'd \<Rightarrow> (goerror + string list) \<times> 'd"
    and update :: "string list \<Rightarrow> disc_env \<Rightarrow> 'd \<Rightarrow> 'd"
    and servers :: "'d \<Rightarrow> string list"
  assumes get_member: "env_ok e \<Longrightarrow> get m e d = (Inr s, d') \<Longrightarrow> s \<in> set (servers d')"
    and get_all_servers: "get_all e d = (Inr ss, d') \<Longrightarrow> ss = servers d'"
    and get_same: "servers (snd (get m e d)) = servers (snd (get_all e d))"
    and update_servers: "servers (update ss e d) = ss"
begin

lemma get_in_all:
  assumes "env_ok e" and "get m e d = (Inr s, d')" and "get_all e d = (Inr ss, d'')"
  shows "s \<in> set ss"
  using get_member [OF assms(1,2)] get_all_servers [OF assms(3)] get_same [of m e d] assms(2,3) by simp

lemma no_servers: "env_ok e \<Longrightarrow> servers (snd (get m e d)) = [] \<Longrightarrow> \<exists>err. fst (get m e d) = Inl err"
  using get_member [of e m d] by (cases "get m e d"; cases "fst (get m e d)") auto

end

lemma multi_Get_servers [simp]: "md_servers (snd (multi_Get m e d)) = md_servers d"
  by (simp add: multi_Get_def Let_def)

lemma multi_Get_member:
  assumes "env_ok e" and "multi_Get m e d = (Inr s, d')"
  shows "s \<in> set (md_servers d)"
  using assms by (auto simp: multi_Get_def env_ok_def Let_def split: if_splits)

interpretation multi: discovery multi_Get multi_GetAll multi_Update md_servers
proof
  fix m e s and d d' :: multi_discovery
  assume "env_ok e" and get: "multi_Get m e d = (Inr s, d')"
  then have "s \<in> set (md_servers d)" by (rule multi_Get_member)
  with get multi_Get_servers [of m e d] show "s \<in> set (md_servers d')" by simp
qed (auto simp: multi_GetAll_def multi_Update_def)

interpretation gee: discovery gee_Get gee_GetAll gee_Update "\<lambda>d. md_servers (gd_multi d)"
proof
  fix m e s and d d' :: gee_discovery
  assume env: "env_ok e" and get: "gee_Get m e d = (Inr s, d')"
  then obtain d1 where d1: "gee_Refresh e d = (None, d1)"
    by (cases "gee_Refresh e d"; cases "fst (gee_Refresh e d)") (auto simp: gee_Get_def)
  obtain r x where mg: "multi_Get m e (gd_multi d1) = (r, x)" by fastforce
  with get d1 have "r = Inr s" "gd_multi d' = x" by (auto simp: gee_Get_def)
  with multi.get_member [OF env, of m "gd_multi d1" s x] mg show "s \<in> set (md_servers (gd_multi d'))" by simp
qed (auto simp: gee_Get_def gee_GetAll_def multi_GetAll_def gee_Update_def split_beta split: prod.splits option.splits)

section \<open>Properties\<close>

text \<open>Successive calls of \<open>Get\<close>, with whatever the outside supplies to each.\<close>

fun multi_gets :: "select_mode \<Rightarrow> disc_env list \<Rightarrow> multi_discovery \<Rightarrow> (goerror + string) list" where
  "multi_gets m [] d = []"
| "multi_gets m (e # es) d = (let (r, d') = multi_Get m e d in r # multi_gets m es d')"

lemma multi_gets_round_robin:
  assumes "md_servers d \<noteq> []"
  shows "multi_gets RoundRobinSelect es d =
    map (\<lambda>i. Inr (md_servers d ! ((md_index d + i) mod length (md_servers d)))) [0..<length es]"
  using assms
proof (induction es arbitrary: d)
  case (Cons e es)
  let ?n = "length (md_servers d)"
  let ?d = "d\<lparr>md_index := (md_index d + 1) mod ?n\<rparr>"
  have get: "multi_Get RoundRobinSelect e d = (Inr (md_servers d ! (md_index d mod ?n)), ?d)"
    using Cons.prems by (simp add: multi_Get_def RoundRobinSelect_def RandomSelect_def Let_def)
  have "((md_index d + 1) mod ?n + i) mod ?n = (md_index d + Suc i) mod ?n" for i
    by (simp add: mod_add_left_eq)
  with Cons.IH [of ?d] Cons.prems show ?case
    by (simp add: get upt_conv_Cons map_Suc_upt [symmetric] o_def del: upt_Suc)
qed simp

lemma rotate_index_mset:
  assumes "xs \<noteq> []"
  shows "mset (map (\<lambda>i. xs ! ((k + i) mod length xs)) [0..<length xs]) = mset xs"
proof -
  have "map (\<lambda>i. xs ! ((k + i) mod length xs)) [0..<length xs] = rotate k xs"
    using assms by (intro nth_equalityI) (simp_all add: nth_rotate)
  moreover have "mset (rotate k xs) = mset xs"
    unfolding rotate_drop_take by (metis append_take_drop_id mset_append union_commute)
  ultimately show ?thesis by simp
qed

text \<open>Round robin is fair.  The \<open>i\<close>-th of a row of \<open>Get\<close>s returns the server \<open>i\<close> places after
  the start, cyclically, whatever the start is; so any \<open>n\<close> consecutive calls on \<open>n\<close> servers visit
  every server exactly once.\<close>

theorem round_robin_fair:
  assumes "md_servers d \<noteq> []"
  shows "(\<forall>i < length es. multi_gets RoundRobinSelect es d ! i
            = Inr (md_servers d ! ((md_index d + i) mod length (md_servers d))))
       \<and> (length es = length (md_servers d) \<longrightarrow>
            mset (multi_gets RoundRobinSelect es d) = mset (map Inr (md_servers d)))"
proof -
  have "mset (map (\<lambda>i. Inr (md_servers d ! ((md_index d + i) mod length (md_servers d))))
      [0..<length (md_servers d)]) = mset (map Inr (md_servers d) :: (goerror + string) list)"
    using arg_cong [OF rotate_index_mset [OF assms, of "md_index d"], of "image_mset Inr"]
    by (simp add: multiset.map_comp o_def)
  then show ?thesis by (simp add: multi_gets_round_robin [OF assms])
qed

definition demo_disc_env :: "goerror + string \<Rightarrow> disc_env" where
  "demo_disc_env r = \<lparr>env_now = 7 * minute, env_Intn = (\<lambda>n. 0), env_registry = r\<rparr>"

theorem round_robin_fair_witness:
  "multi_gets RoundRobinSelect (replicate 2 (demo_disc_env (Inr [])))
     \<lparr>md_servers = [''tcp@a'', ''tcp@b''], md_index = 1\<rparr> ! 0 = Inr ''tcp@b''"
  using round_robin_fair [of "\<lparr>md_servers = [''tcp@a'', ''tcp@b''], md_index = 1\<rparr>"
      "replicate 2 (demo_disc_env (Inr []))"]
  by simp

text \<open>An address that survives the header: not empty, without commas, and without blanks around it.\<close>

definition plain_addr :: "string \<Rightarrow> bool" where
  "plain_addr a \<longleftrightarrow> a \<noteq> '''' \<and> CHR '','' \<notin> set a \<and> \<not> is_space (hd a) \<and> \<not> is_space (last a)"

lemma parse_join:
  assumes "list_all plain_addr xs"
  shows "parse_servers (join '','' xs) = xs"
proof (cases "xs = []")
  case True
  then show ?thesis by (simp add: parse_servers_def)
next
  case False
  have "split_char (CHR '','') (join '','' xs) = xs"
    using False assms by (intro split_join) (auto simp: plain_addr_def list_all_iff)
  moreover have "trim_space x = x \<and> x \<noteq> ''''" if "x \<in> set xs" for x
    using that assms by (auto simp: plain_addr_def list_all_iff intro: trim_space_id)
  ultimately show ?thesis
    by (simp add: parse_servers_def filter_True map_idI)
qed

text \<open>C29: Discovery sees what the registry knows.  When the list is out of date and the registry
  answers a GET, the refreshed list is the sorted list of exactly the servers whose last heartbeat
  is younger than the registry's timeout, provided their addresses survive the header; while the
  list is fresh the registry is not asked and the list stays; and when the registry cannot be
  reached \<open>Get\<close> fails instead of answering from the old list.\<close>

theorem discovery_sees_registry:
  assumes "reg_inv r" and "\<forall>a \<in> dom (last_beat r). plain_addr a"
    and "Registry_ServeHTTP clk ''GET'' x r = (code, h, r')" and "env_registry e = Inr h"
    and "\<not> is_fresh e d"
  shows "\<exists>d'. gee_Refresh e d = (None, d')
           \<and> sorted (md_servers (gd_multi d')) \<and> distinct (md_servers (gd_multi d'))
           \<and> set (md_servers (gd_multi d'))
               = {a. \<exists>t. last_beat r a = Some t \<and> (reg_timeout r = 0 \<or> clk a < t + reg_timeout r)}
           \<and> (\<forall>e2. is_fresh e2 d' \<longrightarrow> gee_Refresh e2 d' = (None, d'))
           \<and> (\<forall>e2 err m. \<not> is_fresh e2 d' \<longrightarrow> env_registry e2 = Inl err \<longrightarrow> fst (gee_Get m e2 d') = Inl err)"
proof -
  let ?alive = "fst (aliveServers clk r)"
  let ?d = "d\<lparr>gd_multi := (gd_multi d)\<lparr>md_servers := ?alive\<rparr>, lastUpdate := Some (env_now e)\<rparr>"
  have h: "h = join '','' ?alive"
    using assms(3) by (simp add: Registry_ServeHTTP_def split_beta)
  have "list_all plain_addr ?alive"
    using assms(2) aliveServers_members [OF assms(1), of clk] by (auto simp: list_all_iff)
  then have "gee_Refresh e d = (None, ?d)"
    using assms(4,5) h by (simp add: gee_Refresh_def parse_join)
  moreover have "gee_Refresh e2 ?d = (None, ?d)" if "is_fresh e2 ?d" for e2
    using that by (simp add: gee_Refresh_def)
  moreover have "fst (gee_Get m e2 ?d) = Inl err"
    if "\<not> is_fresh e2 ?d" "env_registry e2 = Inl err" for e2 err m
    using that by (simp add: gee_Get_def gee_Refresh_def)
  ultimately show ?thesis
    using aliveServers_sorted [of clk r] aliveServers_distinct [OF assms(1), of clk]
      aliveServers_members [OF assms(1), of clk]
    by (intro exI [of _ ?d]) simp
qed

lemma list_singleton: "set xs = {a} \<Longrightarrow> distinct xs \<Longrightarrow> xs = [a]"
  by (cases xs; cases "tl xs") (auto split: if_splits)

theorem discovery_sees_registry_witness:
  "\<exists>d'. gee_Refresh (demo_disc_env (Inr ''tcp@a'')) (NewGeeRegistryDiscovery ''http://reg'' 0 (\<lambda>n. 0)) = (None, d')
     \<and> set (md_servers (gd_multi d')) = {''tcp@a''}"
proof -
  let ?r = "putServer (4 * minute) ''tcp@a'' (putServer 0 ''tcp@b'' (registry_new defaultTimeout))"
  let ?e = "demo_disc_env (Inr ''tcp@a'')"
  let ?d = "NewGeeRegistryDiscovery ''http://reg'' 0 (\<lambda>n. 0)"
  have beat: "last_beat ?r = [''tcp@b'' \<mapsto> 0, ''tcp@a'' \<mapsto> 4 * minute]"
    by (simp add: putServer_last_beat) (simp add: last_beat_def registry_new_def fun_eq_iff)
  have inv: "reg_inv ?r"
    by (intro putServer_inv) (simp add: reg_inv_def registry_new_def)
  have plain: "\<forall>a \<in> dom (last_beat ?r). plain_addr a"
    unfolding beat by (simp add: plain_addr_def is_space_def)
  have m: "minute > 0" by (simp add: minute_def)
  have members: "{a. \<exists>t. last_beat ?r a = Some t \<and> (reg_timeout ?r = 0 \<or> 7 * minute < t + reg_timeout ?r)} = {''tcp@a''}"
    unfolding beat using m by (auto simp: registry_new_def defaultTimeout_def split: if_splits)
  have alive: "fst (aliveServers (\<lambda>_. 7 * minute) ?r) = [''tcp@a'']"
    using aliveServers_members [OF inv, of "\<lambda>_. 7 * minute"] aliveServers_distinct [OF inv, of "\<lambda>_. 7 * minute"]
    unfolding members by (intro list_singleton)
  obtain r' where srv: "Registry_ServeHTTP (\<lambda>_. 7 * minute) ''GET'' [] ?r = (200, ''tcp@a'', r')"
    using alive by (simp add: Registry_ServeHTTP_def split_beta)
  have env: "env_registry ?e = Inr ''tcp@a''" by (simp add: demo_disc_env_def)
  have "\<not> is_fresh ?e ?d" by (simp add: is_fresh_def NewGeeRegistryDiscovery_def)
  from discovery_sees_registry [OF inv plain srv env this] show ?thesis
    unfolding members by blast
qed

end
