(* ===== verification/Dial.thy ===== *)
theory Dial
  imports RpcClient Server
begin

text \<open>
  Making a client, the second half of \<^verbatim>\<open>geerpc/client.go\<close>: the options, the protocol exchange over
  plain TCP or over HTTP, the connect timeout, and the address format of \<open>XDial\<close>.

  A connection is what will be read from it and whether it accepts bytes.  What the network does is
  the record \<open>dial_env\<close>: how connecting ends, how writing the options ends, what the server
  answers to CONNECT, and whether the timer fires before the client is made.
\<close>

record 'b conn =
  conn_msgs :: "'b message list"
  conn_ok :: bool

record 'b dial_env =
  env_dial :: "string \<Rightarrow> string \<Rightarrow> int \<Rightarrow> goerror + 'b conn"
  env_json :: "'b conn \<Rightarrow> option_rec \<Rightarrow> goerror option"
  env_connect :: "'b conn \<Rightarrow> goerror + string"
  env_late :: bool

section \<open>Options\<close>

text \<open>\<open>None\<close> is a nil pointer.  The options of the caller are completed in place.\<close>

definition parseOptions :: "option_rec option list \<Rightarrow> goerror + option_rec" where
  "parseOptions opts =
     (case opts of
        [] \<Rightarrow> Inr DefaultOption
      | None # _ \<Rightarrow> Inr DefaultOption
      | Some opt # rest \<Rightarrow>
          (if rest \<noteq> [] then Inl ''number of options is more than 1''
           else Inr (opt\<lparr>opt_MagicNumber := opt_MagicNumber DefaultOption,
                         opt_CodecType := (if opt_CodecType opt = '''' then opt_CodecType DefaultOption
                                           else opt_CodecType opt)\<rparr>)))"

section \<open>Clients\<close>

text \<open>The result, and whether the function closed the connection itself.\<close>

definition NewClient ::
    "'b dial_env \<Rightarrow> 'b conn \<Rightarrow> option_rec \<Rightarrow> (goerror + ('b, 'v, 'r) client) \<times> bool" where
  "NewClient e conn opt =
     (case NewCodecFuncMap (opt_CodecType opt) of
        None \<Rightarrow> (Inl ''invalid codec type'', True)
      | Some f \<Rightarrow>
          (case env_json e conn opt of
             Some err \<Rightarrow> (Inl err, True)
           | None \<Rightarrow> (Inr (client_new (f (conn_msgs conn) (conn_ok conn))), False)))"

definition NewHTTPClient ::
    "'b dial_env \<Rightarrow> 'b conn \<Rightarrow> option_rec \<Rightarrow> (goerror + ('b, 'v, 'r) client) \<times> bool" where
  "NewHTTPClient e conn opt =
     (case env_connect e conn of
        Inl err \<Rightarrow> (Inl err, False)
      | Inr status \<Rightarrow>
          (if status = connected then NewClient e conn opt
           else (Inl (''unexpected HTTP response: '' @ status), False)))"

text \<open>How a dial ends: the result, the connection if there was one, whether it is closed, and whether
  the goroutine that made the client is left behind on its channel.\<close>

record ('b, 'v, 'r) dial_result =
  dr_result :: "goerror + ('b, 'v, 'r) client"
  dr_conn :: "'b conn option"
  dr_closed :: bool
  dr_stuck :: bool

type_synonym ('b, 'v, 'r) new_client =
  "'b dial_env \<Rightarrow> 'b conn \<Rightarrow> option_rec \<Rightarrow> (goerror + ('b, 'v, 'r) client) \<times> bool"

definition dialTimeout ::
    "'b dial_env \<Rightarrow> ('b, 'v, 'r) new_client \<Rightarrow> string \<Rightarrow> string \<Rightarrow> option_rec option list
       \<Rightarrow> ('b, 'v, 'r) dial_result" where
  "dialTimeout e f network address opts =
     (case parseOptions opts of
        Inl err \<Rightarrow> \<lparr>dr_result = Inl err, dr_conn = None, dr_closed = False, dr_stuck = False\<rparr>
      | Inr opt \<Rightarrow>
          (case env_dial e network address (ConnectTimeout opt) of
             Inl err \<Rightarrow> \<lparr>dr_result = Inl err, dr_conn = None, dr_closed = False, dr_stuck = False\<rparr>
           | Inr conn \<Rightarrow>
               (if ConnectTimeout opt \<noteq> 0 \<and> env_late e
                then \<lparr>dr_result = Inl ''rpc client: connect timeout'', dr_conn = Some conn,
                      dr_closed = True, dr_stuck = True\<rparr>
                else
                  (let (r, closed) = f e conn opt
                   in \<lparr>dr_result = r, dr_conn = Some conn,
                       dr_closed = (closed \<or> (case r of Inl _ \<Rightarrow> True | Inr _ \<Rightarrow> False)),
                       dr_stuck = False\<rparr>))))"

definition rpc_Dial ::
    "'b dial_env \<Rightarrow> string \<Rightarrow> string \<Rightarrow> option_rec option list \<Rightarrow> ('b, 'v, 'r) dial_result" where
  "rpc_Dial e network address opts = dialTimeout e NewClient network address opts"

definition DialHTTP ::
    "'b dial_env \<Rightarrow> string \<Rightarrow> string \<Rightarrow> option_rec option list \<Rightarrow> ('b, 'v, 'r) dial_result" where
  "DialHTTP e network address opts = dialTimeout e NewHTTPClient network address opts"

definition XDial :: "'b dial_env \<Rightarrow> string \<Rightarrow> option_rec option list \<Rightarrow> ('b, 'v, 'r) dial_result" where
  "XDial e rpcAddr opts =
     (case split_char (CHR ''@'') rpcAddr of
        [protocol, addr] \<Rightarrow>
          (if protocol = ''http'' then DialHTTP e ''tcp'' addr opts else rpc_Dial e protocol addr opts)
      | _ \<Rightarrow>
          \<lparr>dr_result = Inl (''rpc client err: wrong format '' @ [CHR 0x27] @ rpcAddr @ [CHR 0x27] @ '', expect protocol@addr''),
           dr_conn = None, dr_closed = False, dr_stuck = False\<rparr>)"

section \<open>Properties\<close>

lemma parseOptions_ok:
  "parseOptions opts = Inr opt \<Longrightarrow> opt_MagicNumber opt = MagicNumber \<and> opt_CodecType opt \<noteq> ''''"
  by (auto simp: parseOptions_def DefaultOption_def GobType_def split: list.splits option.splits if_splits)

lemma NewClient_Inr:
  assumes "NewClient e conn opt = (Inr cl, closed)"
  shows "opt_CodecType opt = GobType \<and> cl = client_new (NewGobCodec (conn_msgs conn) (conn_ok conn)) \<and> \<not> closed"
  using assms by (auto simp: NewClient_def NewCodecFuncMap_def split: option.splits if_splits)

lemma NewHTTPClient_Inr:
  "NewHTTPClient e conn opt = (Inr cl, closed) \<Longrightarrow>
     env_connect e conn = Inr connected \<and> NewClient e conn opt = (Inr cl, closed)"
  by (auto simp: NewHTTPClient_def split: sum.splits if_splits)

lemma ServeConn_gob:
  "opt_MagicNumber opt = MagicNumber \<Longrightarrow> opt_CodecType opt = GobType \<Longrightarrow>
     ServeConn (Inr opt) ahead input up = Some (NewGobCodec (drop ahead input) up, opt)"
  by (simp add: ServeConn_def NewCodecFuncMap_def)

definition owns_conn :: "('b, 'v, 'r) dial_result \<Rightarrow> bool" where
  "owns_conn d \<longleftrightarrow>
     (case dr_result d of
        Inr cl \<Rightarrow> (\<exists>conn. dr_conn d = Some conn \<and> cl = client_new (NewGobCodec (conn_msgs conn) (conn_ok conn)))
           \<and> \<not> dr_closed d \<and> \<not> dr_stuck d
      | Inl err \<Rightarrow> dr_conn d \<noteq> None \<longrightarrow> dr_closed d)"

lemma dialTimeout_owns:
  assumes "\<And>conn opt cl closed. f e conn opt = (Inr cl, closed) \<Longrightarrow>
      cl = client_new (NewGobCodec (conn_msgs conn) (conn_ok conn)) \<and> \<not> closed"
  shows "owns_conn (dialTimeout e f network address opts)"
proof (cases "parseOptions opts")
  case (Inr opt)
  show ?thesis
  proof (cases "env_dial e network address (ConnectTimeout opt)")
    case dial: (Inr conn)
    obtain r closed where f: "f e conn opt = (r, closed)" by fastforce
    with Inr dial assms show ?thesis by (cases r) (auto simp: dialTimeout_def owns_conn_def)
  qed (simp add: Inr dialTimeout_def owns_conn_def)
qed (simp add: dialTimeout_def owns_conn_def)

lemma dialTimeout_Inr:
  assumes "dr_result (dialTimeout e f network address opts) = Inr cl"
  obtains opt conn closed where "parseOptions opts = Inr opt" and "f e conn opt = (Inr cl, closed)"
  using assms by (auto simp: dialTimeout_def split: sum.splits if_splits prod.splits)

lemma XDial_owns: "owns_conn (XDial e rpcAddr opts)"
proof -
  have tcp: "owns_conn (rpc_Dial e network addr opts)" for network addr
    unfolding rpc_Dial_def by (rule dialTimeout_owns) (auto dest: NewClient_Inr)
  have http: "owns_conn (DialHTTP e network addr opts)" for network addr
    unfolding DialHTTP_def by (rule dialTimeout_owns) (auto dest: NewHTTPClient_Inr NewClient_Inr)
  show ?thesis
    using tcp http by (auto simp: XDial_def split: list.splits) (simp_all add: owns_conn_def)
qed

text \<open>Dialling leaks no connection.  Whatever the address, the options, the network and the
  timer do, a client that is returned owns the open connection and starts on its messages; and
  when an error is returned, a connection that had been made is closed.\<close>

theorem XDial_owns_connection: "owns_conn (XDial e rpcAddr opts)"
  by (rule XDial_owns)

text \<open>C31: The two ends agree.  The options of a client that dialled successfully are accepted by the
  server, which then speaks gob on all that follows them.  But the client does not wait for the
  server before its first request, and the server's JSON decoder reads ahead: if the header of that
  request arrives in the same block as the options, it is lost, its body is taken for a header, and
  the connection ends.\<close>

theorem negotiation:
  assumes "dr_result (XDial e rpcAddr opts) = Inr (cl :: ('b, 'v, 'r) client)"
  shows "\<exists>opt. parseOptions opts = Inr opt
           \<and> (\<forall>input up. ServeConn (Inr opt) 0 input up = Some (NewGobCodec input up, opt))
           \<and> (\<forall>h b rest up g err. g b = Inl err \<longrightarrow>
                (\<exists>cc. ServeConn (Inr opt) 1 (HeaderMsg h # BodyMsg b # rest) up = Some (cc, opt)
                   \<and> readRequest g dec srv cc = Ret (NoRequest err, cc\<lparr>conn_in := rest\<rparr>)))"
proof -
  obtain f :: "('b, 'v, 'r) new_client" and network address where
    f: "f = NewClient \<or> f = NewHTTPClient"
      "dr_result (dialTimeout e f network address opts) = Inr cl"
    using assms by (auto simp: XDial_def rpc_Dial_def DialHTTP_def split: list.splits if_splits)
  from dialTimeout_Inr [OF f(2)] obtain opt conn closed where
    opt: "parseOptions opts = Inr opt" "f e conn opt = (Inr cl, closed)" by blast
  then have gob: "opt_CodecType opt = GobType" using f(1) NewClient_Inr NewHTTPClient_Inr by metis
  note serve = ServeConn_gob [OF parseOptions_ok [OF opt(1), THEN conjunct1] gob]
  have "readRequest g dec srv (NewGobCodec (BodyMsg b # rest) up)
      = Ret (NoRequest err, (NewGobCodec (BodyMsg b # rest) up)\<lparr>conn_in := rest\<rparr>)"
    if "g b = Inl err" for g b rest up err
    using that by (intro readRequest_junk) (simp_all add: NewGobCodec_def)
  with opt(1) show ?thesis by (auto simp: serve)
qed

definition demo_dial :: "string dial_env" where
  "demo_dial =
     \<lparr>env_dial = (\<lambda>network address t. Inr \<lparr>conn_msgs = [], conn_ok = True\<rparr>),
      env_json = (\<lambda>conn opt. None), env_connect = (\<lambda>conn. Inr connected), env_late = True\<rparr>"

theorem negotiation_witness:
  "parseOptions [Some \<lparr>opt_MagicNumber = 0, opt_CodecType = '''', ConnectTimeout = 0, HandleTimeout = 5\<rparr>]
     = Inr (DefaultOption\<lparr>ConnectTimeout := 0, HandleTimeout := 5\<rparr>)
   \<and> ServeConn (Inr (DefaultOption\<lparr>ConnectTimeout := 0, HandleTimeout := 5\<rparr>)) 0 ([] :: string message list) True \<noteq> None"
proof -
  let ?opts = "[Some \<lparr>opt_MagicNumber = 0, opt_CodecType = '''', ConnectTimeout = 0, HandleTimeout = 5\<rparr>]"
  have parse: "parseOptions ?opts = Inr (DefaultOption\<lparr>ConnectTimeout := 0, HandleTimeout := 5\<rparr>)"
    by (simp add: parseOptions_def DefaultOption_def)
  have "dr_result (XDial demo_dial ''http@host:1'' ?opts)
      = Inr (client_new (NewGobCodec [] True) :: (string, nat, nat) client)"
    using parse
    by (simp add: XDial_def DialHTTP_def dialTimeout_def demo_dial_def NewHTTPClient_def NewClient_def
        NewCodecFuncMap_def DefaultOption_def)
  from negotiation [OF this, of demo_dec demo_server] parse show ?thesis by auto
qed

end
