(* ===== verification/XClient.thy ===== *)
theory XClient
  imports Discovery Dial
begin

text \<open>
  The load-balancing client of \<^verbatim>\<open>geerpc/xclient/xclient.go\<close>: one cached client per server address,
  a call to a server that the discovery picks, and a broadcast to all of them.  Clients are shared
  by pointer, so the cache maps an address to a place in a store of clients.

  The discovery is given by its two operations; what the theorems need of it is the locale
  \<open>discovery\<close>.  How the call of a client ends is decided by the theory RpcClient and the network,
  and enters as a result.
\<close>

section \<open>State and operations\<close>

record ('d, 'b, 'v, 'r) xclient =
  xc_d :: 'd
  xc_mode :: select_mode
  xc_opt :: "option_rec option"
  xc_clients :: "string \<rightharpoonup> nat"
  xc_heap :: "nat \<rightharpoonup> ('b, 'v, 'r) client"
  xc_next :: nat

definition NewXClient :: "'d \<Rightarrow> select_mode \<Rightarrow> option_rec option \<Rightarrow> ('d, 'b, 'v, 'r) xclient" where
  "NewXClient d mode opt =
     \<lparr>xc_d = d, xc_mode = mode, xc_opt = opt, xc_clients = (\<lambda>_. None), xc_heap = (\<lambda>_. None), xc_next = 0\<rparr>"

text \<open>The error of closing a client is dropped.\<close>

definition close_client :: "nat \<Rightarrow> ('d, 'b, 'v, 'r) xclient \<Rightarrow> ('d, 'b, 'v, 'r) xclient" where
  "close_client a xc = xc\<lparr>xc_heap := (xc_heap xc)(a := map_option (snd \<circ> client_Close) (xc_heap xc a))\<rparr>"

definition XClient_Close :: "('d, 'b, 'v, 'r) xclient \<Rightarrow> goerror option \<times> ('d, 'b, 'v, 'r) xclient" where
  "XClient_Close xc =
     (None, xc\<lparr>xc_heap := (\<lambda>a. if a \<in> ran (xc_clients xc) then map_option (snd \<circ> client_Close) (xc_heap xc a)
                                else xc_heap xc a),
               xc_clients := (\<lambda>_. None)\<rparr>)"

definition client_available :: "nat \<Rightarrow> ('d, 'b, 'v, 'r) xclient \<Rightarrow> bool" where
  "client_available a xc \<longleftrightarrow> (case xc_heap xc a of None \<Rightarrow> False | Some cl \<Rightarrow> IsAvailable cl)"

text \<open>The first half of \<open>dial\<close>: a cached client that is not available is closed and forgotten.\<close>

definition drop_unavailable :: "string \<Rightarrow> ('d, 'b, 'v, 'r) xclient \<Rightarrow> ('d, 'b, 'v, 'r) xclient" where
  "drop_unavailable rpcAddr xc =
     (case xc_clients xc rpcAddr of
        None \<Rightarrow> xc
      | Some a \<Rightarrow>
          (if client_available a xc then xc
           else (close_client a xc)\<lparr>xc_clients := (xc_clients xc)(rpcAddr := None)\<rparr>))"

definition xc_dial ::
    "'b dial_env \<Rightarrow> string \<Rightarrow> ('d, 'b, 'v, 'r) xclient \<Rightarrow> (goerror + nat) \<times> ('d, 'b, 'v, 'r) xclient" where
  "xc_dial e rpcAddr xc =
     (let xc1 = drop_unavailable rpcAddr xc in
      case xc_clients xc1 rpcAddr of
        Some a \<Rightarrow> (Inr a, xc1)
      | None \<Rightarrow>
          (case dr_result (XDial e rpcAddr [xc_opt xc1]) of
             Inl err \<Rightarrow> (Inl err, xc1)
           | Inr cl \<Rightarrow>
               (Inr (xc_next xc1),
                xc1\<lparr>xc_heap := (xc_heap xc1)(xc_next xc1 \<mapsto> cl),
                    xc_clients := (xc_clients xc1)(rpcAddr \<mapsto> xc_next xc1),
                    xc_next := Suc (xc_next xc1)\<rparr>)))"

text \<open>\<open>rpc\<close> is how \<open>Client.Call\<close> ends on the client it is given.\<close>

definition xc_call ::
    "'b dial_env \<Rightarrow> (nat \<Rightarrow> goerror + 'r) \<Rightarrow> string \<Rightarrow> ('d, 'b, 'v, 'r) xclient
       \<Rightarrow> (goerror + 'r) \<times> ('d, 'b, 'v, 'r) xclient" where
  "xc_call e rpc rpcAddr xc =
     (case xc_dial e rpcAddr xc of
        (Inl err, xc1) \<Rightarrow> (Inl err, xc1)
      | (Inr a, xc1) \<Rightarrow> (rpc a, xc1))"

definition XClient_Call ::
    "(select_mode \<Rightarrow> disc_env \<Rightarrow> 'd \<Rightarrow> (goerror + string) \<times> 'd) \<Rightarrow> disc_env \<Rightarrow> 'b dial_env
       \<Rightarrow> (nat \<Rightarrow> goerror + 'r) \<Rightarrow> ('d, 'b, 'v, 'r) xclient
       \<Rightarrow> (goerror + 'r) \<times> ('d, 'b, 'v, 'r) xclient" where
  "XClient_Call get de e rpc xc =
     (case get (xc_mode xc) de (xc_d xc) of
        (Inl err, d) \<Rightarrow> (Inl err, xc\<lparr>xc_d := d\<rparr>)
      | (Inr rpcAddr, d) \<Rightarrow> xc_call e rpc rpcAddr (xc\<lparr>xc_d := d\<rparr>))"

text \<open>
  \<open>Broadcast\<close>: one goroutine per server, numbered by its place in the list.  Each takes the mutex of
  the cache in its dial and, when its call has ended, the mutex of what the goroutines share;
  \<open>order\<close> is the order of the first sections, \<open>ends\<close> that of the second.  \<open>rpc i a\<close> is how the call
  of goroutine \<open>i\<close> ends on the client at \<open>a\<close>, whether the context was cancelled or not.
\<close>

record 'r broadcast =
  bc_e :: "goerror option"
  bc_reply :: "'r option"
  bc_replyDone :: bool
  bc_cancelled :: bool

definition broadcast_end :: "goerror + 'r \<Rightarrow> 'r broadcast \<Rightarrow> 'r broadcast" where
  "broadcast_end r s =
     (let s1 = (case r of
                  Inl err \<Rightarrow> if bc_e s = None then s\<lparr>bc_e := Some err, bc_cancelled := True\<rparr> else s
                | Inr v \<Rightarrow> s)
      in (case r of
            Inl err \<Rightarrow> s1
          | Inr v \<Rightarrow> if \<not> bc_replyDone s1 then s1\<lparr>bc_reply := Some v, bc_replyDone := True\<rparr> else s1))"

primrec broadcast_calls ::
    "(nat \<Rightarrow> 'b dial_env) \<Rightarrow> (nat \<Rightarrow> nat \<Rightarrow> goerror + 'r) \<Rightarrow> string list \<Rightarrow> nat list
       \<Rightarrow> ('d, 'b, 'v, 'r) xclient \<Rightarrow> (nat \<rightharpoonup> goerror + 'r) \<times> ('d, 'b, 'v, 'r) xclient" where
  "broadcast_calls e rpc servers [] xc = ((\<lambda>_. None), xc)"
| "broadcast_calls e rpc servers (i # order) xc =
     (let (r, xc1) = xc_call (e i) (rpc i) (servers ! i) xc;
          (rs, xc2) = broadcast_calls e rpc servers order xc1
      in (rs(i \<mapsto> r), xc2))"

definition Broadcast ::
    "(disc_env \<Rightarrow> 'd \<Rightarrow> (goerror + string list) \<times> 'd) \<Rightarrow> disc_env \<Rightarrow> (nat \<Rightarrow> 'b dial_env)
       \<Rightarrow> (nat \<Rightarrow> nat \<Rightarrow> goerror + 'r) \<Rightarrow> nat list \<Rightarrow> nat list \<Rightarrow> bool \<Rightarrow> ('d, 'b, 'v, 'r) xclient
       \<Rightarrow> goerror option \<times> 'r option \<times> ('d, 'b, 'v, 'r) xclient" where
  "Broadcast get_all de e rpc order ends want_reply xc =
     (case get_all de (xc_d xc) of
        (Inl err, d) \<Rightarrow> (Some err, None, xc\<lparr>xc_d := d\<rparr>)
      | (Inr servers, d) \<Rightarrow>
          (let (rs, xc') = broadcast_calls e rpc servers order (xc\<lparr>xc_d := d\<rparr>);
               s = fold broadcast_end (map (\<lambda>i. the (rs i)) ends)
                     \<lparr>bc_e = None, bc_reply = None, bc_replyDone = (\<not> want_reply), bc_cancelled = False\<rparr>
           in (bc_e s, bc_reply s, xc')))"

section \<open>The cache\<close>

definition xc_inv :: "('d, 'b, 'v, 'r) xclient \<Rightarrow> bool" where
  "xc_inv xc \<longleftrightarrow>
     (\<forall>addr a. xc_clients xc addr = Some a \<longrightarrow> a < xc_next xc) \<and>
     (\<forall>a. xc_heap xc a = None \<longleftrightarrow> xc_next xc \<le> a) \<and>
     (\<forall>addr addr' a. xc_clients xc addr = Some a \<longrightarrow> xc_clients xc addr' = Some a \<longrightarrow> addr = addr')"

lemma client_Close_closing [simp]: "cl_closing (snd (client_Close cl))"
  by (simp add: client_Close_def)

lemma drop_unavailable_inv: "xc_inv xc \<Longrightarrow> xc_inv (drop_unavailable addr xc)"
  by (auto simp: drop_unavailable_def close_client_def xc_inv_def split: option.splits if_splits)

lemma drop_unavailable_cached:
  "xc_clients (drop_unavailable addr xc) addr = Some a \<longleftrightarrow>
     xc_clients xc addr = Some a \<and> client_available a xc"
  by (auto simp: drop_unavailable_def split: option.splits)

lemma drop_unavailable_id:
  "xc_clients xc addr = Some a \<Longrightarrow> client_available a xc \<Longrightarrow> drop_unavailable addr xc = xc"
  by (simp add: drop_unavailable_def)

lemma drop_unavailable_other:
  assumes "xc_inv xc" and "addr' \<noteq> addr"
  shows "xc_clients (drop_unavailable addr xc) addr' = xc_clients xc addr'"
    and "xc_clients xc addr' = Some a \<Longrightarrow> xc_heap (drop_unavailable addr xc) a = xc_heap xc a"
  using assms by (auto simp: drop_unavailable_def close_client_def xc_inv_def split: option.splits)

lemma XDial_available:
  fixes cl :: "('b, 'v, 'r) client"
  assumes "dr_result (XDial e addr opts) = Inr cl"
  shows "IsAvailable cl"
proof -
  have "owns_conn (XDial e addr opts :: ('b, 'v, 'r) dial_result)" by (rule XDial_owns)
  with assms show ?thesis by (auto simp: owns_conn_def IsAvailable_def client_new_def)
qed

lemma xc_inv_add:
  assumes "xc_inv xc" and "IsAvailable cl"
  shows "xc_inv (xc\<lparr>xc_heap := (xc_heap xc)(xc_next xc \<mapsto> cl),
          xc_clients := (xc_clients xc)(addr \<mapsto> xc_next xc), xc_next := Suc (xc_next xc)\<rparr>)"
proof -
  have lt: "a < xc_next xc" if "xc_clients xc b = Some a" for a b
    using assms(1) that by (simp add: xc_inv_def)
  have ne: "xc_clients xc b \<noteq> Some (xc_next xc)" for b using lt [of b "xc_next xc"] by blast
  show ?thesis using assms(1) ne unfolding xc_inv_def by (auto intro: less_SucI)
qed

text \<open>The cache of clients.  \<open>dial\<close> keeps the cache well-formed, with one live client of its
  own for every address; on success the client it returns is available, cached, and returned again
  by the next \<open>dial\<close> without touching the network; after a failure no client is cached for the
  address; no other address is affected; and an old client that has become unavailable is closed.\<close>

theorem dial_caches_clients:
  fixes xc :: "('d, 'b, 'v, 'r) xclient"
  assumes inv: "xc_inv xc" and dial: "xc_dial e addr xc = (r, xc')"
  shows "xc_inv xc'
       \<and> (case r of
            Inr a \<Rightarrow> xc_clients xc' addr = Some a \<and> client_available a xc'
              \<and> (\<forall>e'. xc_dial e' addr xc' = (Inr a, xc'))
          | Inl err \<Rightarrow> xc_clients xc' addr = None)
       \<and> (\<forall>addr' a. addr' \<noteq> addr \<longrightarrow> xc_clients xc' addr' = xc_clients xc addr'
            \<and> (xc_clients xc addr' = Some a \<longrightarrow> xc_heap xc' a = xc_heap xc a))
       \<and> (\<forall>a. xc_clients xc addr = Some a \<longrightarrow> \<not> client_available a xc \<longrightarrow>
            (\<exists>cl. xc_heap xc' a = Some cl \<and> cl_closing cl))"
proof -
  let ?x = "drop_unavailable addr xc"
  have inv1: "xc_inv ?x" by (rule drop_unavailable_inv [OF inv])
  have closed: "\<exists>cl. xc_heap ?x a = Some cl \<and> cl_closing cl"
    if "xc_clients xc addr = Some a" "\<not> client_available a xc" for a
  proof -
    have "a < xc_next xc" using inv that(1) by (simp add: xc_inv_def)
    then obtain cl where "xc_heap xc a = Some cl" using inv by (fastforce simp: xc_inv_def)
    with that show ?thesis by (simp add: drop_unavailable_def close_client_def)
  qed
  have again: "xc_dial e' addr y = (Inr a, y)"
    if "xc_clients y addr = Some a" "client_available a y" for e' a and y :: "('d, 'b, 'v, 'r) xclient"
    using that by (simp add: xc_dial_def drop_unavailable_id)
  show ?thesis
  proof (cases "xc_clients ?x addr")
    case (Some a)
    then have "xc_clients xc addr = Some a" "client_available a xc"
      by (simp_all add: drop_unavailable_cached)
    moreover from this dial have "r = Inr a" "xc' = xc" by (simp_all add: again)
    ultimately show ?thesis using inv again by auto
  next
    case None
    show ?thesis
    proof (cases "dr_result (XDial e addr [xc_opt ?x]) :: goerror + ('b, 'v, 'r) client")
      case (Inl err)
      with None dial have "r = Inl err" "xc' = ?x" by (simp_all add: xc_dial_def)
      with inv1 None closed drop_unavailable_other [OF inv] show ?thesis by auto
    next
      case (Inr cl)
      let ?n = "xc_next ?x"
      have r: "r = Inr ?n" "xc' = ?x\<lparr>xc_heap := (xc_heap ?x)(?n \<mapsto> cl),
          xc_clients := (xc_clients ?x)(addr \<mapsto> ?n), xc_next := Suc ?n\<rparr>"
        using None dial Inr by (simp_all add: xc_dial_def Let_def)
      have old: "xc_clients ?x addr' = Some a \<Longrightarrow> a < ?n" for addr' a
        using inv1 by (simp add: xc_inv_def)
      have "xc_inv xc'"
        using inv1 unfolding r(2) by (rule xc_inv_add [OF _ XDial_available [OF Inr]])
      moreover have new: "xc_clients xc' addr = Some ?n" "client_available ?n xc'"
        using XDial_available [OF Inr] by (simp_all add: r(2) client_available_def)
      moreover have "xc_clients xc' addr' = xc_clients xc addr'" if "addr' \<noteq> addr" for addr'
        using drop_unavailable_other(1) [OF inv that] that by (simp add: r(2))
      moreover have "xc_heap xc' a = xc_heap xc a" if "addr' \<noteq> addr" "xc_clients xc addr' = Some a" for addr' a
        using drop_unavailable_other [OF inv that(1)] that(2) old [of addr' a] by (simp add: r(2))
      moreover have "\<exists>cl. xc_heap xc' a = Some cl \<and> cl_closing cl"
        if "xc_clients xc addr = Some a" "\<not> client_available a xc" for a
      proof -
        from closed [OF that] obtain c where c: "xc_heap ?x a = Some c" "cl_closing c" by blast
        from inv1 have "xc_heap ?x ?n = None" by (simp add: xc_inv_def)
        with c have "a \<noteq> ?n" by auto
        with c show ?thesis by (simp add: r(2))
      qed
      ultimately show ?thesis using again [OF new] r(1) by auto
    qed
  qed
qed

theorem dial_caches_clients_witness:
  "\<exists>a xc'. xc_dial demo_dial ''tcp@host:1''
      (NewXClient () 0 (Some (DefaultOption\<lparr>ConnectTimeout := 0\<rparr>)) :: (unit, string, nat, nat) xclient) = (Inr a, xc')
    \<and> client_available a xc'"
proof -
  let ?xc = "NewXClient () 0 (Some (DefaultOption\<lparr>ConnectTimeout := 0\<rparr>)) :: (unit, string, nat, nat) xclient"
  have inv: "xc_inv ?xc" by (simp add: xc_inv_def NewXClient_def)
  obtain r xc' where d: "xc_dial demo_dial ''tcp@host:1'' ?xc = (r, xc')" by fastforce
  have "dr_result (XDial demo_dial ''tcp@host:1'' [Some (DefaultOption\<lparr>ConnectTimeout := 0\<rparr>)])
      = Inr (client_new (NewGobCodec [] True) :: (string, nat, nat) client)"
    by (simp add: XDial_def rpc_Dial_def dialTimeout_def demo_dial_def NewClient_def parseOptions_def
        NewCodecFuncMap_def DefaultOption_def GobType_def)
  with d have "\<exists>a. r = Inr a"
    by (auto simp: xc_dial_def NewXClient_def drop_unavailable_def)
  with d dial_caches_clients [OF inv d] show ?thesis by auto
qed

section \<open>Broadcast\<close>

definition errors_of :: "(goerror + 'r) list \<Rightarrow> goerror list" where
  "errors_of rs = concat (map (\<lambda>r. case r of Inl e \<Rightarrow> [e] | Inr v \<Rightarrow> []) rs)"

definition values_of :: "(goerror + 'r) list \<Rightarrow> 'r list" where
  "values_of rs = concat (map (\<lambda>r. case r of Inl e \<Rightarrow> [] | Inr v \<Rightarrow> [v]) rs)"

definition first_of :: "'x list \<Rightarrow> 'x option" where
  "first_of xs = (case xs of [] \<Rightarrow> None | x # _ \<Rightarrow> Some x)"

lemma values_of_simps [simp]:
  "values_of [] = []" "values_of (Inl e # rs) = values_of rs" "values_of (Inr v # rs) = v # values_of rs"
  by (simp_all add: values_of_def)

lemma broadcast_end_e:
  "bc_e (fold broadcast_end rs s) = (case bc_e s of None \<Rightarrow> first_of (errors_of rs) | Some e \<Rightarrow> Some e)"
  by (induction rs arbitrary: s)
    (auto simp: broadcast_end_def errors_of_def first_of_def Let_def split: sum.splits option.splits)

lemma broadcast_end_reply:
  "bc_reply (fold broadcast_end rs s) =
     (if bc_replyDone s then bc_reply s
      else (case values_of rs of [] \<Rightarrow> bc_reply s | v # _ \<Rightarrow> Some v))"
proof (induction rs arbitrary: s)
  case (Cons r rs)
  then show ?case by (cases r) (auto simp: broadcast_end_def Let_def split: list.splits)
qed simp

lemma errors_of_Nil: "errors_of rs = [] \<longleftrightarrow> (\<forall>r \<in> set rs. \<exists>v. r = Inr v)"
  by (induction rs) (auto simp: errors_of_def split: sum.splits)

lemma xc_dial_inv: "xc_inv xc \<Longrightarrow> xc_inv (snd (xc_dial e addr xc))"
  by (auto simp: xc_dial_def Let_def drop_unavailable_inv xc_inv_add XDial_available
      split: option.splits sum.splits)

lemma xc_call_inv: "xc_inv xc \<Longrightarrow> xc_inv (snd (xc_call e rpc addr xc))"
  using xc_dial_inv [of xc e addr] by (auto simp: xc_call_def split: prod.splits sum.splits)

lemma broadcast_calls_Cons:
  "broadcast_calls e rpc servers (i # order) xc =
     (let c = xc_call (e i) (rpc i) (servers ! i) xc; rest = broadcast_calls e rpc servers order (snd c)
      in ((fst rest)(i \<mapsto> fst c), snd rest))"
  by (simp add: Let_def split_beta)

declare broadcast_calls.simps(2) [simp del]

lemma broadcast_calls_inv: "xc_inv xc \<Longrightarrow> xc_inv (snd (broadcast_calls e rpc servers order xc))"
proof (induction order arbitrary: xc)
  case (Cons i order)
  from Cons.IH [OF xc_call_inv [OF Cons.prems, of "e i" "rpc i" "servers ! i"]] show ?case
    by (simp add: broadcast_calls_Cons Let_def)
qed simp

lemma broadcast_calls_dom: "dom (fst (broadcast_calls e rpc servers order xc)) = set order"
  by (induction order arbitrary: xc) (simp_all add: broadcast_calls_Cons Let_def del: dom_eq_empty_conv)

text \<open>C32: A broadcast succeeds only if the call of every server on the list succeeds, whatever the
  order in which the calls dial and end; otherwise it returns the error of the first call that failed
  in the order of the ends.  The reply, when one is wanted, is that of the first call that succeeded,
  also when the broadcast as a whole fails; a broadcast to no server succeeds without a reply.  The
  cache of clients stays well-formed.\<close>

theorem broadcast_needs_all:
  fixes xc :: "('d, 'b, 'v, 'r) xclient"
  assumes all: "get_all de (xc_d xc) = (Inr servers, d)" and inv: "xc_inv xc"
    and order: "mset order = mset [0..<length servers]" and ends: "mset ends = mset [0..<length servers]"
    and calls: "broadcast_calls e rpc servers order (xc\<lparr>xc_d := d\<rparr>) = (rs, xc1)"
    and bc: "Broadcast get_all de e rpc order ends want_reply xc = (err, reply, xc')"
  shows "(err = None \<longleftrightarrow> (\<forall>i < length servers. \<exists>v. rs i = Some (Inr v)))
       \<and> err = first_of (errors_of (map (\<lambda>i. the (rs i)) ends))
       \<and> reply = (if want_reply then first_of (values_of (map (\<lambda>i. the (rs i)) ends)) else None)
       \<and> (servers = [] \<longrightarrow> err = None \<and> reply = None)
       \<and> xc_inv xc'"
proof -
  let ?outs = "map (\<lambda>i. the (rs i)) ends"
  have dom: "i < length servers \<longleftrightarrow> rs i \<noteq> None" for i
    using broadcast_calls_dom [of e rpc servers order "xc\<lparr>xc_d := d\<rparr>"] mset_eq_setD [OF order] calls
    by (auto simp: dom_def)
  have e: "err = first_of (errors_of ?outs)"
    using bc by (simp add: Broadcast_def all calls broadcast_end_e Let_def)
  have "err = None \<longleftrightarrow> errors_of ?outs = []"
    unfolding e first_of_def by (simp split: list.splits)
  then have none: "err = None \<longleftrightarrow> (\<forall>i < length servers. \<exists>v. the (rs i) = Inr v)"
    using mset_eq_setD [OF ends] by (auto simp: errors_of_Nil)
  have "(\<exists>v. the (rs i) = Inr v) \<longleftrightarrow> (\<exists>v. rs i = Some (Inr v))" if "i < length servers" for i
    using dom [of i] that by auto
  with none have "err = None \<longleftrightarrow> (\<forall>i < length servers. \<exists>v. rs i = Some (Inr v))" by blast
  moreover have reply: "reply = (if want_reply then first_of (values_of ?outs) else None)"
    using bc by (auto simp: Broadcast_def all calls broadcast_end_reply first_of_def Let_def split: list.splits)
  moreover have "servers = [] \<longrightarrow> err = None \<and> reply = None"
    using none reply ends by (auto simp: first_of_def)
  moreover have "xc_inv xc'"
  proof -
    have "xc_inv (xc\<lparr>xc_d := d\<rparr>)" using inv by (simp add: xc_inv_def)
    from broadcast_calls_inv [OF this, of e rpc servers order] bc show ?thesis
      by (simp add: Broadcast_def all calls Let_def)
  qed
  ultimately show ?thesis using e by blast
qed

text \<open>Two servers: the call of the second, which ends first, fails after its dial; the first succeeds.\<close>

theorem broadcast_needs_all_witness:
  "\<exists>reply xc'. Broadcast multi_GetAll (demo_disc_env (Inr [])) (\<lambda>_. demo_dial)
      (\<lambda>i a. if i = 0 then Inr (3::nat) else Inl ''timeout'') [0, 1] [1, 0] True
      (NewXClient \<lparr>md_servers = [''tcp@host:1'', ''tcp@host:2''], md_index = 0\<rparr> 0
         (Some (DefaultOption\<lparr>ConnectTimeout := 0\<rparr>)) :: (multi_discovery, string, nat, nat) xclient)
    = (Some ''timeout'', reply, xc')"
proof -
  let ?opt = "Some (DefaultOption\<lparr>ConnectTimeout := 0\<rparr>)"
  let ?d = "\<lparr>md_servers = [''tcp@host:1'', ''tcp@host:2''], md_index = 0\<rparr>"
  let ?xc = "NewXClient ?d 0 ?opt :: (multi_discovery, string, nat, nat) xclient"
  let ?rpc = "\<lambda>(i::nat) (a::nat). if i = 0 then Inr (3::nat) else Inl ''timeout'' :: goerror + nat"
  have dial: "dr_result (XDial demo_dial addr [?opt]) = Inr (client_new (NewGobCodec [] True) :: (string, nat, nat) client)"
    if "addr \<in> {''tcp@host:1'', ''tcp@host:2''}" for addr
    using that by (auto simp: XDial_def rpc_Dial_def dialTimeout_def demo_dial_def NewClient_def parseOptions_def
        NewCodecFuncMap_def DefaultOption_def GobType_def)
  have all: "multi_GetAll (demo_disc_env (Inr [])) (xc_d ?xc) = (Inr [''tcp@host:1'', ''tcp@host:2''], ?d)"
    by (simp add: multi_GetAll_def NewXClient_def)
  have inv: "xc_inv ?xc" by (simp add: xc_inv_def NewXClient_def)
  have perm: "mset [0, 1] = mset [0..<length [''tcp@host:1'', ''tcp@host:2'']]"
    "mset [1, 0] = mset [0..<length [''tcp@host:1'', ''tcp@host:2'']]" by (simp_all add: upt_rec)
  obtain rs xc1 where calls: "broadcast_calls (\<lambda>_. demo_dial) ?rpc [''tcp@host:1'', ''tcp@host:2''] [0, 1]
      (?xc\<lparr>xc_d := ?d\<rparr>) = (rs, xc1)" by fastforce
  have call: "fst (xc_call demo_dial rpc addr x) = rpc (xc_next x)"
      "xc_opt (snd (xc_call demo_dial rpc addr x)) = ?opt"
      "addr' \<noteq> addr \<Longrightarrow> xc_clients (snd (xc_call demo_dial rpc addr x)) addr' = xc_clients x addr'"
    if "addr \<in> {''tcp@host:1'', ''tcp@host:2''}" "xc_clients x addr = None" "xc_opt x = ?opt"
    for addr addr' rpc and x :: "(multi_discovery, string, nat, nat) xclient"
    using that(2,3) dial [OF that(1)] by (simp_all add: xc_call_def xc_dial_def drop_unavailable_def Let_def)
  let ?x0 = "?xc\<lparr>xc_d := ?d\<rparr>"
  have x0: "xc_clients ?x0 a = None" "xc_opt ?x0 = ?opt" for a by (simp_all add: NewXClient_def)
  let ?x1 = "snd (xc_call demo_dial (?rpc 0) ''tcp@host:1'' ?x0)"
  have x1: "xc_clients ?x1 ''tcp@host:2'' = None" "xc_opt ?x1 = ?opt"
    using x0 call(2,3) [where x = ?x0 and addr = "''tcp@host:1''" and rpc = "?rpc 0"] by simp_all
  have "rs = fst (broadcast_calls (\<lambda>_. demo_dial) ?rpc [''tcp@host:1'', ''tcp@host:2''] [0, 1] ?x0)"
    by (simp only: calls fst_conv)
  also have "\<dots> = [1 \<mapsto> fst (xc_call demo_dial (?rpc 1) ''tcp@host:2'' ?x1), 0 \<mapsto> fst (xc_call demo_dial (?rpc 0) ''tcp@host:1'' ?x0)]"
    by (simp add: broadcast_calls_Cons Let_def del: One_nat_def)
  also have "\<dots> = [1 \<mapsto> Inl ''timeout'', 0 \<mapsto> Inr 3]"
    using call(1) [where x = ?x0 and addr = "''tcp@host:1''" and rpc = "?rpc 0"] x0
      call(1) [where x = ?x1 and addr = "''tcp@host:2''" and rpc = "?rpc 1"] x1 by simp
  finally have "rs 0 = Some (Inr 3) \<and> rs 1 = Some (Inl ''timeout'')" by simp
  moreover obtain err reply xc' where bc: "Broadcast multi_GetAll (demo_disc_env (Inr [])) (\<lambda>_. demo_dial) ?rpc
      [0, 1] [1, 0] True ?xc = (err, reply, xc')" by (metis prod.collapse)
  ultimately have "err = Some ''timeout''"
    using broadcast_needs_all [OF all inv perm calls bc] by (simp add: errors_of_def first_of_def)
  with bc show ?thesis by blast
qed

text \<open>A call goes to a server on the list that the discovery then holds, or fails.\<close>

context discovery
begin

lemma call_goes_to_listed_server:
  assumes "env_ok de" and "XClient_Call get de e rpc xc = (Inr v, xc')"
  shows "\<exists>rpcAddr d. get (xc_mode xc) de (xc_d xc) = (Inr rpcAddr, d) \<and> rpcAddr \<in> set (servers d)
           \<and> xc_call e rpc rpcAddr (xc\<lparr>xc_d := d\<rparr>) = (Inr v, xc')"
proof -
  obtain r d where g: "get (xc_mode xc) de (xc_d xc) = (r, d)" by fastforce
  with assms(2) obtain a where a: "r = Inr a" by (cases r) (auto simp: XClient_Call_def)
  with g get_member [OF assms(1)] assms(2) show ?thesis by (auto simp: XClient_Call_def)
qed

end

end
