(* ===== verification/RpcRoundTrip.thy ===== *)
theory RpcRoundTrip
  imports RpcClient ServeLoop
begin

text \<open>
  A call from end to end: what the client of the theory RpcClient writes for a call is what the server
  of the theory ServeLoop reads, and what the server has written when it closes the connection is
  what the client receives.  The run of the server is any interleaving of its goroutines.
\<close>

section \<open>The server on one request\<close>

definition request_of ::
    "header \<Rightarrow> ('a, 'w) service \<Rightarrow> ('a, 'w) method_type \<Rightarrow> 'a gvalue \<Rightarrow> 'a gvalue \<Rightarrow> ('a, 'w) request" where
  "request_of h svc mt arg reply =
     \<lparr>req_h = h, req_argv = arg, req_replyv = reply, req_mtype = mt, req_svc = svc_name svc\<rparr>"

text \<open>The messages of the response to a method that returned \<open>err\<close> and \<open>reply\<close>.\<close>

definition response_header :: "header \<Rightarrow> goerror option \<Rightarrow> header" where
  "response_header h err = (case err of None \<Rightarrow> h | Some e \<Rightarrow> h\<lparr>h_Error := e\<rparr>)"

lemma response_header_simps [simp]:
  "h_Seq (response_header h err) = h_Seq h" "ServiceMethod (response_header h err) = ServiceMethod h"
  "h_Error (response_header h None) = h_Error h" "h_Error (response_header h (Some e)) = e"
  by (simp_all add: response_header_def split: option.splits)

definition response_body :: "goerror option \<Rightarrow> 'a gvalue \<Rightarrow> 'a rpc_body" where
  "response_body err reply = (case err of None \<Rightarrow> ReplyValue reply | Some e \<Rightarrow> InvalidRequest)"

text \<open>How far the request has come: where its handler and worker stand, and what has been written.\<close>

fun request_at ::
    "('a, 'w) request \<Rightarrow> goerror option \<Rightarrow> 'a gvalue \<Rightarrow> ('a, 'w) server \<Rightarrow> 'w \<Rightarrow> 'b message list
       \<Rightarrow> ('a, 'b, 'w) conn_state \<Rightarrow> handler_pc \<Rightarrow> ('a, 'w) worker_pc \<Rightarrow> bool" where
  "request_at q err reply srv w resp y HSelect (WCall r) \<longleftrightarrow>
     r = q \<and> serviceMap (cs_server y) = serviceMap srv \<and> cs_world y = w \<and> conn_out (cs_codec y) = []"
| "request_at q err reply srv w resp y HSelect (WSendCalled e v) \<longleftrightarrow>
     e = err \<and> v = reply \<and> conn_out (cs_codec y) = []"
| "request_at q err reply srv w resp y HWaitSent (WRespond e v) \<longleftrightarrow>
     e = err \<and> v = reply \<and> conn_out (cs_codec y) = []"
| "request_at q err reply srv w resp y HWaitSent WSendSent \<longleftrightarrow> conn_out (cs_codec y) = resp"
| "request_at q err reply srv w resp y HDone WExit \<longleftrightarrow> conn_out (cs_codec y) = resp"
| "request_at q err reply srv w resp y _ _ \<longleftrightarrow> False"

lemma request_at_call:
  "request_at q err reply srv w resp y pc (WCall r) \<Longrightarrow>
     pc = HSelect \<and> r = q \<and> serviceMap (cs_server y) = serviceMap srv \<and> cs_world y = w \<and> conn_out (cs_codec y) = []"
  by (cases pc) simp_all

lemma request_at_respond:
  "request_at q err reply srv w resp y pc (WRespond e v) \<Longrightarrow>
     pc = HWaitSent \<and> e = err \<and> v = reply \<and> conn_out (cs_codec y) = []"
  by (cases pc) simp_all

lemma request_at_done: "request_at q err reply srv w resp y HDone wk \<Longrightarrow> conn_out (cs_codec y) = resp"
  by (cases wk) simp_all

lemma request_at_timed_out [simp]: "\<not> request_at q err reply srv w resp y HTimedOut wk"
  by (cases wk) simp_all

lemma request_at_same:
  "request_at q err reply srv w resp y pc wk \<Longrightarrow> conn_out (cs_codec z) = conn_out (cs_codec y) \<Longrightarrow>
     cs_server z = cs_server y \<Longrightarrow> cs_world z = cs_world y \<Longrightarrow> request_at q err reply srv w resp z pc wk"
  by (cases pc; cases wk) simp_all

definition serving ::
    "header \<Rightarrow> ('a, 'w) request \<Rightarrow> goerror option \<Rightarrow> 'a gvalue \<Rightarrow> ('a, 'w) server \<Rightarrow> 'w \<Rightarrow> 'b message list
       \<Rightarrow> ('a, 'b, 'w) conn_state \<Rightarrow> ('a, 'w) handler \<Rightarrow> bool" where
  "serving h q err reply srv w resp y hr \<longleftrightarrow>
     cs_handlers y = [0 \<mapsto> hr] \<and> hd_h hr = h \<and> request_at q err reply srv w resp y (hd_pc hr) (hd_worker hr)
     \<and> conn_in (cs_codec y) = [] \<and> conn_up (cs_codec y)
     \<and> (hd_pc hr \<noteq> HDone \<longrightarrow> gob_fresh (cs_codec y))
     \<and> (cs_reader y \<in> {Reading, Draining} \<or> cs_reader y = ConnClosed \<and> hd_pc hr = HDone)"

text \<open>What is left to do, which every step makes smaller.\<close>

definition serving_rank :: "('a, 'b, 'w) conn_state \<Rightarrow> ('a, 'w) handler \<Rightarrow> nat" where
  "serving_rank y hr = request_rank (Some hr) + (case cs_reader y of Reading \<Rightarrow> 2 | Draining \<Rightarrow> 1 | _ \<Rightarrow> 0)"

lemma serving_reader:
  assumes "serving h q err reply srv w resp y hr" and "cs_reader y = Reading"
  shows "serving h q err reply srv w resp (reader_turn env y) hr
       \<and> serving_rank (reader_turn env y) hr < serving_rank y hr"
proof -
  have "conn_in (cs_codec y) = []" using assms(1) by (simp add: serving_def)
  then have "\<exists>e. readRequest (env_g env) (env_dec env) (cs_server y) (cs_codec y) = Ret (NoRequest e, cs_codec y)"
    by (simp add: readRequest_def readRequestHeader_def ReadHeader_def gob_decode_def)
  then have turn: "reader_turn env y = y\<lparr>cs_reader := Draining\<rparr>" by (auto simp: reader_turn_def)
  show ?thesis
    using assms request_at_same [of q err reply srv w resp y "hd_pc hr" "hd_worker hr" "reader_turn env y"]
    by (simp add: serving_def serving_rank_def turn)
qed

text \<open>One step of the connection while it serves the request, without a timeout.\<close>

lemma serving_step:
  assumes s: "serving h q err reply srv w resp y hr" and step: "conn_step env y z"
    and timeout: "env_timeout env = 0"
    and svc: "serviceMap srv (req_svc q) = Some svc"
    and call: "service_call (rm_Name (mt_method (req_mtype q))) (req_mtype q) (req_argv q) (req_replyv q) svc w
                 = Ret ((err, reply), svc', w')"
    and enc: "env_enc env (response_body err reply) = Inr b'"
    and resp: "resp = [HeaderMsg (response_header h err), BodyMsg b']"
  shows "\<exists>hr'. serving h q err reply srv w resp z hr' \<and> serving_rank z hr' < serving_rank y hr"
proof -
  have hr: "cs_handlers y = [0 \<mapsto> hr]" "hd_h hr = h"
      "request_at q err reply srv w resp y (hd_pc hr) (hd_worker hr)"
    and codec: "conn_in (cs_codec y) = []" "conn_up (cs_codec y)" "hd_pc hr \<noteq> HDone \<longrightarrow> gob_fresh (cs_codec y)"
    and rd: "cs_reader y \<in> {Reading, Draining} \<or> cs_reader y = ConnClosed \<and> hd_pc hr = HDone"
    using s unfolding serving_def by blast+
  have only: "i = 0 \<and> hr' = hr" if "cs_handlers y i = Some hr'" for i hr'
    using that hr(1) by (simp split: if_splits)
  from step show ?thesis
  proof cases
    case read
    with serving_reader [OF s] show ?thesis by blast
  next
    case (call i hr' r)
    note eq = only [OF call(3)]
    note at = request_at_call [OF hr(3) [unfolded conjunct2 [OF eq, symmetric] call(4)]]
    have "z = set_handler 0 (hr\<lparr>hd_worker := WSendCalled err reply\<rparr>)
        (y\<lparr>cs_server := (cs_server y)\<lparr>serviceMap := (serviceMap (cs_server y))(req_svc q \<mapsto> svc')\<rparr>, cs_world := w'\<rparr>)"
      using svc assms(5) eq at call(1) by (simp add: worker_call_def)
    with eq at hr codec rd call(4) have "serving h q err reply srv w resp z (hr\<lparr>hd_worker := WSendCalled err reply\<rparr>)
        \<and> serving_rank z (hr\<lparr>hd_worker := WSendCalled err reply\<rparr>) < serving_rank y hr"
      by (simp add: serving_def serving_rank_def request_rank_def)
    then show ?thesis ..
  next
    case (called i hr' e v)
    with only [OF called(3)] hr codec rd
    have "serving h q err reply srv w resp z (hr\<lparr>hd_worker := WRespond err reply, hd_pc := HWaitSent\<rparr>)
        \<and> serving_rank z (hr\<lparr>hd_worker := WRespond err reply, hd_pc := HWaitSent\<rparr>) < serving_rank y hr"
      by (simp add: serving_def serving_rank_def request_rank_def)
    then show ?thesis ..
  next
    case (respond i hr' e v)
    note eq = only [OF respond(3)]
    note at = request_at_respond [OF hr(3) [unfolded conjunct2 [OF eq, symmetric] respond(4)]]
    from codec(3) at eq have fresh: "gob_fresh (cs_codec y)" by simp
    from gob_Write_ok [of "cs_codec y" "env_enc env" "response_body err reply" b', OF fresh codec(2) enc] at
    have "gob_Write (env_enc env) (response_header h err) (response_body err reply) (cs_codec y)
        = (None, (cs_codec y)\<lparr>conn_out := resp\<rparr>)" by (simp add: resp)
    then have "worker_respond env 0 hr err reply y = set_handler 0 (hr\<lparr>hd_worker := WSendSent\<rparr>)
        (y\<lparr>cs_codec := (cs_codec y)\<lparr>conn_out := resp\<rparr>,
           cs_sent := cs_sent y @ [(0, response_header h err, response_body err reply)]\<rparr>)"
      using hr(2) by (cases err) (simp_all add: worker_respond_def sendResponse_def response_header_def response_body_def)
    then have z: "z = set_handler 0 (hr\<lparr>hd_worker := WSendSent\<rparr>)
        (y\<lparr>cs_codec := (cs_codec y)\<lparr>conn_out := resp\<rparr>,
           cs_sent := cs_sent y @ [(0, response_header h err, response_body err reply)]\<rparr>)"
      using respond(1) eq at by simp
    have "serving h q err reply srv w resp z (hr\<lparr>hd_worker := WSendSent\<rparr>)
        \<and> serving_rank z (hr\<lparr>hd_worker := WSendSent\<rparr>) < serving_rank y hr"
      using hr(1,2) at eq codec(1,2) fresh rd respond(4) by (simp add: serving_def serving_rank_def request_rank_def z gob_fresh_def)
    then show ?thesis ..
  next
    case (sent i hr')
    with only [OF sent(3)] hr codec rd
    have "serving h q err reply srv w resp z (hr\<lparr>hd_worker := WExit, hd_pc := HDone\<rparr>)
        \<and> serving_rank z (hr\<lparr>hd_worker := WExit, hd_pc := HDone\<rparr>) < serving_rank y hr"
      by (simp add: serving_def serving_rank_def request_rank_def)
    then show ?thesis ..
  next
    case finish
    then have pc: "hd_pc hr = HDone" using hr(1) by simp
    have "serving h q err reply srv w resp z hr
        \<and> serving_rank z hr < serving_rank y hr"
      using hr codec pc request_at_same [of q err reply srv w resp y HDone "hd_worker hr" z] finish(1,2)
      by (simp add: serving_def serving_rank_def request_rank_def conn_finish_def gob_Close_def)
    then show ?thesis ..
  next
    case (timeout i hr')
    then show ?thesis using assms(3) by simp
  next
    case (timeout_reply i hr')
    with only [OF timeout_reply(3)] hr(3) show ?thesis by simp
  next
    case (reply_bad i e hr')
    with rd show ?thesis by simp
  qed
qed

text \<open>Until the connection is closed somebody can move.\<close>

lemma serving_progress:
  assumes s: "serving h q err reply srv w resp y hr" and opened: "cs_reader y \<noteq> ConnClosed"
  shows "\<exists>z. conn_step env y z"
proof -
  have hr: "cs_handlers y 0 = Some hr" and run: "cs_reader y \<noteq> Crash"
    and at: "request_at q err reply srv w resp y (hd_pc hr) (hd_worker hr)"
    and rd: "cs_reader y = Reading \<or> cs_reader y = Draining"
    using s opened by (auto simp: serving_def)
  show ?thesis
  proof (cases "cs_reader y = Reading")
    case True
    from conn_step.read [OF this] show ?thesis by blast
  next
    case False
    show ?thesis
    proof (cases "hd_worker hr")
      case (WCall r)
      from conn_step.call [OF run hr WCall] show ?thesis by blast
    next
      case (WSendCalled e v)
      with at have "hd_pc hr = HSelect" by (cases "hd_pc hr") simp_all
      from conn_step.called [OF run hr WSendCalled this] show ?thesis by blast
    next
      case (WRespond e v)
      from conn_step.respond [OF run hr WRespond] show ?thesis by blast
    next
      case WSendSent
      with at have "hd_pc hr = HWaitSent" by (cases "hd_pc hr") simp_all
      from conn_step.sent [OF run hr WSendSent this] show ?thesis by blast
    next
      case WExit
      with at have "hd_pc hr = HDone" by (cases "hd_pc hr") simp_all
      with hr s have "\<forall>i hr. cs_handlers y i = Some hr \<longrightarrow> hd_pc hr = HDone" by (simp add: serving_def)
      with conn_step.finish [of y env] False rd show ?thesis by blast
    qed
  qed
qed

section \<open>The client around it\<close>

text \<open>\<open>Go\<close> and the \<open>Write\<close> that it ends with, without anybody in between.\<close>

definition client_send :: "('v \<Rightarrow> goerror + 'b) \<Rightarrow> string \<Rightarrow> 'v \<Rightarrow> ('b, 'v, 'r) client \<Rightarrow> ('b, 'v, 'r) client" where
  "client_send enc sm args s =
     (let s1 = client_Go sm args s in
      case cl_send s1 of
        SWrite c q \<Rightarrow> (case cl_calls s1 c of Some x \<Rightarrow> send_write enc c q x s1 | None \<Rightarrow> s1)
      | _ \<Rightarrow> s1)"

text \<open>One turn of the loop of \<open>receive\<close>.\<close>

definition receive_turn ::
    "('b \<Rightarrow> goerror + header) \<Rightarrow> ('b message \<Rightarrow> goerror + 'r) \<Rightarrow> ('b, 'v, 'r) client \<Rightarrow> ('b, 'v, 'r) client" where
  "receive_turn g dec s =
     (let s1 = recv_header g s in
      case cl_recv s1 of
        RHeader h \<Rightarrow> recv_body dec h (cl_pending s1 (h_Seq h)) (recv_remove h s1)
      | _ \<Rightarrow> s1)"

text \<open>The bytes that are on their way to an end of the connection.\<close>

definition deliver :: "'b message list \<Rightarrow> ('b, 'v, 'r) client \<Rightarrow> ('b, 'v, 'r) client" where
  "deliver ms s = s\<lparr>cl_cc := (cl_cc s)\<lparr>conn_in := conn_in (cl_cc s) @ ms\<rparr>\<rparr>"

lemma client_send_new:
  fixes enc :: "'v \<Rightarrow> goerror + 'b"
  assumes "enc args = Inr b"
  shows "client_send enc sm args (client_new (NewGobCodec [] True) :: ('b, 'v, 'r) client) =
     (client_new (NewGobCodec [] True))
       \<lparr>cl_cc := (NewGobCodec [] True)\<lparr>conn_out := [HeaderMsg \<lparr>ServiceMethod = sm, h_Seq = 1, h_Error = ''''\<rparr>, BodyMsg b]\<rparr>,
        cl_seq := 2, cl_pending := [1 \<mapsto> 0], cl_calls := [0 \<mapsto> (new_call sm args)\<lparr>rc_Seq := 1\<rparr>],
        cl_next := 1, cl_registered := 1, cl_send := SIdle\<rparr>"
proof -
  let ?s = "client_new (NewGobCodec [] True) :: ('b, 'v, 'r) client"
  let ?c = "NewGobCodec [] True :: 'b gob_codec"
  have "\<not> (cl_closing ?s \<or> cl_shutdown ?s)" by (simp add: client_new_def)
  note go = client_Go_registered [OF this, of sm args]
  have "gob_fresh ?c" "conn_up ?c" by (simp_all add: gob_fresh_def NewGobCodec_def)
  note gob_Write_ok [of ?c enc args b, OF this assms]
  with go show ?thesis
    by (simp add: client_send_def Let_def send_write_def client_new_def new_call_def NewGobCodec_def)
qed

text \<open>What the caller of a call gets from a method that returned \<open>err\<close> and a reply that the
  client decodes to \<open>r\<close>.\<close>

definition call_result :: "goerror option \<Rightarrow> 'r \<Rightarrow> ('v, 'r) rpc_call \<Rightarrow> bool" where
  "call_result err r x \<longleftrightarrow>
     rc_dones x = 1 \<and> rc_Error x = err \<and> rc_Reply x = (case err of None \<Rightarrow> Some r | Some _ \<Rightarrow> None)"

lemma receive_turn_answer:
  fixes s :: "('b, 'v, 'r) client"
  assumes s: "\<not> conn_closed (cl_cc s)" "conn_in (cl_cc s) = [HeaderMsg (response_header h err), BodyMsg b']"
    and x: "cl_pending s (h_Seq h) = Some c" "cl_calls s c = Some x"
      "rc_dones x = 0" "rc_Error x = None" "rc_Reply x = None"
    and h: "h_Error h = ''''" "err \<noteq> Some ''''"
    and dec: "err = None \<longrightarrow> dec (BodyMsg b') = Inr r"
  shows "\<exists>y. cl_calls (receive_turn g dec s) c = Some y \<and> call_result err r y
           \<and> rc_ServiceMethod y = rc_ServiceMethod x \<and> rc_Args y = rc_Args x
           \<and> cl_pending (receive_turn g dec s) (h_Seq h) = None \<and> cl_recv (receive_turn g dec s) = RRead"
proof -
  have hd: "recv_header g s = s\<lparr>cl_cc := (cl_cc s)\<lparr>conn_in := [BodyMsg b']\<rparr>, cl_recv := RHeader (response_header h err)\<rparr>"
    by (simp add: recv_header_def ReadHeader_HeaderMsg [OF s])
  show ?thesis
    using s x h dec
    by (cases err) (simp_all add: receive_turn_def Let_def hd recv_remove_def removeCall_def recv_body_def ReadBody_def
        gob_decode_def discard_def recv_next_def finish_call_def set_Error_def call_result_def)
qed

section \<open>Properties\<close>

text \<open>The first turn of the reader takes the request.\<close>

lemma serving_start:
  fixes srv :: "('a, 'w) server" and env :: "('a, 'b) rpc_env" and w :: 'w
  assumes find: "findService (ServiceMethod h) srv = Inr (svc, mt)" and ptr: "kind (ReplyType mt) = KPtr"
    and new: "newArgv mt = Ret argv" "newReplyv mt = Ret replyv"
    and dec: "env_dec env (argv_target argv (ArgType mt)) (BodyMsg b) = Inr x"
  defines "y0 \<equiv> conn_init srv (NewGobCodec [HeaderMsg h, BodyMsg b] True) w"
    and "q \<equiv> request_of h svc mt (argv_store argv x) replyv"
  shows "serving h q err reply srv w resp (reader_turn env y0) \<lparr>hd_h = h, hd_pc = HSelect, hd_worker = WCall q\<rparr>"
proof -
  let ?c = "NewGobCodec [HeaderMsg h, BodyMsg b] True :: 'b gob_codec"
  have "\<not> conn_closed ?c" "conn_in ?c = HeaderMsg h # BodyMsg b # []" by (simp_all add: NewGobCodec_def)
  from readRequest_pair [OF this find ptr, of "env_g env" "env_dec env"] new dec
  have "readRequest (env_g env) (env_dec env) srv ?c = Ret (Request q, NewGobCodec [] True)"
    by (simp add: q_def request_of_def NewGobCodec_def)
  then have "reader_turn env y0 = spawn h (Some q) (y0\<lparr>cs_codec := NewGobCodec [] True\<rparr>)"
    by (simp add: reader_turn_def y0_def conn_init_def q_def request_of_def)
  then show ?thesis
    by (simp add: serving_def y0_def conn_init_def spawn_def NewGobCodec_def gob_fresh_def)
qed

text \<open>The first step is the reader's, because there is nobody else.\<close>

lemma conn_init_step: "conn_step env (conn_init srv cc w) z \<Longrightarrow> z = reader_turn env (conn_init srv cc w)"
  by (erule conn_step.cases) (auto simp: conn_init_def)

lemma serving_run:
  assumes run: "(conn_step env)\<^sup>*\<^sup>* y z" and start: "serving h q err reply srv w resp y hr"
    and step: "\<And>y z hr. serving h q err reply srv w resp y hr \<Longrightarrow> conn_step env y z \<Longrightarrow>
        \<exists>hr'. serving h q err reply srv w resp z hr' \<and> serving_rank z hr' < serving_rank y hr"
  shows "\<exists>hr'. serving h q err reply srv w resp z hr'"
  using run by induction (use start step in blast)+

lemma serving_ends:
  assumes "serving h q err reply srv w resp y hr"
    and step: "\<And>y z hr. serving h q err reply srv w resp y hr \<Longrightarrow> conn_step env y z \<Longrightarrow>
        \<exists>hr'. serving h q err reply srv w resp z hr' \<and> serving_rank z hr' < serving_rank y hr"
  shows "\<exists>z. (conn_step env)\<^sup>*\<^sup>* y z \<and> cs_reader z = ConnClosed"
  using assms(1)
proof (induction "serving_rank y hr" arbitrary: y hr rule: less_induct)
  case less
  show ?case
  proof (cases "cs_reader y = ConnClosed")
    case True
    then show ?thesis by blast
  next
    case False
    from serving_progress [OF less.prems this, where env = env] obtain z where z: "conn_step env y z" by blast
    from step [OF less.prems z] less.hyps show ?thesis
      by (meson z converse_rtranclp_into_rtranclp)
  qed
qed

lemma serving_closed:
  "serving h q err reply srv w resp y hr \<Longrightarrow> cs_reader y = ConnClosed \<Longrightarrow> conn_out (cs_codec y) = resp"
  using request_at_done [of q err reply srv w resp y "hd_worker hr"] by (auto simp: serving_def)

text \<open>The whole life of a connection with one request on it, under every scheduling.\<close>

lemma one_call_runs:
  fixes srv :: "('a, 'w) server" and env :: "('a, 'b) rpc_env" and w :: 'w
  assumes find: "findService (ServiceMethod h) srv = Inr (svc, mt)" and stored: "serviceMap srv (svc_name svc) = Some svc"
    and ptr: "kind (ReplyType mt) = KPtr" and new: "newArgv mt = Ret argv" "newReplyv mt = Ret replyv"
    and dec: "env_dec env (argv_target argv (ArgType mt)) (BodyMsg b) = Inr x"
    and call: "service_call (rm_Name (mt_method mt)) mt (argv_store argv x) replyv svc w
                 = Ret ((err, reply), svc', w')"
    and enc: "env_enc env (response_body err reply) = Inr b'" and timeout: "env_timeout env = 0"
    and y0: "y0 = conn_init srv (NewGobCodec [HeaderMsg h, BodyMsg b] True) w"
  shows "(conn_step env)\<^sup>*\<^sup>* y0 y \<Longrightarrow> \<exists>z. (conn_step env)\<^sup>*\<^sup>* y z \<and> cs_reader z = ConnClosed"
    and "(conn_step env)\<^sup>*\<^sup>* y0 z \<Longrightarrow> cs_reader z = ConnClosed \<Longrightarrow>
      conn_out (cs_codec z) = [HeaderMsg (response_header h err), BodyMsg b']"
proof -
  define q where "q = request_of h svc mt (argv_store argv x) replyv"
  let ?resp = "[HeaderMsg (response_header h err), BodyMsg b']"
  have q: "req_svc q = svc_name svc" "req_mtype q = mt" "req_argv q = argv_store argv x" "req_replyv q = replyv"
    by (simp_all add: q_def request_of_def)
  from serving_start [OF find ptr new dec, of err reply w ?resp]
  have first: "serving h q err reply srv w ?resp (reader_turn env y0) \<lparr>hd_h = h, hd_pc = HSelect, hd_worker = WCall q\<rparr>"
    by (simp add: y0 q_def)
  have adv: "\<exists>hr'. serving h q err reply srv w ?resp z hr' \<and> serving_rank z hr' < serving_rank y hr"
    if "serving h q err reply srv w ?resp y hr" "conn_step env y z" for y z hr
    using serving_step [OF that timeout _ _ enc refl, of svc svc' w'] stored call by (simp add: q)
  have later: "y = y0 \<or> (\<exists>hr. serving h q err reply srv w ?resp y hr)" if "(conn_step env)\<^sup>*\<^sup>* y0 y" for y
    using that
  proof (cases rule: converse_rtranclpE)
    case (step z)
    with conn_init_step [of env srv _ w z] have "z = reader_turn env y0" by (simp add: y0)
    with serving_run [OF step(2) _ adv] first show ?thesis by blast
  qed simp
  have start: "conn_step env y0 (reader_turn env y0)" by (rule conn_step.read) (simp add: y0 conn_init_def)
  show "\<exists>z. (conn_step env)\<^sup>*\<^sup>* y z \<and> cs_reader z = ConnClosed" if "(conn_step env)\<^sup>*\<^sup>* y0 y" for y
  proof (cases "y = y0")
    case True
    from serving_ends [OF first adv] obtain z
      where z: "(conn_step env)\<^sup>*\<^sup>* (reader_turn env y0) z" "cs_reader z = ConnClosed" by blast
    from converse_rtranclp_into_rtranclp [of "conn_step env", OF start z(1)] z(2) True show ?thesis by blast
  next
    case False
    with later [OF that] serving_ends [OF _ adv] show ?thesis by blast
  qed
  show "conn_out (cs_codec z) = ?resp" if "(conn_step env)\<^sup>*\<^sup>* y0 z" and closed: "cs_reader z = ConnClosed" for z
  proof -
    have "z \<noteq> y0" using closed by (auto simp: y0 conn_init_def)
    with later [OF that(1)] obtain hr where "serving h q err reply srv w ?resp z hr" by blast
    from serving_closed [OF this closed] show ?thesis .
  qed
qed

text \<open>C20: A call from end to end.  Let the service method of a call be registered and take its reply
  through a pointer, let the two sides be able to encode and decode what the call and its answer
  carry, and let no handle timeout be set.  Then, whatever the scheduling of the server's
  goroutines, the connection that has been sent what the client writes for the call can always be
  run until it is closed; and when it is closed, what it has written makes the client's receiver
  complete the call: exactly once, with the method's reply on the arguments that the client passed,
  or with the error that the method returned.\<close>

theorem rpc_call_end_to_end:
  fixes srv :: "('a, 'w) server" and env :: "('a, 'b) rpc_env" and dec :: "'b message \<Rightarrow> goerror + 'r"
    and enc :: "'v \<Rightarrow> goerror + 'b"
  assumes find: "findService sm srv = Inr (svc, mt)" and stored: "serviceMap srv (svc_name svc) = Some svc"
    and ptr: "kind (ReplyType mt) = KPtr" and new: "newArgv mt = Ret argv" "newReplyv mt = Ret replyv"
    and request: "enc args = Inr b" "env_dec env (argv_target argv (ArgType mt)) (BodyMsg b) = Inr x"
    and call: "service_call (rm_Name (mt_method mt)) mt (argv_store argv x) replyv svc w
                 = Ret ((err, reply), svc', w')"
    and response: "env_enc env (response_body err reply) = Inr b'" "err = None \<longrightarrow> dec (BodyMsg b') = Inr r"
    and error: "err \<noteq> Some ''''" and timeout: "env_timeout env = 0"
  shows "let c = client_send enc sm args (client_new (NewGobCodec [] True));
             y0 = conn_init srv (NewGobCodec (conn_out (cl_cc c)) True) w
         in (\<forall>y. (conn_step env)\<^sup>*\<^sup>* y0 y \<longrightarrow> (\<exists>z. (conn_step env)\<^sup>*\<^sup>* y z \<and> cs_reader z = ConnClosed))
          \<and> (\<forall>z. (conn_step env)\<^sup>*\<^sup>* y0 z \<longrightarrow> cs_reader z = ConnClosed \<longrightarrow>
               (\<exists>a. cl_calls (receive_turn g dec (deliver (conn_out (cs_codec z)) c)) 0 = Some a
                  \<and> call_result err r a))"
proof -
  define h where "h = \<lparr>ServiceMethod = sm, h_Seq = 1, h_Error = ''''\<rparr>"
  define c :: "('b, 'v, 'r) client" where "c = client_send enc sm args (client_new (NewGobCodec [] True))"
  define y0 :: "('a, 'b, 'w) conn_state" where "y0 = conn_init srv (NewGobCodec (conn_out (cl_cc c)) True) w"
  let ?resp = "[HeaderMsg (response_header h err), BodyMsg b']"
  note c = client_send_new [where 'r = 'r and enc = enc and args = args and b = b and sm = sm,
      OF request(1), folded c_def h_def]
  have y0: "y0 = conn_init srv (NewGobCodec [HeaderMsg h, BodyMsg b] True) w" by (simp add: y0_def c)
  have "findService (ServiceMethod h) srv = Inr (svc, mt)" by (simp add: h_def find)
  note runs = one_call_runs [OF this stored ptr new request(2) call response(1) timeout y0]
  let ?d = "deliver ?resp c"
  have "\<not> conn_closed (cl_cc ?d)" "conn_in (cl_cc ?d) = ?resp" "cl_pending ?d (h_Seq h) = Some 0"
    "cl_calls ?d 0 = Some ((new_call sm args)\<lparr>rc_Seq := 1\<rparr>)" "h_Error h = ''''"
    by (simp_all add: deliver_def c NewGobCodec_def h_def)
  from receive_turn_answer [of ?d h err b' 0 "(new_call sm args)\<lparr>rc_Seq := 1\<rparr>" dec r g,
      OF this(1-4) _ _ _ this(5) error response(2)]
  have "\<exists>a. cl_calls (receive_turn g dec ?d) 0 = Some a \<and> call_result err r a"
    by (auto simp: new_call_def)
  with runs show ?thesis by (simp add: c_def [symmetric] y0_def [symmetric])
qed

text \<open>The demo service called with two, without a handle timeout: the client gets the length of the
  body that the server sends.\<close>

theorem rpc_call_end_to_end_witness:
  "let env = demo_env\<lparr>env_timeout := 0\<rparr>;
       c = client_send demo_cenc ''Foo.Sum'' 2 (client_new (NewGobCodec [] True));
       y0 = conn_init demo_server (NewGobCodec (conn_out (cl_cc c)) True) 0
   in \<exists>z. (conn_step env)\<^sup>*\<^sup>* y0 z \<and> cs_reader z = ConnClosed
        \<and> (\<exists>a. cl_calls (receive_turn demo_cg demo_cdec (deliver (conn_out (cs_codec z)) c)) 0 = Some a
             \<and> rc_dones a = 1 \<and> rc_Error a = None \<and> rc_Reply a = Some (4 :: nat))"
proof -
  let ?mt = "method_entry (demo_method ''Sum'' (Ptr (Basic ''int'')))"
  let ?svc = "\<lparr>svc_name = ''Foo'', svc_methods = registerMethods demo_methods\<rparr>"
  let ?env = "demo_env\<lparr>env_timeout := 0\<rparr>"
  have "serviceMap demo_server (svc_name ?svc) = Some ?svc" by (simp add: demo_server_def)
  moreover have "kind (ReplyType ?mt) = KPtr" "newArgv ?mt = Ret (Zero demo_args)"
    "newReplyv ?mt = Ret (Ref (Zero (Basic ''int'')))"
    by (simp_all add: method_entry_def demo_method_def newArgv_def newReplyv_def demo_args_def)
  moreover have "demo_cenc 2 = Inr ''xx''" by (simp add: demo_cenc_def numeral_2_eq_2)
  moreover have "env_dec ?env (argv_target (Zero demo_args) (ArgType ?mt)) (BodyMsg ''xx'') = Inr (Data demo_args 2)"
    by (simp add: demo_env_def method_entry_def demo_method_def)
  moreover have "service_call (rm_Name (mt_method ?mt)) ?mt (argv_store (Zero demo_args) (Data demo_args 2))
      (Ref (Zero (Basic ''int''))) ?svc 0
    = Ret ((None, Ref (Data (Basic ''int'') 1)), count_call (rm_Name (mt_method ?mt)) ?svc, 1)"
    by (simp add: service_call_def reflect_Call_def method_entry_def demo_method_def assignable_def)
  moreover have "env_enc ?env (response_body None (Ref (Data (Basic ''int'') 1))) = Inr ''body''"
    by (simp add: demo_env_def)
  moreover have "demo_cdec (BodyMsg ''body'') = Inr 4" by simp
  ultimately show ?thesis
    using rpc_call_end_to_end [OF demo_findService, of "Zero demo_args" "Ref (Zero (Basic ''int''))" demo_cenc 2 "''xx''"
        ?env "Data demo_args 2" 0 None "Ref (Data (Basic ''int'') 1)" "count_call (rm_Name (mt_method ?mt)) ?svc" 1
        "''body''" demo_cdec 4 demo_cg]
    by (fastforce simp: Let_def call_result_def)
qed

end
