(* ===== verification/RpcWire.thy ===== *)
theory RpcWire
  imports RpcClient ServeLoop
begin

text \<open>
  The client and the server of \<^verbatim>\<open>geerpc\<close> on one connection: a transition system whose steps are the
  steps of the theories RpcClient and ServeLoop, with what one side writes appended to what the other
  has still to read.  Any number of callers, the receiver, the reader, the handlers and the workers
  interleave, either side may close, and the connection may break at any moment in either
  direction.  The second half says what the messages on the connection mean: which request asks for
  what, and which response answers it.
\<close>

section \<open>The system\<close>

text \<open>What a side has written in a step, and its arrival at the other side.\<close>

definition sent_since :: "'b gob_codec \<Rightarrow> 'b gob_codec \<Rightarrow> 'b message list" where
  "sent_since c c' = drop (length (conn_out c)) (conn_out c')"

definition arrive :: "'b message list \<Rightarrow> 'b gob_codec \<Rightarrow> 'b gob_codec" where
  "arrive ms c = c\<lparr>conn_in := conn_in c @ ms\<rparr>"

text \<open>A read returns when there is a message, or when there will be none: because this side or the
  other has closed the connection, or the connection is broken.\<close>

definition read_returns :: "'b gob_codec \<Rightarrow> 'b gob_codec \<Rightarrow> bool" where
  "read_returns c peer \<longleftrightarrow> conn_in c \<noteq> [] \<or> conn_closed c \<or> conn_closed peer \<or> \<not> conn_up peer"

definition client_reads :: "('b, 'v, 'r) client \<Rightarrow> ('b, 'v, 'r) client \<Rightarrow> bool" where
  "client_reads c c' \<longleftrightarrow> cl_recv c' \<noteq> cl_recv c \<and> (cl_recv c = RRead \<or> (\<exists>h a. cl_recv c = RCall h a))"

definition server_reads :: "('a, 'b, 'w) conn_state \<Rightarrow> ('a, 'b, 'w) conn_state \<Rightarrow> bool" where
  "server_reads s s' \<longleftrightarrow> cs_reader s = Reading \<and> cs_reader s' = Draining"

definition codec_down :: "'b gob_codec \<Rightarrow> 'b gob_codec" where
  "codec_down c = c\<lparr>conn_up := False\<rparr>"

type_synonym ('a, 'b, 'w, 'v, 'r) rpc_state = "('b, 'v, 'r) client \<times> ('a, 'b, 'w) conn_state"

inductive rpc_step ::
    "('b \<Rightarrow> goerror + header) \<Rightarrow> ('b message \<Rightarrow> goerror + 'r) \<Rightarrow> ('v \<Rightarrow> goerror + 'b) \<Rightarrow> ('a, 'b) rpc_env
       \<Rightarrow> ('a, 'b, 'w, 'v, 'r) rpc_state \<Rightarrow> ('a, 'b, 'w, 'v, 'r) rpc_state \<Rightarrow> bool"
  for g dec enc env where
  client_moves: "client_step g dec enc c c' \<Longrightarrow>
    (client_reads c c' \<longrightarrow> read_returns (cl_cc c) (cs_codec s)) \<Longrightarrow>
    rpc_step g dec enc env (c, s)
      (c', s\<lparr>cs_codec := arrive (sent_since (cl_cc c) (cl_cc c')) (cs_codec s)\<rparr>)"
| server_moves: "conn_step env s s' \<Longrightarrow>
    (server_reads s s' \<longrightarrow> read_returns (cs_codec s) (cl_cc c)) \<Longrightarrow>
    rpc_step g dec enc env (c, s)
      (c\<lparr>cl_cc := arrive (sent_since (cs_codec s) (cs_codec s')) (cl_cc c)\<rparr>, s')"
| client_breaks: "rpc_step g dec enc env (c, s) (c\<lparr>cl_cc := codec_down (cl_cc c)\<rparr>, s)"
| server_breaks: "rpc_step g dec enc env (c, s) (c, s\<lparr>cs_codec := codec_down (cs_codec s)\<rparr>)"

definition rpc_init :: "('a, 'w) server \<Rightarrow> 'w \<Rightarrow> ('a, 'b, 'w, 'v, 'r) rpc_state" where
  "rpc_init srv w = (client_new (NewGobCodec [] True), conn_init srv (NewGobCodec [] True) w)"

section \<open>Streams of messages\<close>

text \<open>A sequence of headers each followed by a body, where the last body may be missing.\<close>

fun paired :: "(header \<Rightarrow> 'b \<Rightarrow> bool) \<Rightarrow> 'b message list \<Rightarrow> bool" where
  "paired P (HeaderMsg h # BodyMsg b # ms) \<longleftrightarrow> P h b \<and> paired P ms"
| "paired P [HeaderMsg h] \<longleftrightarrow> True"
| "paired P [] \<longleftrightarrow> True"
| "paired P _ \<longleftrightarrow> False"

text \<open>A body is missing only when the sender has closed the connection.\<close>

definition stream :: "(header \<Rightarrow> 'b \<Rightarrow> bool) \<Rightarrow> bool \<Rightarrow> 'b message list \<Rightarrow> bool" where
  "stream P closed ms \<longleftrightarrow> paired P ms \<and> (closed \<or> even (length ms))"

lemma stream_Nil [simp]: "stream P closed []"
  by (simp add: stream_def)

lemma stream_pair [simp]:
  "stream P closed (HeaderMsg h # BodyMsg b # ms) \<longleftrightarrow> P h b \<and> stream P closed ms"
  by (simp add: stream_def)

lemma stream_body [simp]: "\<not> stream P closed (BodyMsg b # ms)"
  by (simp add: stream_def)

lemma stream_header:
  assumes "stream P closed (HeaderMsg h # ms)"
  shows "ms = [] \<and> closed \<or> (\<exists>b ms'. ms = BodyMsg b # ms' \<and> P h b \<and> stream P closed ms')"
proof (cases ms)
  case (Cons m ms')
  with assms show ?thesis by (cases m) (auto simp: stream_def)
qed (use assms in \<open>simp add: stream_def\<close>)

lemma paired_mono: "paired P ms \<Longrightarrow> (\<And>h b. P h b \<Longrightarrow> Q h b) \<Longrightarrow> paired Q ms"
  by (induction P ms rule: paired.induct) auto

lemma paired_append: "paired P ms \<Longrightarrow> even (length ms) \<Longrightarrow> paired P ns \<Longrightarrow> paired P (ms @ ns)"
  by (induction P ms rule: paired.induct) auto

lemma stream_mono:
  "stream P closed ms \<Longrightarrow> (\<And>h b. P h b \<Longrightarrow> Q h b) \<Longrightarrow> (closed \<Longrightarrow> closed') \<Longrightarrow> stream Q closed' ms"
  by (auto simp: stream_def intro: paired_mono)

text \<open>A codec whose buffered writer holds nothing back, unless it has failed for good.\<close>

definition writer_ok :: "'b gob_codec \<Rightarrow> bool" where
  "writer_ok c \<longleftrightarrow> buf c = [] \<or> buf_err c \<noteq> None"

text \<open>What a step may do to the outgoing half of a codec: write nothing, a whole message, or, when it
  closes the connection, a header alone.\<close>

definition wrote :: "(header \<Rightarrow> 'b \<Rightarrow> bool) \<Rightarrow> 'b gob_codec \<Rightarrow> 'b gob_codec \<Rightarrow> bool" where
  "wrote P c c' \<longleftrightarrow> writer_ok c' \<and> (conn_closed c \<longrightarrow> conn_closed c') \<and>
     (conn_out c' = conn_out c
      \<or> \<not> conn_closed c \<and> conn_closed c' \<and> (\<exists>h. conn_out c' = conn_out c @ [HeaderMsg h])
      \<or> \<not> conn_closed c \<and> (\<exists>h b. P h b \<and> conn_out c' = conn_out c @ [HeaderMsg h, BodyMsg b]))"

lemma wrote_nothing:
  "writer_ok c \<Longrightarrow> buf c' = buf c \<Longrightarrow> buf_err c' = buf_err c \<Longrightarrow> conn_out c' = conn_out c \<Longrightarrow>
     (conn_closed c \<Longrightarrow> conn_closed c') \<Longrightarrow> wrote P c c'"
  by (simp add: wrote_def writer_ok_def)

lemma wrote_mono: "wrote P c c' \<Longrightarrow> (\<And>h b. P h b \<Longrightarrow> Q h b) \<Longrightarrow> wrote Q c c'"
  unfolding wrote_def by blast

lemma gob_Write_wrote:
  assumes "writer_ok c" and "\<And>b. enc body = Inr b \<Longrightarrow> P h b"
  shows "wrote P c (snd (gob_Write enc h body c))"
proof (cases "buf_err c")
  case None
  with assms show ?thesis
    by (cases "enc body"; cases "conn_closed c"; cases "conn_up c")
      (simp_all add: gob_Write_def gob_encode_def buf_Flush_def gob_Close_def wrote_def writer_ok_def)
next
  case (Some e)
  then show ?thesis
    by (simp add: gob_Write_def gob_encode_def buf_Flush_def gob_Close_def wrote_def writer_ok_def)
qed

lemma stream_arrives:
  assumes "stream P (conn_closed c) ms" and "wrote P c c'"
  shows "stream P (conn_closed c') (ms @ sent_since c c')"
proof -
  have "\<not> conn_closed c \<Longrightarrow> paired P ms \<and> even (length ms)" using assms(1) by (simp add: stream_def)
  then show ?thesis
    using assms unfolding wrote_def
    by (elim conjE disjE exE) (auto simp: sent_since_def stream_def paired_append)
qed

section \<open>What the messages mean\<close>

text \<open>The method that a server has for a name.  The counters of the calls do not matter.\<close>

definition bare :: "('a, 'w) method_type \<Rightarrow> ('a, 'w) method_type" where
  "bare mt = mt\<lparr>numCalls := 0\<rparr>"

definition found :: "('a, 'w) server \<Rightarrow> string \<Rightarrow> ('a, 'w) method_type option" where
  "found srv sm = (case findService sm srv of Inl e \<Rightarrow> None | Inr (svc, mt) \<Rightarrow> Some (bare mt))"

lemma bare_simps [simp]:
  "newArgv (bare mt) = newArgv mt" "newReplyv (bare mt) = newReplyv mt" "ArgType (bare mt) = ArgType mt"
  "reflect_Call (bare mt) a v w = reflect_Call mt a v w"
  by (simp_all add: bare_def newArgv_def newReplyv_def reflect_Call_def)

lemma found_count:
  assumes "serviceMap srv n = Some svc" and "serviceMap srv' = (serviceMap srv)(n \<mapsto> count_call mname svc)"
  shows "found srv' sm = found srv sm"
proof (cases "split_service_method sm")
  case None
  then show ?thesis by (simp add: found_def findService_def)
next
  case (Some p)
  obtain sn mn where "p = (sn, mn)" by (cases p)
  with Some assms show ?thesis
    by (auto simp: found_def findService_def count_call_def bare_def split: option.splits)
qed

text \<open>The call of number \<open>h_Seq h\<close>, for the method that \<open>h\<close> names, has arguments that are sent as \<open>b\<close>.\<close>

definition asks ::
    "('v \<Rightarrow> goerror + 'b) \<Rightarrow> (nat \<rightharpoonup> ('v, 'r) rpc_call) \<Rightarrow> header \<Rightarrow> 'b \<Rightarrow> bool" where
  "asks enc calls h b \<longleftrightarrow>
     (\<exists>a x. calls a = Some x \<and> rc_Seq x = h_Seq h \<and> h_Seq h \<noteq> 0 \<and> rc_ServiceMethod x = ServiceMethod h
        \<and> enc (rc_Args x) = Inr b)"

text \<open>The method that the server has for \<open>sm\<close>, run in some state of the program on the argument that
  \<open>b\<close> decodes to and on a new reply, returns \<open>err\<close> and \<open>reply\<close>.\<close>

definition method_answer ::
    "('a, 'b) rpc_env \<Rightarrow> ('a, 'w) server \<Rightarrow> string \<Rightarrow> 'b \<Rightarrow> goerror option \<Rightarrow> 'a gvalue \<Rightarrow> bool" where
  "method_answer env srv sm b err reply \<longleftrightarrow>
     (\<exists>mt argv replyv x w w'. found srv sm = Some mt \<and> newArgv mt = Ret argv \<and> newReplyv mt = Ret replyv
        \<and> env_dec env (argv_target argv (ArgType mt)) (BodyMsg b) = Inr x
        \<and> reflect_Call mt (argv_store argv x) replyv w = Ret ((err, reply), w'))"

text \<open>A response without an error carries what the method answered to the request of its number.\<close>

definition answers_request ::
    "('a, 'b) rpc_env \<Rightarrow> ('a, 'w) server \<Rightarrow> (header \<Rightarrow> 'b \<Rightarrow> bool) \<Rightarrow> header \<Rightarrow> 'b \<Rightarrow> bool" where
  "answers_request env srv A h b' \<longleftrightarrow>
     (h_Error h = '''' \<longrightarrow>
        (\<exists>b reply. A h b \<and> method_answer env srv (ServiceMethod h) b None reply
           \<and> env_enc env (ReplyValue reply) = Inr b'))"

text \<open>The reply of a call is what its method answered to its arguments.\<close>

definition reply_ok ::
    "('a, 'b) rpc_env \<Rightarrow> ('a, 'w) server \<Rightarrow> ('v \<Rightarrow> goerror + 'b) \<Rightarrow> ('b message \<Rightarrow> goerror + 'r)
       \<Rightarrow> ('v, 'r) rpc_call \<Rightarrow> 'r \<Rightarrow> bool" where
  "reply_ok env srv enc dec x v \<longleftrightarrow>
     (\<exists>b b' reply. enc (rc_Args x) = Inr b \<and> method_answer env srv (rc_ServiceMethod x) b None reply
        \<and> env_enc env (ReplyValue reply) = Inr b' \<and> dec (BodyMsg b') = Inr v)"

text \<open>An error with an empty text would reach the client as no error.\<close>

definition errors_have_text :: "('a, 'b) rpc_env \<Rightarrow> ('a, 'w) server \<Rightarrow> bool" where
  "errors_have_text env srv \<longleftrightarrow>
     (\<forall>t m. env_dec env t m \<noteq> Inl '''') \<and>
     (\<forall>sm mt a v w v' w'. found srv sm = Some mt \<longrightarrow> reflect_Call mt a v w \<noteq> Ret ((Some '''', v'), w'))"

text \<open>Gob never makes a header of a body.\<close>

definition bodies_are_no_headers :: "('b \<Rightarrow> goerror + header) \<Rightarrow> bool" where
  "bodies_are_no_headers g \<longleftrightarrow> (\<forall>b h. g b \<noteq> Inr h)"

end
