(* ===== verification/RpcServerWire.thy ===== *)
theory RpcServerWire
  imports RpcWire
begin

text \<open>
  The server's half of the invariant of the system of the theory RpcWire: the reader takes whole
  requests off the connection, each worker holds a request or the answer of its method, and every
  response that is written answers its request.
\<close>

section \<open>The server\<close>

text \<open>The request that a worker has been given, and the answer that it has got.\<close>

definition call_ready :: "('a, 'b) rpc_env \<Rightarrow> ('a, 'w) server \<Rightarrow> string \<Rightarrow> 'b \<Rightarrow> ('a, 'w) request \<Rightarrow> bool" where
  "call_ready env srv sm b r \<longleftrightarrow>
     (\<exists>argv x. found srv sm = Some (bare (req_mtype r)) \<and> newArgv (req_mtype r) = Ret argv
        \<and> newReplyv (req_mtype r) = Ret (req_replyv r)
        \<and> env_dec env (argv_target argv (ArgType (req_mtype r))) (BodyMsg b) = Inr x
        \<and> req_argv r = argv_store argv x)"

fun worker_ok ::
    "('a, 'b) rpc_env \<Rightarrow> ('a, 'w) server \<Rightarrow> (header \<Rightarrow> 'b \<Rightarrow> bool) \<Rightarrow> header \<Rightarrow> ('a, 'w) worker_pc \<Rightarrow> bool" where
  "worker_ok env srv A h (WCall r) \<longleftrightarrow> (\<exists>b. A h b \<and> call_ready env srv (ServiceMethod h) b r)"
| "worker_ok env srv A h (WSendCalled e v) \<longleftrightarrow> (\<exists>b. A h b \<and> method_answer env srv (ServiceMethod h) b e v)"
| "worker_ok env srv A h (WRespond e v) \<longleftrightarrow> (\<exists>b. A h b \<and> method_answer env srv (ServiceMethod h) b e v)"
| "worker_ok env srv A h WSendSent \<longleftrightarrow> True"
| "worker_ok env srv A h WExit \<longleftrightarrow> True"

text \<open>The reader has read whole requests, and perhaps one header whose body is still there.\<close>

definition requests_left :: "(header \<Rightarrow> 'b \<Rightarrow> bool) \<Rightarrow> bool \<Rightarrow> 'b message list \<Rightarrow> bool" where
  "requests_left A closed ms \<longleftrightarrow> stream A closed ms \<or> (\<exists>b ms'. ms = BodyMsg b # ms' \<and> stream A closed ms')"

definition server_ok ::
    "('a, 'b) rpc_env \<Rightarrow> ('a, 'w) server \<Rightarrow> (header \<Rightarrow> 'b \<Rightarrow> bool) \<Rightarrow> bool \<Rightarrow> ('a, 'b, 'w) conn_state \<Rightarrow> bool" where
  "server_ok env srv A closed s \<longleftrightarrow>
     requests_left A closed (conn_in (cs_codec s)) \<and> writer_ok (cs_codec s)
     \<and> (\<forall>sm. found (cs_server s) sm = found srv sm)
     \<and> (\<forall>i hr. cs_handlers s i = Some hr \<longrightarrow> worker_ok env srv A (hd_h hr) (hd_worker hr))
     \<and> (\<forall>i e. cs_reader s = Replying i e \<longrightarrow> e \<noteq> '''')"

lemma worker_ok_mono:
  "worker_ok env srv A h wk \<Longrightarrow> (\<And>h b. A h b \<Longrightarrow> B h b) \<Longrightarrow> worker_ok env srv B h wk"
  by (cases wk) (simp_all, blast+)

lemma server_ok_mono:
  assumes "server_ok env srv A closed s" and "\<And>h b. A h b \<Longrightarrow> B h b" and "closed \<Longrightarrow> closed'"
  shows "server_ok env srv B closed' s"
proof -
  have "requests_left B closed' (conn_in (cs_codec s))"
    using assms stream_mono [of A closed _ B closed'] unfolding server_ok_def requests_left_def by blast
  moreover have "worker_ok env srv B (hd_h hr) (hd_worker hr)" if "cs_handlers s i = Some hr" for i hr
    using assms(1,2) worker_ok_mono that unfolding server_ok_def by blast
  ultimately show ?thesis using assms(1) unfolding server_ok_def by blast
qed

lemma findService_error: "findService sm srv = Inl e \<Longrightarrow> e \<noteq> ''''"
  by (auto simp: findService_def split: option.splits prod.splits)

definition read_ok ::
    "('a, 'b) rpc_env \<Rightarrow> ('a, 'w) server \<Rightarrow> (header \<Rightarrow> 'b \<Rightarrow> bool) \<Rightarrow> ('a, 'w) read_result \<Rightarrow> bool" where
  "read_ok env srv A res \<longleftrightarrow>
     (case res of
        NoRequest e \<Rightarrow> True
      | BadRequest h e \<Rightarrow> e \<noteq> ''''
      | Request r \<Rightarrow> \<exists>b. A (req_h r) b \<and> call_ready env srv (ServiceMethod (req_h r)) b r)"

lemma readRequest_found:
  assumes fnd: "\<And>sm. found srv' sm = found srv sm" and err: "errors_have_text env srv"
    and inp: "\<not> conn_closed cc" "conn_in cc = HeaderMsg h # ms" "stream A closed (HeaderMsg h # ms)"
    and mt: "findService (ServiceMethod h) srv' = Inr (svc, mt)"
    and res: "readRequest g (env_dec env) srv' cc = Ret (res, cc')"
  shows "read_ok env srv A res \<and> requests_left A closed (conn_in cc')
       \<and> cc' = cc\<lparr>conn_in := conn_in cc'\<rparr>"
proof -
  obtain argv where argv: "newArgv mt = Ret argv"
    using res inp mt by (cases "newArgv mt") (auto simp: readRequest_def readRequestHeader_def ReadHeader_HeaderMsg)
  obtain replyv where replyv: "newReplyv mt = Ret replyv"
    using res inp mt argv
    by (cases "newReplyv mt") (auto simp: readRequest_def readRequestHeader_def ReadHeader_HeaderMsg)
  have f: "found srv (ServiceMethod h) = Some (bare mt)"
    using fnd [of "ServiceMethod h"] mt by (simp add: found_def)
  note red = readRequest_def readRequestHeader_def ReadHeader_HeaderMsg [OF inp(1,2)] mt argv replyv
      ReadBody_def gob_decode_def
  from stream_header [OF inp(3)] show ?thesis
  proof (elim disjE exE conjE)
    assume "ms = []"
    with res inp show ?thesis by (auto simp: red read_ok_def requests_left_def err_EOF_def)
  next
    fix b ms' assume ms: "ms = BodyMsg b # ms'" "A h b" "stream A closed ms'"
    show ?thesis
    proof (cases "env_dec env (argv_target argv (ArgType mt)) (BodyMsg b)")
      case (Inl e)
      then have "e \<noteq> ''''" using err by (auto simp: errors_have_text_def)
      with Inl res inp ms show ?thesis by (auto simp: red read_ok_def requests_left_def)
    next
      case (Inr x)
      let ?r = "\<lparr>req_h = h, req_argv = argv_store argv x, req_replyv = replyv, req_mtype = mt, req_svc = svc_name svc\<rparr>"
      have "call_ready env srv (ServiceMethod h) b ?r"
        using Inr f argv replyv by (auto simp: call_ready_def)
      with Inr res inp ms show ?thesis by (auto simp: red read_ok_def requests_left_def)
    qed
  qed
qed

lemma readRequest_nothing:
  "conn_closed cc \<or> conn_in cc = [] \<Longrightarrow> \<exists>e. readRequest g dec srv cc = Ret (NoRequest e, cc)"
  by (cases "conn_closed cc") (simp_all add: readRequest_def readRequestHeader_def ReadHeader_def gob_decode_def)

lemma readRequest_ok:
  assumes ok: "requests_left A closed (conn_in cc)" and fnd: "\<And>sm. found srv' sm = found srv sm"
    and g: "bodies_are_no_headers g" and err: "errors_have_text env srv"
    and res: "readRequest g (env_dec env) srv' cc = Ret (res, cc')"
  shows "read_ok env srv A res \<and> requests_left A closed (conn_in cc')
       \<and> cc' = cc\<lparr>conn_in := conn_in cc'\<rparr>"
proof (cases "conn_closed cc \<or> conn_in cc = []")
  case True
  with readRequest_nothing [OF this, of g "env_dec env" srv'] ok res show ?thesis
    by (auto simp: read_ok_def)
next
  case False
  then obtain m ms where inp: "\<not> conn_closed cc" "conn_in cc = m # ms" by (cases "conn_in cc") auto
  show ?thesis
  proof (cases m)
    case (BodyMsg b)
    with ok inp have "stream A closed ms" by (auto simp: requests_left_def)
    moreover obtain e where "g b = Inl e" using g by (cases "g b") (auto simp: bodies_are_no_headers_def)
    ultimately show ?thesis
      using readRequest_junk [of cc b ms g e "env_dec env" srv'] inp BodyMsg res
      by (auto simp: read_ok_def requests_left_def)
  next
    case (HeaderMsg h)
    with ok inp have st: "stream A closed (HeaderMsg h # ms)" by (auto simp: requests_left_def)
    show ?thesis
    proof (cases "findService (ServiceMethod h) srv'")
      case (Inl e)
      with readRequest_bad_method [of cc h ms srv' e g "env_dec env"] inp HeaderMsg res findService_error [OF Inl]
        stream_header [OF st] show ?thesis
        by (auto simp: read_ok_def requests_left_def)
    next
      case (Inr p)
      then show ?thesis
        using readRequest_found [OF fnd err inp(1) _ st _ res] inp(2) HeaderMsg by (cases p) auto
    qed
  qed
qed

lemma send_wrote:
  "writer_ok (cs_codec s) \<Longrightarrow> (\<And>b. env_enc env body = Inr b \<Longrightarrow> P h b) \<Longrightarrow>
     wrote P (cs_codec s) (cs_codec (sendResponse env i h body s))"
  by (simp add: sendResponse_def gob_Write_wrote)

lemma sendResponse_conn_in [simp]: "conn_in (cs_codec (sendResponse env i h body s)) = conn_in (cs_codec s)"
  by (simp add: sendResponse_def)

text \<open>A step that replaces one handler at most, and keeps or stops the reader.\<close>

lemma server_ok_step:
  assumes "server_ok env srv A closed s" and "conn_in (cs_codec s') = conn_in (cs_codec s)"
    and "wrote P (cs_codec s) (cs_codec s')" and "\<And>sm. found (cs_server s') sm = found (cs_server s) sm"
    and "cs_handlers s' = cs_handlers s \<or>
      (\<exists>i hr. cs_handlers s' = (cs_handlers s)(i \<mapsto> hr) \<and> worker_ok env srv A (hd_h hr) (hd_worker hr))"
    and "cs_reader s' = cs_reader s \<or> (\<forall>i e. cs_reader s' \<noteq> Replying i e)"
  shows "server_ok env srv A closed s' \<and> wrote P (cs_codec s) (cs_codec s')"
proof -
  have "worker_ok env srv A (hd_h x) (hd_worker x)" if "cs_handlers s' j = Some x" for j x
    using assms(1,5) that by (auto simp: server_ok_def split: if_splits)
  moreover have "e \<noteq> ''''" if "cs_reader s' = Replying i e" for i e
  proof -
    have "cs_reader s = Replying i e" using assms(6) that by metis
    with assms(1) show ?thesis unfolding server_ok_def by blast
  qed
  ultimately show ?thesis using assms(1-4) by (simp add: server_ok_def wrote_def)
qed

lemma server_ok_handler:
  assumes "server_ok env srv A closed s" and "cs_handlers s' = (cs_handlers s)(i \<mapsto> hr)"
    and "worker_ok env srv A (hd_h hr) (hd_worker hr)" and "conn_in (cs_codec s') = conn_in (cs_codec s)"
    and "wrote P (cs_codec s) (cs_codec s')" and "\<And>sm. found (cs_server s') sm = found (cs_server s) sm"
    and "cs_reader s' = cs_reader s"
  shows "server_ok env srv A closed s' \<and> wrote P (cs_codec s) (cs_codec s')"
  using assms(2,3,7) by (intro server_ok_step [OF assms(1,4,5,6)]) blast+

lemma server_read_ok:
  assumes ok: "server_ok env srv A closed s" and g: "bodies_are_no_headers (env_g env)"
    and err: "errors_have_text env srv"
  shows "server_ok env srv A closed (reader_turn env s) \<and> wrote P (cs_codec s) (cs_codec (reader_turn env s))"
proof (cases "readRequest (env_g env) (env_dec env) (cs_server s) (cs_codec s)")
  case (Panic m)
  with ok show ?thesis
    by (auto simp: reader_turn_def intro!: server_ok_step [OF ok] wrote_nothing simp: server_ok_def)
next
  case (Ret p)
  obtain res cc where p: "p = (res, cc)" by (cases p)
  have left: "requests_left A closed (conn_in (cs_codec s))" and w: "writer_ok (cs_codec s)"
    and fnd: "\<And>sm. found (cs_server s) sm = found srv sm"
    using ok by (simp_all add: server_ok_def)
  from readRequest_ok [OF left fnd g err Ret [unfolded p]]
  have r: "read_ok env srv A res" "requests_left A closed (conn_in cc)" "cc = (cs_codec s)\<lparr>conn_in := conn_in cc\<rparr>"
    by simp_all
  have w': "writer_ok cc" "wrote P (cs_codec s) cc"
    using w by (subst r(3), simp add: writer_ok_def, subst r(3), intro wrote_nothing, simp_all)
  show ?thesis
  proof (cases res)
    case (NoRequest e)
    with Ret p ok r w' show ?thesis by (simp add: reader_turn_def server_ok_def)
  next
    case (BadRequest h e)
    with Ret p ok r w' show ?thesis by (simp add: reader_turn_def server_ok_def read_ok_def)
  next
    case (Request q)
    with r(1) have "worker_ok env srv A (req_h q) (WCall q)" by (simp add: read_ok_def)
    with Request Ret p ok r(2) w' show ?thesis by (simp add: reader_turn_def server_ok_def del: worker_ok.simps)
  qed
qed

lemma worker_call_ok:
  assumes ok: "server_ok env srv A closed s" and hr: "cs_handlers s i = Some hr" "hd_worker hr = WCall r"
  shows "server_ok env srv A closed (worker_call i hr r s) \<and> wrote P (cs_codec s) (cs_codec (worker_call i hr r s))"
proof -
  have w: "writer_ok (cs_codec s)" and wk: "worker_ok env srv A (hd_h hr) (WCall r)"
    using ok hr by (force simp: server_ok_def)+
  show ?thesis
  proof (cases "worker_call i hr r s = s\<lparr>cs_reader := Crash\<rparr>")
    case True
    with w show ?thesis by (intro server_ok_step [OF ok]) (auto intro: wrote_nothing)
  next
    case False
    then obtain svc err reply svc' w' where svc: "serviceMap (cs_server s) (req_svc r) = Some svc"
      and call: "service_call (rm_Name (mt_method (req_mtype r))) (req_mtype r) (req_argv r) (req_replyv r) svc
          (cs_world s) = Ret ((err, reply), svc', w')"
      by (auto simp: worker_call_def split: option.splits outcome.splits)
    from call have ret: "reflect_Call (req_mtype r) (req_argv r) (req_replyv r) (cs_world s) = Ret ((err, reply), w')"
      and svc': "svc' = count_call (rm_Name (mt_method (req_mtype r))) svc"
      by (auto simp: service_call_def bind_outcome_Ret_iff)
    from wk obtain b where b: "A (hd_h hr) b" "call_ready env srv (ServiceMethod (hd_h hr)) b r" by auto
    then obtain argv x where "found srv (ServiceMethod (hd_h hr)) = Some (bare (req_mtype r))"
      "newArgv (req_mtype r) = Ret argv" "newReplyv (req_mtype r) = Ret (req_replyv r)"
      "env_dec env (argv_target argv (ArgType (req_mtype r))) (BodyMsg b) = Inr x" "req_argv r = argv_store argv x"
      unfolding call_ready_def by blast
    with ret have "method_answer env srv (ServiceMethod (hd_h hr)) b err reply"
      unfolding method_answer_def by (intro exI [of _ "bare (req_mtype r)"] exI [of _ argv] exI [of _ "req_replyv r"]
          exI [of _ x] exI [of _ "cs_world s"] exI [of _ w']) simp
    with b have ans: "worker_ok env srv A (hd_h hr) (WSendCalled err reply)" by auto
    have "worker_call i hr r s = set_handler i (hr\<lparr>hd_worker := WSendCalled err reply\<rparr>)
        (s\<lparr>cs_server := (cs_server s)\<lparr>serviceMap := (serviceMap (cs_server s))(req_svc r \<mapsto> svc')\<rparr>, cs_world := w'\<rparr>)"
      using svc call by (simp add: worker_call_def)
    with w ans found_count [OF svc, of _ "rm_Name (mt_method (req_mtype r))"] svc' show ?thesis
      by (intro server_ok_handler [OF ok, where i = i and hr = "hr\<lparr>hd_worker := WSendCalled err reply\<rparr>"])
        (simp_all add: wrote_nothing del: worker_ok.simps)
  qed
qed

lemma respond_wrote:
  assumes ok: "server_ok env srv A closed s" and hr: "cs_handlers s i = Some hr" "hd_worker hr = WRespond e v"
    and err: "errors_have_text env srv"
  shows "wrote (answers_request env srv A) (cs_codec s) (cs_codec (worker_respond env i hr e v s))
       \<and> conn_in (cs_codec (worker_respond env i hr e v s)) = conn_in (cs_codec s)"
proof -
  have w: "writer_ok (cs_codec s)" and wk: "worker_ok env srv A (hd_h hr) (WRespond e v)"
    using ok hr by (force simp: server_ok_def)+
  from wk obtain b where b: "A (hd_h hr) b" "method_answer env srv (ServiceMethod (hd_h hr)) b e v" by auto
  show ?thesis
  proof (cases e)
    case None
    with b have "answers_request env srv A (hd_h hr) b'" if "env_enc env (ReplyValue v) = Inr b'" for b'
      using that by (auto simp: answers_request_def)
    with None send_wrote [OF w] show ?thesis by (simp add: worker_respond_def)
  next
    case (Some m)
    with b(2) err have "m \<noteq> ''''" unfolding method_answer_def errors_have_text_def by blast
    then have "answers_request env srv A ((hd_h hr)\<lparr>h_Error := m\<rparr>) b'" for b' by (simp add: answers_request_def)
    with Some send_wrote [OF w] show ?thesis by (simp add: worker_respond_def)
  qed
qed

lemma server_step_ok:
  assumes step: "conn_step env s s'" and ok: "server_ok env srv A closed s"
    and g: "bodies_are_no_headers (env_g env)" and err: "errors_have_text env srv"
  shows "server_ok env srv A closed s' \<and> wrote (answers_request env srv A) (cs_codec s) (cs_codec s')"
proof -
  have w: "writer_ok (cs_codec s)" and workers: "\<And>i hr. cs_handlers s i = Some hr \<Longrightarrow> worker_ok env srv A (hd_h hr) (hd_worker hr)"
    and replying: "\<And>i e. cs_reader s = Replying i e \<Longrightarrow> e \<noteq> ''''"
    using ok by (simp_all add: server_ok_def)
  note keep = server_ok_step [OF ok] and handler = server_ok_handler [OF ok]
  have quiet: "wrote (answers_request env srv A) (cs_codec s) (cs_codec s)" using w by (simp add: wrote_nothing)
  have says: "wrote (answers_request env srv A) (cs_codec s) (cs_codec (sendResponse env i (h\<lparr>h_Error := e\<rparr>) body x))"
    if "e \<noteq> ''''" "cs_codec x = cs_codec s" for i h e body and x :: "('a, 'b, 'c) conn_state"
    using send_wrote [of x env body "answers_request env srv A" "h\<lparr>h_Error := e\<rparr>" i] that w
    by (simp add: answers_request_def)
  from step show ?thesis
  proof cases
    case read
    with server_read_ok [OF ok g err] show ?thesis by simp
  next
    case (reply_bad i e hr)
    with replying says show ?thesis by (intro keep) auto
  next
    case finish
    with w show ?thesis by (intro keep) (auto simp: conn_finish_def gob_Close_def intro: wrote_nothing)
  next
    case (call i hr r)
    with worker_call_ok [OF ok] show ?thesis by simp
  next
    case (called i hr e v)
    with workers [OF called(3)] quiet show ?thesis
      by (intro handler [where i = i and hr = "hr\<lparr>hd_worker := WRespond e v, hd_pc := HWaitSent\<rparr>"]) simp_all
  next
    case (respond i hr e v)
    with respond_wrote [OF ok respond(3,4) err] show ?thesis
      by (intro handler [where i = i and hr = "hr\<lparr>hd_worker := WSendSent\<rparr>"])
        (simp_all add: worker_respond_def split: option.splits)
  next
    case (sent i hr)
    with quiet show ?thesis
      by (intro handler [where i = i and hr = "hr\<lparr>hd_worker := WExit, hd_pc := HDone\<rparr>"]) simp_all
  next
    case (timeout i hr)
    with workers [OF timeout(3)] quiet show ?thesis
      by (intro handler [where i = i and hr = "hr\<lparr>hd_pc := HTimedOut\<rparr>"]) simp_all
  next
    case (timeout_reply i hr)
    have "timeout_error env \<noteq> ''''" by (simp add: timeout_error_def)
    with workers [OF timeout_reply(3)] says timeout_reply show ?thesis
      by (intro handler [where i = i and hr = "hr\<lparr>hd_pc := HDone\<rparr>"]) simp_all
  qed
qed

end
