(* ===== verification/RpcSystem.thy ===== *)
theory RpcSystem
  imports RpcServerWire RpcRoundTrip
begin

text \<open>
  The client's half of the invariant of the system of the theory RpcWire, the invariant of the whole,
  a run in which a call completes, and the theorem that the two halves give: every reply that a caller
  gets is traced back to the method and the arguments of its own call.
\<close>

section \<open>The client\<close>

text \<open>What a call asks for never changes, and its number is given once.\<close>

definition same_request :: "('v, 'r) rpc_call \<Rightarrow> ('v, 'r) rpc_call \<Rightarrow> bool" where
  "same_request x y \<longleftrightarrow> rc_ServiceMethod y = rc_ServiceMethod x \<and> rc_Args y = rc_Args x
     \<and> (rc_Seq x \<noteq> 0 \<longrightarrow> rc_Seq y = rc_Seq x)"

definition calls_grow :: "(nat \<rightharpoonup> ('v, 'r) rpc_call) \<Rightarrow> (nat \<rightharpoonup> ('v, 'r) rpc_call) \<Rightarrow> bool" where
  "calls_grow m m' \<longleftrightarrow> (\<forall>a x. m a = Some x \<longrightarrow> (\<exists>y. m' a = Some y \<and> same_request x y))"

lemma same_request_refl [simp]: "same_request x x"
  by (simp add: same_request_def)

lemma asks_grow: "asks enc m h b \<Longrightarrow> calls_grow m m' \<Longrightarrow> asks enc m' h b"
  unfolding asks_def calls_grow_def same_request_def by metis

lemma answers_request_mono:
  "answers_request env srv A h b \<Longrightarrow> (\<And>h b. A h b \<Longrightarrow> B h b) \<Longrightarrow> answers_request env srv B h b"
  unfolding answers_request_def by blast

text \<open>What the receiver has still to read, from where it stands.\<close>

definition body_next :: "(header \<Rightarrow> 'b \<Rightarrow> bool) \<Rightarrow> bool \<Rightarrow> header \<Rightarrow> 'b message list \<Rightarrow> bool" where
  "body_next W closed h ms \<longleftrightarrow>
     ms = [] \<and> closed \<or> (\<exists>b ms'. ms = BodyMsg b # ms' \<and> W h b \<and> stream W closed ms')"

fun replies_left :: "(header \<Rightarrow> 'b \<Rightarrow> bool) \<Rightarrow> bool \<Rightarrow> recv_pc \<Rightarrow> 'b message list \<Rightarrow> bool" where
  "replies_left W closed RRead ms \<longleftrightarrow> stream W closed ms"
| "replies_left W closed (RHeader h) ms \<longleftrightarrow> body_next W closed h ms"
| "replies_left W closed (RCall h a) ms \<longleftrightarrow> body_next W closed h ms"
| "replies_left W closed (RTerminate e) ms \<longleftrightarrow> True"
| "replies_left W closed RStopped ms \<longleftrightarrow> True"

lemma body_next_mono:
  "body_next W closed h ms \<Longrightarrow> (\<And>h b. W h b \<Longrightarrow> V h b) \<Longrightarrow> body_next V closed h ms"
  unfolding body_next_def using stream_mono [of W closed _ V closed] by blast

lemma replies_left_mono:
  "replies_left W closed p ms \<Longrightarrow> (\<And>h b. W h b \<Longrightarrow> V h b) \<Longrightarrow> replies_left V closed p ms"
  by (cases p) (auto intro: stream_mono body_next_mono)

lemma replies_left_arrives:
  assumes "replies_left W (conn_closed c) p ms" and "wrote W c c'"
  shows "replies_left W (conn_closed c') p (ms @ sent_since c c')"
proof -
  have "body_next W (conn_closed c') h (ms @ sent_since c c')" if "body_next W (conn_closed c) h ms" for h
  proof (cases "ms = []")
    case True
    with that assms(2) show ?thesis by (auto simp: body_next_def wrote_def sent_since_def)
  next
    case False
    with that obtain b ms' where "ms = BodyMsg b # ms'" "W h b" "stream W (conn_closed c) ms'"
      by (auto simp: body_next_def)
    with stream_arrives [OF _ assms(2)] show ?thesis by (auto simp: body_next_def)
  qed
  with assms stream_arrives [OF _ assms(2)] show ?thesis by (cases p) simp_all
qed

definition replies_ok ::
    "('a, 'b) rpc_env \<Rightarrow> ('a, 'w) server \<Rightarrow> ('v \<Rightarrow> goerror + 'b) \<Rightarrow> ('b message \<Rightarrow> goerror + 'r)
       \<Rightarrow> (nat \<rightharpoonup> ('v, 'r) rpc_call) \<Rightarrow> bool" where
  "replies_ok env srv enc dec m \<longleftrightarrow>
     (\<forall>a x v. m a = Some x \<longrightarrow> rc_Reply x = Some v \<longrightarrow> reply_ok env srv enc dec x v)"

definition client_ok ::
    "('a, 'b) rpc_env \<Rightarrow> ('a, 'w) server \<Rightarrow> ('v \<Rightarrow> goerror + 'b) \<Rightarrow> ('b message \<Rightarrow> goerror + 'r)
       \<Rightarrow> bool \<Rightarrow> ('b, 'v, 'r) client \<Rightarrow> bool" where
  "client_ok env srv enc dec closed c \<longleftrightarrow>
     writer_ok (cl_cc c) \<and> replies_ok env srv enc dec (cl_calls c)
     \<and> replies_left (answers_request env srv (asks enc (cl_calls c))) closed (cl_recv c) (conn_in (cl_cc c))
     \<and> (\<forall>a q. cl_send c = SWrite a q \<longrightarrow> q \<noteq> 0)"

text \<open>Steps that give no reply.\<close>

definition no_new_reply :: "(nat \<rightharpoonup> ('v, 'r) rpc_call) \<Rightarrow> (nat \<rightharpoonup> ('v, 'r) rpc_call) \<Rightarrow> bool" where
  "no_new_reply m m' \<longleftrightarrow>
     (\<forall>a y v. m' a = Some y \<longrightarrow> rc_Reply y = Some v \<longrightarrow>
        (\<exists>x. m a = Some x \<and> rc_Reply x = Some v \<and> same_request x y))"

lemma no_new_reply_ok: "replies_ok env srv enc dec m \<Longrightarrow> no_new_reply m m' \<Longrightarrow> replies_ok env srv enc dec m'"
  unfolding replies_ok_def no_new_reply_def same_request_def reply_ok_def by metis

lemma no_new_reply_refl [simp]: "no_new_reply m m"
  by (simp add: no_new_reply_def)

lemma calls_grow_refl [simp]: "calls_grow m m"
  by (simp add: calls_grow_def)

definition client_step_ok ::
    "('a, 'b) rpc_env \<Rightarrow> ('a, 'w) server \<Rightarrow> ('v \<Rightarrow> goerror + 'b) \<Rightarrow> ('b message \<Rightarrow> goerror + 'r)
       \<Rightarrow> bool \<Rightarrow> ('b, 'v, 'r) client \<Rightarrow> ('b, 'v, 'r) client \<Rightarrow> bool" where
  "client_step_ok env srv enc dec closed c c' \<longleftrightarrow>
     client_ok env srv enc dec closed c' \<and> calls_grow (cl_calls c) (cl_calls c')
     \<and> wrote (asks enc (cl_calls c)) (cl_cc c) (cl_cc c')"

lemma client_step_okI:
  assumes "client_ok env srv enc dec closed c" and "calls_grow (cl_calls c) (cl_calls c')"
    and "replies_ok env srv enc dec (cl_calls c')" and "wrote (asks enc (cl_calls c)) (cl_cc c) (cl_cc c')"
    and "replies_left (answers_request env srv (asks enc (cl_calls c))) closed (cl_recv c') (conn_in (cl_cc c'))"
    and "\<And>a q. cl_send c' = SWrite a q \<Longrightarrow> q \<noteq> 0"
  shows "client_step_ok env srv enc dec closed c c'"
proof -
  have "replies_left (answers_request env srv (asks enc (cl_calls c'))) closed (cl_recv c') (conn_in (cl_cc c'))"
    using assms(2,5) by (auto elim!: replies_left_mono answers_request_mono asks_grow)
  with assms show ?thesis by (simp add: client_step_ok_def client_ok_def wrote_def)
qed

text \<open>Steps of the callers and the sender.\<close>

lemma client_quiet_step:
  assumes ok: "client_ok env srv enc dec closed c" and "calls_grow (cl_calls c) (cl_calls c')"
    and "no_new_reply (cl_calls c) (cl_calls c')" and "wrote (asks enc (cl_calls c)) (cl_cc c) (cl_cc c')"
    and "conn_in (cl_cc c') = conn_in (cl_cc c)" and "cl_recv c' = cl_recv c \<or> cl_recv c' = RStopped"
    and "\<And>a q. cl_send c' = SWrite a q \<Longrightarrow> cl_send c = SWrite a q \<or> q \<noteq> 0"
  shows "client_step_ok env srv enc dec closed c c'"
proof (rule client_step_okI [OF ok assms(2)])
  show "replies_ok env srv enc dec (cl_calls c')"
    using ok no_new_reply_ok [OF _ assms(3), of env srv enc dec] unfolding client_ok_def by blast
  show "replies_left (answers_request env srv (asks enc (cl_calls c))) closed (cl_recv c') (conn_in (cl_cc c'))"
    using ok assms(5,6) by (auto simp: client_ok_def)
  show "q \<noteq> 0" if "cl_send c' = SWrite a q" for a q
    using ok assms(7) [OF that] by (auto simp: client_ok_def)
qed (rule assms(4))

lemma calls_upd:
  assumes "m' = m(a := map_option f (m a))" and "\<And>x. m a = Some x \<Longrightarrow> same_request x (f x) \<and> rc_Reply (f x) = rc_Reply x"
  shows "calls_grow m m' \<and> no_new_reply m m'"
  using assms by (auto simp: calls_grow_def no_new_reply_def)

lemma calls_new:
  assumes "m' = m(a \<mapsto> x)" and "m a = None" and "rc_Reply x = None"
  shows "calls_grow m m' \<and> no_new_reply m m'"
  using assms by (auto simp: calls_grow_def no_new_reply_def)

lemma go_step_ok:
  assumes ok: "client_ok env srv enc dec closed c" and q: "seqs_ok c"
  shows "client_step_ok env srv enc dec closed c (client_Go sm args c)"
proof -
  have fresh: "cl_calls c (cl_next c) = None" using seqs_okD(7) [OF q, of "cl_next c"] by (simp add: seq_of_def)
  have w: "writer_ok (cl_cc c)" using ok by (simp add: client_ok_def)
  have seq: "cl_seq c \<noteq> 0" using seqs_okD(8) [OF q] by auto
  show ?thesis
  proof (cases "cl_closing c \<or> cl_shutdown c")
    case True
    have "calls_grow (cl_calls c) (cl_calls (client_Go sm args c))
        \<and> no_new_reply (cl_calls c) (cl_calls (client_Go sm args c))"
      by (rule calls_new [where a = "cl_next c" and x = "(new_call sm args)\<lparr>rc_Error := Some ErrShutdown, rc_dones := 1\<rparr>"])
        (simp_all add: client_Go_refused [OF True] new_call_def fresh)
    then show ?thesis
      using w by (intro client_quiet_step [OF ok]) (auto simp: client_Go_refused [OF True] wrote_nothing)
  next
    case False
    have "calls_grow (cl_calls c) (cl_calls (client_Go sm args c))
        \<and> no_new_reply (cl_calls c) (cl_calls (client_Go sm args c))"
      by (rule calls_new [where a = "cl_next c" and x = "(new_call sm args)\<lparr>rc_Seq := cl_seq c\<rparr>"])
        (simp_all add: client_Go_registered [OF False] new_call_def fresh)
    then show ?thesis
      using w seq by (intro client_quiet_step [OF ok]) (auto simp: client_Go_registered [OF False] wrote_nothing)
  qed
qed

lemma write_step_ok:
  assumes ok: "client_ok env srv enc dec closed c" and q: "seqs_ok c"
    and pc: "cl_send c = SWrite a n" "cl_calls c a = Some x"
  shows "client_step_ok env srv enc dec closed c (send_write enc a n x c)"
proof -
  let ?h = "\<lparr>ServiceMethod = rc_ServiceMethod x, h_Seq = n, h_Error = ''''\<rparr>"
  have n: "n \<noteq> 0" "rc_Seq x = n" and w: "writer_ok (cl_cc c)"
    using ok pc seqs_okD(3) [OF q pc(1)] by (auto simp: client_ok_def seq_of_def)
  have wr: "wrote (asks enc (cl_calls c)) (cl_cc c) (snd (gob_Write enc ?h (rc_Args x) (cl_cc c)))"
    using n pc(2) by (intro gob_Write_wrote [OF w]) (auto simp: asks_def)
  obtain e cc where p: "gob_Write enc ?h (rc_Args x) (cl_cc c) = (e, cc)" by fastforce
  have "conn_in cc = conn_in (cl_cc c)" using gob_Write_conn_in [of enc ?h "rc_Args x" "cl_cc c"] p by simp
  with wr p show ?thesis
    by (intro client_quiet_step [OF ok]) (auto simp: send_write_def split: option.splits)
qed

lemma cleanup_step_ok:
  assumes ok: "client_ok env srv enc dec closed c"
  shows "client_step_ok env srv enc dec closed c (send_cleanup n e c)"
proof -
  have w: "writer_ok (cl_cc c)" using ok by (simp add: client_ok_def)
  show ?thesis
  proof (cases "cl_pending c n")
    case None
    with w show ?thesis
      by (intro client_quiet_step [OF ok]) (auto simp: send_cleanup_def removeCall_def wrote_nothing)
  next
    case (Some a)
    have "calls_grow (cl_calls c) (cl_calls (send_cleanup n e c))
        \<and> no_new_reply (cl_calls c) (cl_calls (send_cleanup n e c))"
      by (rule calls_upd [where a = a and f = "\<lambda>x. (set_Error e x)\<lparr>rc_dones := Suc (rc_dones x)\<rparr>"])
        (simp_all add: send_cleanup_def removeCall_def Some finish_call_def set_Error_def same_request_def)
    with w Some show ?thesis
      by (intro client_quiet_step [OF ok]) (auto simp: send_cleanup_def removeCall_def wrote_nothing)
  qed
qed

lemma terminate_step_ok:
  assumes ok: "client_ok env srv enc dec closed c" and pc: "cl_send c = SIdle"
  shows "client_step_ok env srv enc dec closed c ((terminateCalls e c)\<lparr>cl_recv := RStopped\<rparr>)"
  using ok pc
  by (intro client_quiet_step [OF ok])
    (auto simp: terminateCalls_def calls_grow_def no_new_reply_def same_request_def set_Error_def client_ok_def
      wrote_nothing split: if_splits)

lemma set_status_calls:
  "calls_grow (cl_calls c) (cl_calls (set_status st a c)) \<and> no_new_reply (cl_calls c) (cl_calls (set_status st a c))"
  by (rule calls_upd [where a = a and f = "rc_status_update (\<lambda>_. st)"])
    (simp_all add: set_status_def same_request_def)

lemma status_step_ok:
  assumes ok: "client_ok env srv enc dec closed c"
  shows "client_step_ok env srv enc dec closed c (set_status st a c)"
    and "client_step_ok env srv enc dec closed c (call_expire a x c)"
    and "client_step_ok env srv enc dec closed c (snd (client_Close c))"
proof -
  have w: "writer_ok (cl_cc c)" using ok by (simp add: client_ok_def)
  show "client_step_ok env srv enc dec closed c (set_status st a c)"
    using set_status_calls [of c st a] w
    by (intro client_quiet_step [OF ok]) (auto simp: set_status_def wrote_nothing)
  show "client_step_ok env srv enc dec closed c (call_expire a x c)"
    using set_status_calls [of "snd (removeCall (rc_Seq x) c)" Expired a] w
    by (intro client_quiet_step [OF ok]) (auto simp: call_expire_def set_status_def removeCall_def wrote_nothing)
  show "client_step_ok env srv enc dec closed c (snd (client_Close c))"
    using w by (intro client_quiet_step [OF ok]) (auto simp: client_Close_def gob_Close_def wrote_nothing split: if_splits)
qed

text \<open>Steps of the receiver.\<close>

lemma gob_decode_wrote:
  "gob_decode target c = (r, c') \<Longrightarrow> writer_ok c \<Longrightarrow> wrote P c c'"
  using gob_decode_frame [of target c r c'] by (simp add: wrote_nothing)

lemma ReadHeader_stream:
  assumes "stream W closed (conn_in c)" and "ReadHeader g c = (Inr h, c')"
  shows "body_next W closed h (conn_in c')"
proof -
  obtain m ms where ms: "conn_in c = m # ms" "\<not> conn_closed c"
    using assms(2) by (auto simp: ReadHeader_def gob_decode_def split: if_splits list.splits)
  with assms(1) obtain h' where m: "m = HeaderMsg h'" by (cases m) auto
  with ms assms(1) have "stream W closed (HeaderMsg h' # ms)" by simp
  from stream_header [OF this] ReadHeader_HeaderMsg [of c h' ms g] ms m assms(2) show ?thesis
    by (simp add: body_next_def)
qed

lemma ReadBody_next:
  assumes "body_next W closed h (conn_in c)" and "ReadBody target c = (Inr v, c')"
  shows "stream W closed (conn_in c') \<and> (\<exists>b. W h b \<and> target (BodyMsg b) = Inr v)"
  using assms by (auto simp: body_next_def ReadBody_def gob_decode_def split: if_splits list.splits)

lemma header_step_ok:
  assumes ok: "client_ok env srv enc dec closed c" and pc: "cl_recv c = RRead"
  shows "client_step_ok env srv enc dec closed c (recv_header g c)"
proof -
  obtain r cc where p: "ReadHeader g (cl_cc c) = (r, cc)" by fastforce
  have w: "wrote P (cl_cc c) cc" for P
    using p ok gob_decode_wrote by (auto simp: client_ok_def ReadHeader_def)
  show ?thesis
  proof (cases r)
    case (Inl e)
    with p w ok show ?thesis
      by (intro client_step_okI [OF ok]) (auto simp: recv_header_def client_ok_def)
  next
    case (Inr h)
    have "stream (answers_request env srv (asks enc (cl_calls c))) closed (conn_in (cl_cc c))"
      using ok pc by (simp add: client_ok_def)
    from ReadHeader_stream [OF this p [unfolded Inr]] Inr p w ok show ?thesis
      by (intro client_step_okI [OF ok]) (auto simp: recv_header_def client_ok_def)
  qed
qed

lemma take_step_ok:
  assumes ok: "client_ok env srv enc dec closed c" and pc: "cl_recv c = RHeader h"
  shows "client_step_ok env srv enc dec closed c (recv_remove h c)"
  using ok pc
  by (intro client_step_okI [OF ok]) (auto simp: recv_remove_def removeCall_def client_ok_def wrote_nothing)

lemma finish_call_calls:
  assumes "\<And>x. same_request x (f x) \<and> rc_Reply (f x) = rc_Reply x"
  shows "calls_grow (cl_calls c) (cl_calls (finish_call a f (c\<lparr>cl_cc := cc, cl_recv := p\<rparr>)))
       \<and> no_new_reply (cl_calls c) (cl_calls (finish_call a f (c\<lparr>cl_cc := cc, cl_recv := p\<rparr>)))"
  using assms
  by (intro calls_upd [where a = a and f = "\<lambda>x. (f x)\<lparr>rc_dones := Suc (rc_dones x)\<rparr>"])
    (auto simp: finish_call_def same_request_def)

text \<open>A body that ends a call with an error, or belongs to no call.\<close>

lemma body_error_ok:
  assumes ok: "client_ok env srv enc dec closed c" and pc: "cl_recv c = RCall h a"
    and rd: "ReadBody target (cl_cc c) = (r, cc)"
    and c': "c' = c\<lparr>cl_cc := cc, cl_recv := recv_next r\<rparr>
      \<or> (\<exists>d f. c' = finish_call d f (c\<lparr>cl_cc := cc, cl_recv := recv_next r\<rparr>)
           \<and> (\<forall>x. same_request x (f x) \<and> rc_Reply (f x) = rc_Reply x))"
  shows "client_step_ok env srv enc dec closed c c'"
proof (rule client_step_okI [OF ok])
  have calls: "calls_grow (cl_calls c) (cl_calls c') \<and> no_new_reply (cl_calls c) (cl_calls c')"
    using c'
  proof (elim disjE exE conjE)
    fix d f assume "c' = finish_call d f (c\<lparr>cl_cc := cc, cl_recv := recv_next r\<rparr>)"
      "\<forall>x. same_request x (f x) \<and> rc_Reply (f x) = rc_Reply x"
    with finish_call_calls [of f c d "recv_next r" cc] show ?thesis by blast
  qed simp
  then show "calls_grow (cl_calls c) (cl_calls c')" ..
  show "replies_ok env srv enc dec (cl_calls c')"
    using ok calls no_new_reply_ok [of env srv enc dec "cl_calls c" "cl_calls c'"] unfolding client_ok_def by blast
  have same: "cl_cc c' = cc" "cl_recv c' = recv_next r" "cl_send c' = cl_send c" using c' by auto
  show "wrote (asks enc (cl_calls c)) (cl_cc c) (cl_cc c')"
    using rd ok gob_decode_wrote by (auto simp: same client_ok_def ReadBody_def)
  show "q \<noteq> 0" if "cl_send c' = SWrite a q" for a q using that ok by (auto simp: same client_ok_def)
  have nxt: "body_next (answers_request env srv (asks enc (cl_calls c))) closed h (conn_in (cl_cc c))"
    using ok pc by (simp add: client_ok_def)
  show "replies_left (answers_request env srv (asks enc (cl_calls c))) closed (cl_recv c') (conn_in (cl_cc c'))"
  proof (cases r)
    case (Inr v)
    with ReadBody_next [OF nxt rd [unfolded Inr]] show ?thesis by (simp add: same recv_next_def)
  qed (simp add: same recv_next_def)
qed

text \<open>A body that is the reply of a call.\<close>

lemma body_reply_ok:
  assumes ok: "client_ok env srv enc dec closed c" and q: "seqs_ok c" and pc: "cl_recv c = RCall h (Some a)"
    and h: "h_Error h = ''''" and rd: "ReadBody dec (cl_cc c) = (Inr v, cc)"
  shows "client_step_ok env srv enc dec closed c
    (finish_call a (\<lambda>x. x\<lparr>rc_Reply := Some v, rc_answer := Some h\<rparr>) (c\<lparr>cl_cc := cc, cl_recv := RRead\<rparr>))"
    (is "client_step_ok env srv enc dec closed c ?c")
proof (rule client_step_okI [OF ok])
  let ?W = "answers_request env srv (asks enc (cl_calls c))"
  have "body_next ?W closed h (conn_in (cl_cc c))" using ok pc by (simp add: client_ok_def)
  from ReadBody_next [OF this rd] obtain b' where left: "stream ?W closed (conn_in cc)"
    and b': "?W h b'" "dec (BodyMsg b') = Inr v" by blast
  from b'(1) h obtain b reply where b: "asks enc (cl_calls c) h b"
    "method_answer env srv (ServiceMethod h) b None reply" "env_enc env (ReplyValue reply) = Inr b'"
    by (auto simp: answers_request_def)
  from b(1) obtain a' x where x: "cl_calls c a' = Some x" "rc_Seq x = h_Seq h" "h_Seq h \<noteq> 0"
    "rc_ServiceMethod x = ServiceMethod h" "enc (rc_Args x) = Inr b" by (auto simp: asks_def)
  have "a' = a" using seqs_okD(2) [OF q pc] seqs_okD(5) [OF q, of a' "h_Seq h" a] x by (simp add: seq_of_def)
  then have calls: "cl_calls ?c = (cl_calls c)(a \<mapsto> x\<lparr>rc_Reply := Some v, rc_answer := Some h, rc_dones := Suc (rc_dones x)\<rparr>)"
    using x(1) by (simp add: finish_call_def)
  have "reply_ok env srv enc dec x v" using x(4,5) b(2,3) b'(2) unfolding reply_ok_def by metis
  then have "reply_ok env srv enc dec (x\<lparr>rc_Reply := Some v, rc_answer := Some h, rc_dones := Suc (rc_dones x)\<rparr>) v"
    by (simp add: reply_ok_def)
  with ok show "replies_ok env srv enc dec (cl_calls ?c)"
    unfolding calls by (auto simp: client_ok_def replies_ok_def)
  show "calls_grow (cl_calls c) (cl_calls ?c)"
    unfolding calls using x(1) \<open>a' = a\<close> by (auto simp: calls_grow_def same_request_def)
  show "wrote (asks enc (cl_calls c)) (cl_cc c) (cl_cc ?c)"
    using rd ok gob_decode_wrote by (auto simp: client_ok_def ReadBody_def)
  show "replies_left ?W closed (cl_recv ?c) (conn_in (cl_cc ?c))" using left by simp
  show "q \<noteq> 0" if "cl_send ?c = SWrite a q" for a q using that ok by (auto simp: client_ok_def)
qed

lemma body_step_ok:
  assumes ok: "client_ok env srv enc dec closed c" and q: "seqs_ok c" and pc: "cl_recv c = RCall h a"
  shows "client_step_ok env srv enc dec closed c (recv_body dec h a c)"
proof (cases a)
  case None
  obtain r :: "goerror + unit" and cc where rd: "ReadBody discard (cl_cc c) = (r, cc)" by fastforce
  show ?thesis
    by (rule body_error_ok [OF ok pc rd]) (simp add: recv_body_def None rd)
next
  case (Some d)
  show ?thesis
  proof (cases "h_Error h = ''''")
    case False
    obtain r :: "goerror + unit" and cc where rd: "ReadBody discard (cl_cc c) = (r, cc)" by fastforce
    have "recv_body dec h a c = finish_call d (\<lambda>x. (set_Error (h_Error h) x)\<lparr>rc_answer := Some h\<rparr>)
        (c\<lparr>cl_cc := cc, cl_recv := recv_next r\<rparr>)" using False by (simp add: recv_body_def Some rd)
    moreover have "\<forall>x. same_request x ((set_Error (h_Error h) x)\<lparr>rc_answer := Some h\<rparr>)
        \<and> rc_Reply ((set_Error (h_Error h) x)\<lparr>rc_answer := Some h\<rparr>) = rc_Reply x"
      by (simp add: same_request_def set_Error_def)
    ultimately show ?thesis using body_error_ok [OF ok pc rd] by blast
  next
    case True
    obtain r cc where rd: "ReadBody dec (cl_cc c) = (r, cc)" by fastforce
    show ?thesis
    proof (cases r)
      case (Inr v)
      with body_reply_ok [OF ok q pc [unfolded Some] True] rd True Some show ?thesis
        by (simp add: recv_body_def)
    next
      case (Inl e)
      let ?f = "\<lambda>x. (set_Error (''reading body '' @ e) x)\<lparr>rc_answer := Some h\<rparr>"
      have "recv_body dec h a c = finish_call d ?f (c\<lparr>cl_cc := cc, cl_recv := recv_next r\<rparr>)"
        using True by (simp add: recv_body_def Some rd Inl recv_next_def)
      moreover have "\<forall>x. same_request x (?f x) \<and> rc_Reply (?f x) = rc_Reply x"
        by (simp add: same_request_def set_Error_def)
      ultimately show ?thesis using body_error_ok [OF ok pc rd] by blast
    qed
  qed
qed

lemma client_rpc_ok:
  assumes step: "client_step g dec enc c c'" and ok: "client_ok env srv enc dec closed c" and q: "seqs_ok c"
  shows "client_step_ok env srv enc dec closed c c'"
  using step
proof cases
  case (go sm args)
  with go_step_ok [OF ok q] show ?thesis by simp
next
  case (do_write a n x)
  with write_step_ok [OF ok q] show ?thesis by simp
next
  case (cleanup a n e)
  with cleanup_step_ok [OF ok] show ?thesis by simp
next
  case header
  with header_step_ok [OF ok] show ?thesis by simp
next
  case (take_call h)
  with take_step_ok [OF ok] show ?thesis by simp
next
  case (body h a)
  with body_step_ok [OF ok q] show ?thesis by simp
next
  case (terminate e)
  with terminate_step_ok [OF ok] show ?thesis by simp
qed (use status_step_ok [OF ok] in simp_all)

section \<open>The invariant of the system\<close>

fun rpc_inv ::
    "('a, 'b) rpc_env \<Rightarrow> ('a, 'w) server \<Rightarrow> ('v \<Rightarrow> goerror + 'b) \<Rightarrow> ('b message \<Rightarrow> goerror + 'r)
       \<Rightarrow> ('a, 'b, 'w, 'v, 'r) rpc_state \<Rightarrow> bool" where
  "rpc_inv env srv enc dec (c, s) \<longleftrightarrow>
     bodies_are_no_headers (env_g env) \<and> errors_have_text env srv \<and> client_inv c \<and>
     (cl_registered c < 2 ^ 64 - 1 \<longrightarrow>
        client_ok env srv enc dec (conn_closed (cs_codec s)) c
        \<and> server_ok env srv (asks enc (cl_calls c)) (conn_closed (cl_cc c)) s)"

definition rpc_start ::
    "('a, 'b) rpc_env \<Rightarrow> ('a, 'w) server \<Rightarrow> ('a, 'b, 'w, 'v, 'r) rpc_state \<Rightarrow> bool" where
  "rpc_start env srv p \<longleftrightarrow>
     bodies_are_no_headers (env_g env) \<and> errors_have_text env srv \<and> (\<exists>w. p = rpc_init srv w)"

lemma client_new_inv: "client_inv (client_new cc)"
  by (rule client_start_inv) (auto simp: client_start_def)

lemma rpc_start_inv: "rpc_start env srv p \<Longrightarrow> rpc_inv env srv enc dec p"
  by (auto simp: rpc_start_def rpc_init_def client_new_inv)
    (auto simp: client_ok_def server_ok_def client_new_def conn_init_def NewGobCodec_def writer_ok_def
      replies_ok_def requests_left_def)

lemma client_inv_codec [simp]: "client_inv (c\<lparr>cl_cc := cc\<rparr>) = client_inv c"
  by (simp add: client_inv_def seqs_ok_def calls_ok_def seq_of_def pends_def)

lemma arrive_simps [simp]:
  "conn_in (arrive ms c) = conn_in c @ ms" "conn_out (arrive ms c) = conn_out c"
  "conn_closed (arrive ms c) = conn_closed c" "conn_up (arrive ms c) = conn_up c"
  "writer_ok (arrive ms c) = writer_ok c" "arrive [] c = c" "arrive ns (arrive ms c) = arrive (ms @ ns) c"
  by (simp_all add: arrive_def writer_ok_def)

lemma requests_left_arrives:
  "requests_left A (conn_closed c) ms \<Longrightarrow> wrote A c c' \<Longrightarrow> requests_left A (conn_closed c') (ms @ sent_since c c')"
  unfolding requests_left_def using stream_arrives [of A c _ c'] by auto

lemma rpc_step_inv:
  assumes "rpc_step g dec enc env p p'" and "rpc_inv env srv enc dec p"
  shows "rpc_inv env srv enc dec p'"
  using assms(1)
proof cases
  case (client_moves c c' s)
  have inv: "client_inv c" using assms(2) client_moves(1) by simp
  let ?s = "s\<lparr>cs_codec := arrive (sent_since (cl_cc c) (cl_cc c')) (cs_codec s)\<rparr>"
  have "client_ok env srv enc dec (conn_closed (cs_codec ?s)) c'
      \<and> server_ok env srv (asks enc (cl_calls c')) (conn_closed (cl_cc c')) ?s"
    if bound: "cl_registered c' < 2 ^ 64 - 1"
  proof -
    have b: "cl_registered c < 2 ^ 64 - 1" using client_step_registered [OF client_moves(3)] bound by simp
    then have ok: "client_ok env srv enc dec (conn_closed (cs_codec s)) c" and q: "seqs_ok c"
      and sv: "server_ok env srv (asks enc (cl_calls c)) (conn_closed (cl_cc c)) s"
      using assms(2) client_moves(1) by (simp_all add: client_inv_def)
    from client_rpc_ok [OF client_moves(3) ok q]
    have c': "client_ok env srv enc dec (conn_closed (cs_codec s)) c'" "calls_grow (cl_calls c) (cl_calls c')"
      "wrote (asks enc (cl_calls c)) (cl_cc c) (cl_cc c')" by (simp_all add: client_step_ok_def)
    have "server_ok env srv (asks enc (cl_calls c)) (conn_closed (cl_cc c')) ?s"
      using sv requests_left_arrives [OF _ c'(3)] by (simp add: server_ok_def)
    then have "server_ok env srv (asks enc (cl_calls c')) (conn_closed (cl_cc c')) ?s"
      by (rule server_ok_mono) (simp_all add: asks_grow [OF _ c'(2)])
    with c'(1) show ?thesis by simp
  qed
  with assms(2) client_step_inv [OF client_moves(3) inv] show ?thesis
    unfolding client_moves(1,2) rpc_inv.simps by blast
next
  case (server_moves s s' c)
  have "client_ok env srv enc dec (conn_closed (cs_codec s')) (c\<lparr>cl_cc := arrive (sent_since (cs_codec s) (cs_codec s')) (cl_cc c)\<rparr>)
      \<and> server_ok env srv (asks enc (cl_calls c)) (conn_closed (cl_cc c)) s'"
    if bound: "cl_registered c < 2 ^ 64 - 1"
  proof -
    have ok: "client_ok env srv enc dec (conn_closed (cs_codec s)) c"
      and sv: "server_ok env srv (asks enc (cl_calls c)) (conn_closed (cl_cc c)) s"
      and hyps: "bodies_are_no_headers (env_g env)" "errors_have_text env srv"
      using assms(2) server_moves(1) bound by simp_all
    from server_step_ok [OF server_moves(3) sv hyps] ok
      replies_left_arrives [of "answers_request env srv (asks enc (cl_calls c))" "cs_codec s" "cl_recv c"
        "conn_in (cl_cc c)" "cs_codec s'"]
    show ?thesis by (simp add: client_ok_def)
  qed
  with assms(2) show ?thesis unfolding server_moves(1,2) rpc_inv.simps by simp
next
  case (client_breaks c s)
  with assms(2) show ?thesis by (simp add: client_ok_def codec_down_def writer_ok_def)
next
  case (server_breaks c s)
  with assms(2) show ?thesis by (simp add: server_ok_def codec_down_def writer_ok_def)
qed

interpretation rpc: invariant_system "rpc_start env srv" "rpc_step g dec enc env" "rpc_inv env srv enc dec"
  for env srv g dec enc
  by unfold_locales (blast intro: rpc_start_inv rpc_step_inv)+

section \<open>A call that completes\<close>

text \<open>A run of the server on its own is a run of the system with a client that waits, once the
  client's outgoing direction is down.\<close>

lemma gob_Write_out: "\<exists>d. conn_out (snd (gob_Write enc h body c)) = conn_out c @ d"
  by (auto simp: gob_Write_def gob_encode_def buf_Flush_def gob_Close_def Let_def split_beta
      split: sum.splits option.splits)

lemma gob_decode_out: "gob_decode t c = (r, c') \<Longrightarrow> conn_out c' = conn_out c"
  using gob_decode_frame [of t c r c'] by simp

lemma readRequest_out:
  assumes res: "readRequest g dec srv cc = Ret (res, cc')"
  shows "conn_out cc' = conn_out cc"
proof -
  obtain r1 c1 where h: "gob_decode (as_header g) cc = (r1, c1)" by fastforce
  note red = readRequest_def readRequestHeader_def ReadHeader_def ReadBody_def h
  show ?thesis
  proof (cases r1)
    case (Inl e)
    with res gob_decode_out [OF h] show ?thesis by (simp add: red)
  next
    case (Inr hd)
    show ?thesis
    proof (cases "findService (ServiceMethod hd) srv")
      case (Inl e)
      with res Inr gob_decode_out [OF h] show ?thesis by (simp add: red)
    next
      case (Inr p)
      obtain svc mt where p: "p = (svc, mt)" by fastforce
      from res \<open>r1 = Inr hd\<close> Inr p obtain argv replyv where new: "newArgv mt = Ret argv" "newReplyv mt = Ret replyv"
        by (auto simp: red bind_outcome_Ret_iff)
      obtain r2 c2 where b: "gob_decode (dec (argv_target argv (ArgType mt))) c1 = (r2, c2)" by fastforce
      from res \<open>r1 = Inr hd\<close> Inr p new b have "cc' = c2" by (cases r2) (simp_all add: red)
      with gob_decode_out [OF h] gob_decode_out [OF b] show ?thesis by simp
    qed
  qed
qed

lemma sendResponse_out:
  "\<exists>d. conn_out (cs_codec (sendResponse env i h body s)) = conn_out (cs_codec s) @ d"
  by (simp add: sendResponse_def gob_Write_out)

lemma conn_step_out:
  assumes "conn_step env s s'"
  shows "\<exists>d. conn_out (cs_codec s') = conn_out (cs_codec s) @ d"
  using assms
proof cases
  case read
  then show ?thesis
    using readRequest_out [of "env_g env" "env_dec env" "cs_server s" "cs_codec s"]
    by (auto simp: reader_turn_def split: outcome.splits read_result.splits)
next
  case (reply_bad i e hr)
  with sendResponse_out [of env i _ _ "s\<lparr>cs_reader := Reading\<rparr>"] show ?thesis by simp
next
  case (call i hr r)
  from worker_call_cases [of i hr r s] show ?thesis by cases (simp_all add: call)
next
  case (respond i hr e v)
  with sendResponse_out [of env i _ _ s] show ?thesis by (simp add: worker_respond_def split: option.splits)
next
  case (timeout_reply i hr)
  with sendResponse_out [of env i _ _ s] show ?thesis by simp
qed (simp_all add: conn_finish_def gob_Close_def)

lemma server_run_alone:
  assumes run: "(conn_step env)\<^sup>*\<^sup>* y z" and down: "\<not> conn_up (cl_cc c)"
  shows "\<exists>d. conn_out (cs_codec z) = conn_out (cs_codec y) @ d
       \<and> (rpc_step g dec enc env)\<^sup>*\<^sup>* (c, y) (c\<lparr>cl_cc := arrive d (cl_cc c)\<rparr>, z)"
  using run
proof induction
  case base
  show ?case by (rule exI [of _ "[]"]) simp
next
  case (step z z')
  from step.IH obtain d where d: "conn_out (cs_codec z) = conn_out (cs_codec y) @ d"
    "(rpc_step g dec enc env)\<^sup>*\<^sup>* (c, y) (c\<lparr>cl_cc := arrive d (cl_cc c)\<rparr>, z)" by blast
  from conn_step_out [OF step.hyps(2)] obtain d' where d': "conn_out (cs_codec z') = conn_out (cs_codec z) @ d'" by blast
  have "rpc_step g dec enc env (c\<lparr>cl_cc := arrive d (cl_cc c)\<rparr>, z)
      ((c\<lparr>cl_cc := arrive d (cl_cc c)\<rparr>)\<lparr>cl_cc := arrive (sent_since (cs_codec z) (cs_codec z'))
          (cl_cc (c\<lparr>cl_cc := arrive d (cl_cc c)\<rparr>))\<rparr>, z')"
    using down by (intro rpc_step.server_moves [OF step.hyps(2)]) (simp add: read_returns_def)
  then have "rpc_step g dec enc env (c\<lparr>cl_cc := arrive d (cl_cc c)\<rparr>, z) (c\<lparr>cl_cc := arrive (d @ d') (cl_cc c)\<rparr>, z')"
    using d' by (simp add: sent_since_def)
  from rtranclp.rtrancl_into_rtrancl [of "rpc_step g dec enc env", OF d(2) this] d(1) d'
  show ?case by (intro exI [of _ "d @ d'"]) simp
qed

text \<open>The receiver takes a response that has arrived, and nothing is written.\<close>

lemma client_moves_quietly:
  assumes "client_step g dec enc c c'" and "conn_out (cl_cc c') = conn_out (cl_cc c)" and "conn_in (cl_cc c) \<noteq> []"
  shows "rpc_step g dec enc env (c, s) (c', s)"
  using rpc_step.client_moves [OF assms(1), of s env] assms(2,3) by (simp add: sent_since_def read_returns_def)

lemma receive_turn_runs:
  assumes c: "cl_recv c = RRead" "\<not> conn_closed (cl_cc c)" "conn_in (cl_cc c) = [HeaderMsg h, BodyMsg b]"
  shows "(rpc_step g dec enc env)\<^sup>*\<^sup>* (c, s) (receive_turn g dec c, s)"
proof -
  define c1 where "c1 = recv_header g c"
  define c2 where "c2 = recv_remove h c1"
  have c1: "c1 = c\<lparr>cl_cc := (cl_cc c)\<lparr>conn_in := [BodyMsg b]\<rparr>, cl_recv := RHeader h\<rparr>"
    by (simp add: c1_def recv_header_def ReadHeader_HeaderMsg [OF c(2,3)])
  have c2: "cl_recv c2 = RCall h (cl_pending c1 (h_Seq h))" "cl_cc c2 = cl_cc c1"
    by (simp_all add: c2_def recv_remove_def removeCall_def)
  have c3: "receive_turn g dec c = recv_body dec h (cl_pending c1 (h_Seq h)) c2"
    by (simp add: receive_turn_def c1_def [symmetric] Let_def c1 c2_def)
  have out: "conn_out (cl_cc (recv_body dec h a c2)) = conn_out (cl_cc c2)" for a
    by (auto simp: recv_body_def ReadBody_def Let_def split: prod.splits option.splits sum.splits dest: gob_decode_out)
  have "rpc_step g dec enc env (c, s) (c1, s)"
    using client_step.header [OF c(1), of g dec enc] c by (intro client_moves_quietly) (simp_all add: c1_def [symmetric] c1)
  moreover have "rpc_step g dec enc env (c1, s) (c2, s)"
    using client_step.take_call [of c1 h g dec enc] by (intro client_moves_quietly) (simp_all add: c2_def [symmetric] c2, simp_all add: c1)
  moreover have "rpc_step g dec enc env (c2, s) (receive_turn g dec c, s)"
    using client_step.body [OF c2(1), of g dec enc] out
    by (intro client_moves_quietly) (simp_all add: c3 c2(2), simp_all add: c1)
  ultimately show ?thesis by (meson rtranclp.rtrancl_into_rtrancl rtranclp.rtrancl_refl)
qed

lemma receive_turn_registered [simp]: "cl_registered (receive_turn g dec c) = cl_registered c"
  by (simp add: receive_turn_def Let_def split: recv_pc.splits)

lemma client_sends:
  fixes w :: 'w and enc :: "'v \<Rightarrow> goerror + 'b" and dec :: "'b message \<Rightarrow> goerror + 'r" and srv :: "('a, 'w) server"
  assumes enc: "enc args = Inr b" and h: "h = \<lparr>ServiceMethod = sm, h_Seq = 1, h_Error = ''''\<rparr>"
  shows "(rpc_step g dec enc env)\<^sup>*\<^sup>* (rpc_init srv w)
     (client_send enc sm args (client_new (NewGobCodec [] True)),
      conn_init srv (NewGobCodec [HeaderMsg h, BodyMsg b] True) w)"
proof -
  let ?c0 = "client_new (NewGobCodec [] True) :: ('b, 'v, 'r) client"
  let ?s0 = "conn_init srv (NewGobCodec [] True) w :: ('a, 'b, 'w) conn_state"
  let ?c2 = "client_send enc sm args ?c0"
  define c1 where "c1 = client_Go sm args ?c0"
  have "\<not> (cl_closing ?c0 \<or> cl_shutdown ?c0)" by (simp add: client_new_def)
  note go = client_Go_registered [OF this, of sm args, folded c1_def]
  have send: "cl_send c1 = SWrite 0 1" "cl_calls c1 0 = Some ((new_call sm args)\<lparr>rc_Seq := 1\<rparr>)"
    by (simp_all add: go client_new_def)
  have c2: "?c2 = send_write enc 0 1 ((new_call sm args)\<lparr>rc_Seq := 1\<rparr>) c1"
    by (simp add: client_send_def c1_def [symmetric] send)
  have "client_step g dec enc ?c0 c1" unfolding c1_def by (rule client_step.go) (simp add: client_new_def)
  from rpc_step.client_moves [OF this, of ?s0 env] have "rpc_step g dec enc env (?c0, ?s0) (c1, ?s0)"
    by (simp add: go client_reads_def sent_since_def)
  moreover have "client_step g dec enc c1 ?c2"
    unfolding c2 by (rule client_step.do_write) (simp_all add: send)
  from rpc_step.client_moves [OF this, of ?s0 env]
  have "rpc_step g dec enc env (c1, ?s0) (?c2, conn_init srv (NewGobCodec [HeaderMsg h, BodyMsg b] True) w)"
    using client_send_new [where 'r = 'r and enc = enc and args = args and b = b and sm = sm, OF enc]
    by (simp add: go client_new_def client_reads_def sent_since_def NewGobCodec_def arrive_def conn_init_def h)
  ultimately show ?thesis unfolding rpc_init_def by (meson rtranclp.rtrancl_into_rtrancl rtranclp.rtrancl_refl)
qed

lemma rpc_completes:
  fixes srv :: "('a, 'w) server" and env :: "('a, 'b) rpc_env" and dec :: "'b message \<Rightarrow> goerror + 'r"
    and enc :: "'v \<Rightarrow> goerror + 'b"
  assumes find: "findService sm srv = Inr (svc, mt)" and stored: "serviceMap srv (svc_name svc) = Some svc"
    and ptr: "kind (ReplyType mt) = KPtr" and new: "newArgv mt = Ret argv" "newReplyv mt = Ret replyv"
    and request: "enc args = Inr b" "env_dec env (argv_target argv (ArgType mt)) (BodyMsg b) = Inr x"
    and call: "service_call (rm_Name (mt_method mt)) mt (argv_store argv x) replyv svc w
                 = Ret ((err, reply), svc', w')"
    and response: "env_enc env (response_body err reply) = Inr b'" "err = None \<longrightarrow> dec (BodyMsg b') = Inr r"
    and error: "err \<noteq> Some ''''" and timeout: "env_timeout env = 0"
  shows "\<exists>c s a. (rpc_step g dec enc env)\<^sup>*\<^sup>* (rpc_init srv w) (c, s) \<and> cl_registered c = 1
           \<and> cl_calls c 0 = Some a \<and> call_result err r a \<and> rc_ServiceMethod a = sm \<and> rc_Args a = args"
proof -
  define h where "h = \<lparr>ServiceMethod = sm, h_Seq = 1, h_Error = ''''\<rparr>"
  let ?resp = "[HeaderMsg (response_header h err), BodyMsg b']"
  let ?y0 = "conn_init srv (NewGobCodec [HeaderMsg h, BodyMsg b] True) w :: ('a, 'b, 'w) conn_state"
  define c :: "('b, 'v, 'r) client" where "c = client_send enc sm args (client_new (NewGobCodec [] True))"
  define d where "d = c\<lparr>cl_cc := codec_down (cl_cc c)\<rparr>"
  note c = client_send_new [where 'r = 'r and enc = enc and args = args and b = b and sm = sm,
      OF request(1), folded c_def h_def]
  have "findService (ServiceMethod h) srv = Inr (svc, mt)" by (simp add: h_def find)
  note runs = one_call_runs [OF this stored ptr new request(2) call response(1) timeout refl]
  from runs(1) [OF rtranclp.rtrancl_refl] obtain z where z: "(conn_step env)\<^sup>*\<^sup>* ?y0 z" "cs_reader z = ConnClosed" by blast
  have down: "\<not> conn_up (cl_cc d)" by (simp add: d_def codec_down_def)
  have "conn_out (cs_codec ?y0) = []" by (simp add: conn_init_def NewGobCodec_def)
  with server_run_alone [OF z(1) down, of g dec enc] runs(2) [OF z]
  have srv_run: "(rpc_step g dec enc env)\<^sup>*\<^sup>* (d, ?y0) (d\<lparr>cl_cc := arrive ?resp (cl_cc d)\<rparr>, z)" by auto
  let ?e = "d\<lparr>cl_cc := arrive ?resp (cl_cc d)\<rparr>"
  have e: "cl_recv ?e = RRead" "\<not> conn_closed (cl_cc ?e)" "conn_in (cl_cc ?e) = ?resp" "cl_pending ?e (h_Seq h) = Some 0"
    "cl_calls ?e 0 = Some ((new_call sm args)\<lparr>rc_Seq := 1\<rparr>)" "h_Error h = ''''" "cl_registered ?e = 1"
    by (simp_all add: d_def c NewGobCodec_def h_def codec_down_def arrive_def client_new_def)
  have "(rpc_step g dec enc env)\<^sup>*\<^sup>* (rpc_init srv w) (c, ?y0)"
    unfolding c_def by (rule client_sends [of enc args b h sm, OF request(1) h_def])
  moreover have "rpc_step g dec enc env (c, ?y0) (d, ?y0)" unfolding d_def by (rule rpc_step.client_breaks)
  ultimately have "(rpc_step g dec enc env)\<^sup>*\<^sup>* (rpc_init srv w) (receive_turn g dec ?e, z)"
    using srv_run receive_turn_runs [OF e(1-3), of g dec enc env z] by (meson rtranclp_trans rtranclp.rtrancl_into_rtrancl)
  moreover from receive_turn_answer [of ?e h err b' 0 "(new_call sm args)\<lparr>rc_Seq := 1\<rparr>" dec r g,
      OF e(2-5) _ _ _ e(6) error response(2)]
  have "\<exists>a. cl_calls (receive_turn g dec ?e) 0 = Some a \<and> call_result err r a \<and> rc_ServiceMethod a = sm \<and> rc_Args a = args"
    by (auto simp: new_call_def)
  ultimately show ?thesis using e(7) by (intro exI [of _ "receive_turn g dec ?e"] exI [of _ z]) auto
qed

section \<open>Properties\<close>

lemma completed_reply:
  fixes env :: "('a, 'b) rpc_env" and srv :: "('a, 'w) server" and enc :: "'v \<Rightarrow> goerror + 'b"
    and dec :: "'b message \<Rightarrow> goerror + 'r"
  assumes "bodies_are_no_headers (env_g env)" and "errors_have_text env srv"
    and "(rpc_step g dec enc env)\<^sup>*\<^sup>* (rpc_init srv w) (c, s)" and "cl_registered c < 2 ^ 64 - 1"
    and "cl_calls c i = Some x" and "rc_dones x = 1" and "rc_Error x = None"
  shows "\<exists>v. rc_Reply x = Some v \<and> reply_ok env srv enc dec x v"
proof -
  have start: "rpc_start env srv (rpc_init srv w :: ('a, 'b, 'w, 'v, 'r) rpc_state)"
    using assms(1,2) unfolding rpc_start_def by blast
  have inv: "rpc_inv env srv enc dec (c, s)" using rpc.run_inv [OF start assms(3)] .
  have "calls_ok c" "replies_ok env srv enc dec (cl_calls c)"
    using inv assms(4) by (simp_all add: client_inv_def client_ok_def)
  then show ?thesis
    using assms(5-7) unfolding calls_ok_def call_ok_def replies_ok_def by blast
qed

text \<open>C19: Every reply is the answer to its own call.  However many callers share the client, and
  however the goroutines of both sides, timeouts, closings and failures of the connection
  interleave: a call that has completed without an error holds what the method that it named, as
  registered at the server, returned without an error on the decoded arguments of this very call,
  encoded by the server and decoded by the client.  Supposed are that gob does not take a body for a
  header, that no error has an empty text (the header would not tell it from success), and
  that fewer than two to the 64 calls have been made.\<close>

theorem replies_are_answers:
  fixes env :: "('a, 'b) rpc_env" and srv :: "('a, 'w) server" and enc :: "'v \<Rightarrow> goerror + 'b"
    and dec :: "'b message \<Rightarrow> goerror + 'r"
  assumes "bodies_are_no_headers (env_g env)" and "errors_have_text env srv"
    and "(rpc_step g dec enc env)\<^sup>*\<^sup>* (rpc_init srv w) (c, s)" and "cl_registered c < 2 ^ 64 - 1"
    and "cl_calls c i = Some x" and "rc_dones x = 1" and "rc_Error x = None"
  shows "\<exists>v. rc_Reply x = Some v \<and> reply_ok env srv enc dec x v"
  by (rule completed_reply [OF assms])

text \<open>The demo service: the call with two as its argument gets the length of the body.\<close>

lemma demo_errors_have_text: "errors_have_text (demo_env\<lparr>env_timeout := 0\<rparr>) demo_server"
proof -
  have "demo_dec t m \<noteq> Inl ''''" for t m by (cases m) simp_all
  moreover have "reflect_Call mt a v w \<noteq> Ret ((Some '''', v'), w')" if f: "found demo_server sm = Some mt" for sm mt a v w v' w'
  proof -
    obtain m n where "m \<in> set demo_methods" "mt = (method_entry m)\<lparr>numCalls := n\<rparr>"
      using f registerMethods_Some [of demo_methods]
      by (fastforce simp: found_def findService_def demo_server_def bare_def
          split: option.splits prod.splits sum.splits if_splits)
    then show ?thesis by (auto simp: reflect_Call_def method_entry_def demo_methods_def demo_method_def)
  qed
  ultimately show ?thesis by (simp add: errors_have_text_def demo_env_def)
qed

theorem replies_are_answers_witness:
  "\<exists>x. rc_Reply x = Some (4 :: nat) \<and> reply_ok (demo_env\<lparr>env_timeout := 0\<rparr>) demo_server demo_cenc demo_cdec x 4"
proof -
  let ?mt = "method_entry (demo_method ''Sum'' (Ptr (Basic ''int'')))"
  let ?svc = "\<lparr>svc_name = ''Foo'', svc_methods = registerMethods demo_methods\<rparr>"
  let ?env = "demo_env\<lparr>env_timeout := 0\<rparr>"
  have "serviceMap demo_server (svc_name ?svc) = Some ?svc" by (simp add: demo_server_def)
  moreover have "kind (ReplyType ?mt) = KPtr" "newArgv ?mt = Ret (Zero demo_args)"
    "newReplyv ?mt = Ret (Ref (Zero (Basic ''int'')))"
    by (simp_all add: method_entry_def demo_method_def newArgv_def newReplyv_def demo_args_def)
  moreover have "demo_cenc 2 = Inr ''xx''" by (simp add: demo_cenc_def numeral_2_eq_2)
  moreover have "env_dec ?env (argv_target (Zero demo_args) (ArgType ?mt)) (BodyMsg ''xx'') = Inr (Data demo_args 2)"
    by (simp add: demo_env_def method_entry_def demo_method_def)
  moreover have "service_call (rm_Name (mt_method ?mt)) ?mt (argv_store (Zero demo_args) (Data demo_args 2))
      (Ref (Zero (Basic ''int''))) ?svc 0
    = Ret ((None, Ref (Data (Basic ''int'') 1)), count_call (rm_Name (mt_method ?mt)) ?svc, 1)"
    by (simp add: service_call_def reflect_Call_def method_entry_def demo_method_def assignable_def)
  moreover have "env_enc ?env (response_body None (Ref (Data (Basic ''int'') 1))) = Inr ''body''"
    by (simp add: demo_env_def)
  moreover have "demo_cdec (BodyMsg ''body'') = Inr 4" by simp
  ultimately obtain c and s :: "(nat, string, nat) conn_state" and a
    where run: "(rpc_step demo_cg demo_cdec demo_cenc ?env)\<^sup>*\<^sup>* (rpc_init demo_server 0) (c, s)"
      and c: "cl_registered c = 1" "cl_calls c 0 = Some a" "call_result None 4 a"
    using rpc_completes [OF demo_findService, of "Zero demo_args" "Ref (Zero (Basic ''int''))" demo_cenc 2 "''xx''"
        ?env "Data demo_args 2" 0 None "Ref (Data (Basic ''int'') 1)" "count_call (rm_Name (mt_method ?mt)) ?svc" 1
        "''body''" demo_cdec 4 demo_cg] by auto
  have "bodies_are_no_headers (env_g ?env)" by (simp add: bodies_are_no_headers_def demo_env_def demo_g_def)
  from replies_are_answers [OF this demo_errors_have_text run _ c(2)] c(1,3) show ?thesis
    by (auto simp: call_result_def)
qed

end
