(* ===== verification/RpcTypes.thy ===== *)
theory RpcTypes
  imports ServeLoop
begin

text \<open>
  Types at run time in \<^verbatim>\<open>geerpc\<close>: \<^verbatim>\<open>reflect\<close> checks the types of a call when it is made, and a mismatch
  is a panic that nobody recovers, so it takes the process down.  A server is well typed when its methods
  have pointers as their replies and do not panic on values of their own types.  Well-typedness is
  kept by registration and by calls, every request that is handed to a worker is well typed, and so
  a well-typed server never crashes.
\<close>

section \<open>Typing\<close>

text \<open>A value that reflection accepts for a parameter, and that is not nil when it is a pointer.\<close>

definition passable :: "'a gvalue \<Rightarrow> gotype \<Rightarrow> bool" where
  "passable v t \<longleftrightarrow> assignable (value_type v) t \<and> (kind t = KPtr \<longrightarrow> (\<exists>u. v = Ref u))"

definition method_typed :: "('a, 'w) method_type \<Rightarrow> bool" where
  "method_typed mt \<longleftrightarrow>
     kind (ReplyType mt) = KPtr \<and>
     (\<forall>a v w m. passable a (ArgType mt) \<longrightarrow> passable v (ReplyType mt) \<longrightarrow> rm_Func (mt_method mt) a v w \<noteq> Panic m)"

definition service_typed :: "('a, 'w) service \<Rightarrow> bool" where
  "service_typed svc \<longleftrightarrow> (\<forall>n mt. svc_methods svc n = Some mt \<longrightarrow> method_typed mt)"

definition server_typed :: "('a, 'w) server \<Rightarrow> bool" where
  "server_typed srv \<longleftrightarrow>
     (\<forall>n svc. serviceMap srv n = Some svc \<longrightarrow> svc_name svc = n \<and> service_typed svc)"

text \<open>Gob decodes into the variable it is given, and so does not change its type.\<close>

definition decoder_typed :: "('a, 'b) rpc_env \<Rightarrow> bool" where
  "decoder_typed env \<longleftrightarrow> (\<forall>t m x. env_dec env t m = Inr x \<longrightarrow> value_type x = t)"

definition request_typed :: "('a, 'w) server \<Rightarrow> ('a, 'w) request \<Rightarrow> bool" where
  "request_typed srv r \<longleftrightarrow>
     serviceMap srv (req_svc r) \<noteq> None \<and> method_typed (req_mtype r)
     \<and> passable (req_argv r) (ArgType (req_mtype r)) \<and> passable (req_replyv r) (ReplyType (req_mtype r))"

definition conn_typed :: "('a, 'b, 'w) conn_state \<Rightarrow> bool" where
  "conn_typed s \<longleftrightarrow>
     cs_reader s \<noteq> Crash \<and> server_typed (cs_server s) \<and>
     (\<forall>i hr r. cs_handlers s i = Some hr \<longrightarrow> hd_worker hr = WCall r \<longrightarrow> request_typed (cs_server s) r)"

section \<open>Registration\<close>

text \<open>A receiver whose suitable methods have a pointer as their reply and do not panic.\<close>

definition receiver_typed :: "('a, 'w) receiver \<Rightarrow> bool" where
  "receiver_typed rcvr \<longleftrightarrow> (\<forall>m \<in> set (rcvr_methods rcvr). suitable m \<longrightarrow> method_typed (method_entry m))"

lemma NewServer_typed: "server_typed NewServer"
  by (simp add: server_typed_def NewServer_def)

lemma Register_typed:
  assumes "server_typed srv" and "receiver_typed rcvr" and "Register rcvr srv = Ret (err, srv')"
  shows "server_typed srv'"
proof -
  have "method_typed mt" if "registerMethods (rcvr_methods rcvr) n = Some mt" for n mt
    using registerMethods_Some [OF that] assms(2) by (auto simp: receiver_typed_def)
  with assms(1,3) show ?thesis
    by (auto simp: Register_Ret server_typed_def service_typed_def split: if_splits)
qed

section \<open>Requests and calls\<close>

lemma argv_store_typed:
  assumes "newArgv mt = Ret argv" and "value_type x = argv_target argv (ArgType mt)"
  shows "passable (argv_store argv x) (ArgType mt)"
proof -
  have "assignable (value_type argv) (ArgType mt)" using newArgv_ok [of mt] assms(1) by auto
  moreover have "kind (ArgType mt) = KPtr \<longrightarrow> (\<exists>u. argv = Ref u)"
    using assms(1) by (cases "Elem (ArgType mt)") (auto simp: newArgv_def)
  ultimately show ?thesis using assms(2) by (cases argv) (auto simp: passable_def assignable_def)
qed

lemma findService_typed:
  assumes "server_typed srv" and "findService sm srv = Inr (svc, mt)"
  shows "serviceMap srv (svc_name svc) = Some svc \<and> method_typed mt"
  using assms
  by (auto simp: findService_def server_typed_def service_typed_def split: option.splits prod.splits)

lemma newReplyv_ok:
  "kind (ReplyType mt) = KPtr \<Longrightarrow> \<exists>v. newReplyv mt = Ret v \<and> passable v (ReplyType mt)"
  using newReplyv_assignable [of mt]
  by (cases "Elem (ReplyType mt)") (auto simp: newReplyv_def passable_def split: gokind.splits)

text \<open>The reader neither panics nor makes an ill-typed request.\<close>

lemma readRequest_typed:
  fixes srv :: "('a, 'w) server"
  assumes srv: "server_typed srv" and dec: "\<And>t m x. dec t m = Inr x \<Longrightarrow> value_type x = t"
  shows "\<exists>res cc'. readRequest g dec srv cc = Ret (res, cc') \<and> (\<forall>r. res = Request r \<longrightarrow> request_typed srv r)"
proof -
  obtain h cc1 where hdr: "readRequestHeader g cc = (h, cc1)" by fastforce
  show ?thesis
  proof (cases h)
    case (Inl e)
    then show ?thesis by (simp add: readRequest_def hdr)
  next
    case (Inr hd)
    show ?thesis
    proof (cases "findService (ServiceMethod hd) srv")
      case (Inl e)
      with \<open>h = Inr hd\<close> show ?thesis by (simp add: readRequest_def hdr)
    next
      case (Inr p)
      obtain svc mt where p: "p = (svc, mt)" by fastforce
      from findService_typed [OF srv Inr [unfolded p]]
      have svc: "serviceMap srv (svc_name svc) = Some svc" "method_typed mt" by simp_all
      obtain argv :: "'a gvalue" where argv: "newArgv mt = Ret argv" using newArgv_ok by blast
      from svc(2) newReplyv_ok [of mt] obtain replyv :: "'a gvalue"
        where replyv: "newReplyv mt = Ret replyv" "passable replyv (ReplyType mt)"
        by (auto simp: method_typed_def)
      obtain b cc2 where body: "ReadBody (dec (argv_target argv (ArgType mt))) cc1 = (b, cc2)" by fastforce
      have typed: "value_type x = argv_target argv (ArgType mt)" if "b = Inr x" for x
        using body dec that by (auto simp: ReadBody_def gob_decode_def split: if_splits list.splits)
      note red = readRequest_def hdr \<open>h = Inr hd\<close> Inr p argv replyv(1) body
      show ?thesis
      proof (cases b)
        case (Inl e)
        then show ?thesis by (simp add: red)
      next
        case (Inr x)
        with argv_store_typed [OF argv typed] svc replyv(2) show ?thesis
          by (simp add: red request_typed_def)
      qed
    qed
  qed
qed

lemma count_call_typed [simp]: "service_typed svc \<Longrightarrow> service_typed (count_call mname svc)"
  by (auto simp: service_typed_def count_call_def method_typed_def split: if_splits)

text \<open>A call of a well-typed request returns, and leaves the server well typed.\<close>

lemma worker_call_typed:
  assumes s: "conn_typed s" and hr: "cs_handlers s i = Some hr" "hd_worker hr = WCall r"
  shows "conn_typed (worker_call i hr r s)"
proof -
  have srv: "server_typed (cs_server s)" and r: "request_typed (cs_server s) r"
    using s hr by (auto simp: conn_typed_def)
  then obtain svc where svc: "serviceMap (cs_server s) (req_svc r) = Some svc"
    by (auto simp: request_typed_def)
  have "reflect_Call (req_mtype r) (req_argv r) (req_replyv r) (cs_world s) \<noteq> Panic m" for m
    using r by (auto simp: request_typed_def reflect_Call_def method_typed_def passable_def)
  then obtain res where "reflect_Call (req_mtype r) (req_argv r) (req_replyv r) (cs_world s) = Ret res"
    by (cases "reflect_Call (req_mtype r) (req_argv r) (req_replyv r) (cs_world s)") auto
  then obtain err reply w' where
    call: "reflect_Call (req_mtype r) (req_argv r) (req_replyv r) (cs_world s) = Ret ((err, reply), w')"
    by (cases res) auto
  let ?svc = "count_call (rm_Name (mt_method (req_mtype r))) svc"
  let ?srv = "(cs_server s)\<lparr>serviceMap := (serviceMap (cs_server s))(req_svc r \<mapsto> ?svc)\<rparr>"
  have eq: "worker_call i hr r s = set_handler i (hr\<lparr>hd_worker := WSendCalled err reply\<rparr>)
      (s\<lparr>cs_server := ?srv, cs_world := w'\<rparr>)"
    using svc call by (simp add: worker_call_def service_call_def)
  have "server_typed ?srv"
    using srv svc by (auto simp: server_typed_def count_call_def [of _ svc]) (auto simp: service_typed_def count_call_def method_typed_def split: if_splits)
  moreover have "request_typed ?srv q" if "request_typed (cs_server s) q" for q
    using that by (simp add: request_typed_def)
  ultimately show ?thesis using s by (auto simp: eq conn_typed_def split: if_splits)
qed

lemma reader_turn_typed:
  assumes s: "conn_typed s" and rd: "cs_reader s = Reading" and dec: "decoder_typed env"
  shows "conn_typed (reader_turn env s)"
proof -
  have "server_typed (cs_server s)" using s by (simp add: conn_typed_def)
  from readRequest_typed [OF this, of "env_dec env" "env_g env" "cs_codec s"] dec
  obtain res cc' where "readRequest (env_g env) (env_dec env) (cs_server s) (cs_codec s) = Ret (res, cc')"
    "\<forall>r. res = Request r \<longrightarrow> request_typed (cs_server s) r" by (auto simp: decoder_typed_def)
  with s rd show ?thesis
    by (cases res) (auto simp: reader_turn_def conn_typed_def split: if_splits)
qed

lemma conn_typed_step:
  assumes step: "conn_step env s s'" and s: "conn_typed s" and dec: "decoder_typed env"
  shows "conn_typed s'"
  using step
proof cases
  case read
  with reader_turn_typed [OF s _ dec] show ?thesis by simp
next
  case (call i hr r)
  with worker_call_typed [OF s] show ?thesis by simp
next
  case (respond i hr e v)
  with s show ?thesis by (auto simp: conn_typed_def worker_respond_def split: option.splits if_splits)
qed (use s in \<open>auto simp: conn_typed_def split: if_splits\<close>)

definition typed_start :: "('a, 'b) rpc_env \<Rightarrow> ('a, 'b, 'w) conn_state \<Rightarrow> bool" where
  "typed_start env s \<longleftrightarrow>
     decoder_typed env \<and> (\<exists>srv cc w. s = conn_init srv cc w \<and> server_typed srv)"

lemma typed_start_inv: "typed_start env s \<Longrightarrow> decoder_typed env \<and> conn_typed s"
  by (auto simp: typed_start_def conn_typed_def conn_init_def)

interpretation typed_conn: invariant_system "typed_start env" "conn_step env" "\<lambda>s. decoder_typed env \<and> conn_typed s"
  for env
  by unfold_locales (simp_all add: typed_start_inv conn_typed_step)

section \<open>Properties\<close>

text \<open>C21: A well-typed server does not crash.  If every registered method takes its reply through a
  pointer and does not panic on values of its own types, and gob decodes into the variable it is
  given, then no message and no interleaving takes the process down: every request that reaches a
  worker names a service that is there, its argument and its reply have types that reflection
  accepts and are no nil pointers, the server stays well typed, and registering another receiver of this kind keeps it so.\<close>

theorem typed_server_never_crashes:
  fixes srv :: "('a, 'w) server" and env :: "('a, 'b) rpc_env"
  assumes "server_typed srv" and "decoder_typed env" and "(conn_step env)\<^sup>*\<^sup>* (conn_init srv cc w) s"
  shows "cs_reader s \<noteq> Crash \<and> server_typed (cs_server s)
       \<and> (\<forall>i hr r. cs_handlers s i = Some hr \<longrightarrow> hd_worker hr = WCall r \<longrightarrow> request_typed (cs_server s) r)
       \<and> (\<forall>rcvr err srv'. receiver_typed rcvr \<longrightarrow> Register rcvr (cs_server s) = Ret (err, srv') \<longrightarrow> server_typed srv')"
proof -
  have "typed_start env (conn_init srv cc w)" using assms(1,2) by (auto simp: typed_start_def)
  from typed_conn.run_inv [OF this assms(3)] show ?thesis
    using Register_typed unfolding conn_typed_def by blast
qed

text \<open>The demo server without the method whose reply is not a pointer.\<close>

definition sum_server :: "(nat, nat) server" where
  "sum_server = \<lparr>serviceMap = [''Foo'' \<mapsto>
     \<lparr>svc_name = ''Foo'', svc_methods = registerMethods [demo_method ''Sum'' (Ptr (Basic ''int''))]\<rparr>]\<rparr>"

theorem typed_server_never_crashes_witness:
  "\<exists>s. conn_step demo_env (conn_init sum_server (NewGobCodec [HeaderMsg demo_request_header, BodyMsg ''xyz''] True) 0) s
     \<and> cs_reader s \<noteq> Crash"
proof -
  let ?s = "conn_init sum_server (NewGobCodec [HeaderMsg demo_request_header, BodyMsg ''xyz''] True) 0"
  have "method_typed mt" if "registerMethods [demo_method ''Sum'' (Ptr (Basic ''int''))] n = Some mt" for n mt
    using registerMethods_Some [OF that] by (auto simp: method_typed_def method_entry_def demo_method_def)
  then have srv: "server_typed sum_server" by (auto simp: server_typed_def service_typed_def sum_server_def)
  have "value_type x = t" if "demo_dec t m = Inr x" for t m x using that by (cases m) auto
  then have dec: "decoder_typed demo_env" by (simp add: decoder_typed_def demo_env_def)
  have step: "conn_step demo_env ?s (reader_turn demo_env ?s)" by (rule conn_step.read) (simp add: conn_init_def)
  from typed_server_never_crashes [OF srv dec r_into_rtranclp [of "conn_step demo_env", OF step]] step
  show ?thesis by blast
qed

end
