(* ===== verification/RpcHttp.thy ===== *)
theory RpcHttp
  imports Server HttpMux Registry
begin

text \<open>
  What \<^verbatim>\<open>geerpc\<close> serves over HTTP beside its connections: the debug page of \<^verbatim>\<open>geerpc/debug.go\<close>, the
  mounting of handlers (\<open>HandleHTTP\<close> of \<^verbatim>\<open>server.go\<close> and \<^verbatim>\<open>registry/registry.go\<close>), and the accept
  loop of \<^verbatim>\<open>server.go\<close>.  The page is rendered from the template as \<^verbatim>\<open>html/template\<close> renders it, which
  escapes every text that it puts in; a reader of HTML finds on it the services and methods of the
  server and nothing else.
\<close>

section \<open>The template\<close>

text \<open>The escaping of \<^verbatim>\<open>html/template\<close> for text between tags; a null character becomes U+FFFD.\<close>

definition html_escape_char :: "char \<Rightarrow> string" where
  "html_escape_char c =
     (if c = CHR 0x00 then [CHR 0xEF, CHR 0xBF, CHR 0xBD]
      else if c = CHR 0x22 then ''&#34;''
      else if c = CHR ''&'' then ''&amp;''
      else if c = CHR 0x27 then ''&#39;''
      else if c = CHR ''+'' then ''&#43;''
      else if c = CHR ''<'' then ''&lt;''
      else if c = CHR ''>'' then ''&gt;'' else [c])"

definition html_escape :: "string \<Rightarrow> string" where
  "html_escape s = concat (map html_escape_char s)"

text \<open>A new line, indented by tabs.\<close>

definition line :: "nat \<Rightarrow> string" where "line n = CHR 0x0A # replicate n (CHR 0x09)"

record ('a, 'w) debug_service =
  ds_Name :: string
  ds_Method :: "string \<rightharpoonup> ('a, 'w) method_type"

text \<open>\<open>type_text\<close> is the text that \<^verbatim>\<open>reflect\<close> gives for a type.\<close>

definition debug_method :: "(gotype \<Rightarrow> string) \<Rightarrow> string \<Rightarrow> ('a, 'w) method_type \<Rightarrow> string" where
  "debug_method type_text name m =
     line 3 @ ''<tr>'' @
     line 3 @ ''<td align=left font=fixed>'' @ html_escape name @ ''('' @ html_escape (type_text (ArgType m)) @ '', ''
       @ html_escape (type_text (ReplyType m)) @ '') error</td>'' @
     line 3 @ ''<td align=center>'' @ nat_decimal (unat (NumCalls m)) @ ''</td>'' @
     line 3 @ ''</tr>'' @ line 2"

text \<open>\<open>range\<close> over a map goes through its keys in increasing order; \<open>keys\<close> are the keys of the map.\<close>

definition debug_table :: "(gotype \<Rightarrow> string) \<Rightarrow> string list \<Rightarrow> ('a, 'w) debug_service \<Rightarrow> string" where
  "debug_table type_text keys d =
     line 1 @ ''<hr>'' @
     line 1 @ ''Service '' @ html_escape (ds_Name d) @
     line 1 @ ''<hr>'' @
     line 2 @ ''<table>'' @
     line 2 @ ''<th align=center>Method</th><th align=center>Calls</th>'' @
     line 2 @ concat (map (\<lambda>k. debug_method type_text k (the (ds_Method d k))) (sort keys)) @
     line 2 @ ''</table>'' @
     line 1"

definition debug_Execute :: "(gotype \<Rightarrow> string) \<Rightarrow> (string list \<times> ('a, 'w) debug_service) list \<Rightarrow> string" where
  "debug_Execute type_text services =
     ''<html>'' @
     line 1 @ ''<body>'' @
     line 1 @ ''<title>GeeRPC Services</title>'' @
     line 1 @ concat (map (\<lambda>(keys, d). debug_table type_text keys d) services) @
     line 1 @ ''</body>'' @
     line 1 @ ''</html>''"

text \<open>
  The handler of the debug page.  \<open>order\<close> lists the services in the order in which \<open>Range\<close> visits them,
  each with the names of its methods.  The template cannot fail on this data.
\<close>

definition debug_ServeHTTP ::
    "(gotype \<Rightarrow> string) \<Rightarrow> (string \<times> string list) list \<Rightarrow> ('a, 'w) server \<Rightarrow> string" where
  "debug_ServeHTTP type_text order srv =
     debug_Execute type_text
       (map (\<lambda>(name, keys). (keys, \<lparr>ds_Name = name, ds_Method = svc_methods (the (serviceMap srv name))\<rparr>)) order)"

definition lists_services :: "('a, 'w) server \<Rightarrow> (string \<times> string list) list \<Rightarrow> bool" where
  "lists_services srv order \<longleftrightarrow>
     distinct (map fst order) \<and> fst ` set order = dom (serviceMap srv) \<and>
     (\<forall>(name, keys) \<in> set order. distinct keys \<and> set keys = dom (svc_methods (the (serviceMap srv name))))"

section \<open>Mounting and accepting\<close>

definition defaultDebugPath :: string where "defaultDebugPath = ''/debug/geerpc''"

text \<open>The handlers that the programs mount on the one mux of the process.\<close>

datatype ('a, 'w) rpc_route =
  RpcHandler "('a, 'w) server" | DebugHandler "('a, 'w) server" | RegistryHandler registry

definition rpc_HandleHTTP ::
    "('a, 'w) server \<Rightarrow> (string \<rightharpoonup> ('a, 'w) rpc_route) \<Rightarrow> (string \<rightharpoonup> ('a, 'w) rpc_route) outcome" where
  "rpc_HandleHTTP srv mux =
     bind_outcome (http_Handle defaultRPCPath (RpcHandler srv) mux)
       (http_Handle defaultDebugPath (DebugHandler srv))"

definition registry_HandleHTTP ::
    "string \<Rightarrow> registry \<Rightarrow> (string \<rightharpoonup> ('a, 'w) rpc_route) \<Rightarrow> (string \<rightharpoonup> ('a, 'w) rpc_route) outcome" where
  "registry_HandleHTTP path r mux = http_Handle path (RegistryHandler r) mux"

definition defaultPath :: string where "defaultPath = ''/_geerpc_/registry''"

text \<open>\<open>Accept\<close>: the connections that are handed to a goroutine of their own, up to the first error.\<close>

fun server_Accept :: "(goerror + 'c) list \<Rightarrow> 'c list" where
  "server_Accept [] = []"
| "server_Accept (Inl err # rest) = []"
| "server_Accept (Inr conn # rest) = conn # server_Accept rest"

text \<open>Nothing stands in the way of the two paths but a path that is taken: of two servers on one mux, also of
  one server that is mounted twice, the second \<open>HandleHTTP\<close> panics.\<close>

lemma rpc_HandleHTTP_iff:
  "rpc_HandleHTTP srv mux = Ret mux' \<longleftrightarrow>
     mux defaultRPCPath = None \<and> mux defaultDebugPath = None \<and>
     mux' = mux(defaultRPCPath \<mapsto> RpcHandler srv, defaultDebugPath \<mapsto> DebugHandler srv)"
  by (auto simp: rpc_HandleHTTP_def http_Handle_def defaultRPCPath_def defaultDebugPath_def dom_def)

lemma rpc_HandleHTTP_twice:
  "rpc_HandleHTTP srv mux = Ret mux' \<Longrightarrow> \<exists>m. rpc_HandleHTTP srv' mux' = Panic m"
  by (auto simp: rpc_HandleHTTP_iff) (simp add: rpc_HandleHTTP_def http_Handle_def defaultRPCPath_def defaultDebugPath_def)

lemma server_Accept_eq: "server_Accept rs = map projr (takeWhile (\<lambda>r. \<not> isl r) rs)"
  by (induction rs rule: server_Accept.induct) auto

section \<open>Reading HTML\<close>

text \<open>
  What a reader of a page sees: its tags, each with the text up to the next tag, without the space
  around it.
\<close>

function html_tokens :: "string \<Rightarrow> (string \<times> string) list" where
  "html_tokens [] = []"
| "html_tokens (c # cs) =
     (if c = CHR ''<'' then
        (let tag = takeWhile (\<lambda>x. x \<noteq> CHR ''>'') cs; rest = drop (Suc (length tag)) cs
         in (tag, trim_space (takeWhile (\<lambda>x. x \<noteq> CHR ''<'') rest)) # html_tokens (dropWhile (\<lambda>x. x \<noteq> CHR ''<'') rest))
      else html_tokens cs)"
  by pat_completeness auto

termination
  by (relation "measure length") (auto intro!: le_imp_less_Suc order_trans [OF length_dropWhile_le])

definition tag_text :: "string \<times> string \<Rightarrow> string" where
  "tag_text p = (case p of (tag, text) \<Rightarrow> CHR ''<'' # tag @ CHR ''>'' # text)"

definition plain :: "string \<Rightarrow> bool" where
  "plain s \<longleftrightarrow> CHR ''<'' \<notin> set s \<and> CHR ''>'' \<notin> set s"

text \<open>What may follow a piece of a page: space, and the end or a tag.\<close>

definition tag_follows :: "string \<Rightarrow> bool" where
  "tag_follows rest \<longleftrightarrow> (\<exists>ws r. rest = ws @ r \<and> (\<forall>c \<in> set ws. is_space c) \<and> (r = [] \<or> hd r = CHR ''<''))"

lemma not_space_lt: "\<not> is_space (CHR ''<'')"
  by (simp add: is_space_def)

lemma trim_space_append_space: "\<forall>c \<in> set ws. is_space c \<Longrightarrow> trim_space (s @ ws) = trim_space s"
proof -
  assume ws: "\<forall>c \<in> set ws. is_space c"
  have "dropWhile is_space (rev ws @ t) = dropWhile is_space t" for t
    using ws dropWhile_append2 [of "rev ws" is_space t] by auto
  moreover have "dropWhile is_space (s @ ws) = (if \<forall>c \<in> set s. is_space c then [] else dropWhile is_space s @ ws)"
    using ws by (auto simp: dropWhile_append dropWhile_eq_Nil_conv)
  moreover have "dropWhile is_space s = []" if "\<forall>c \<in> set s. is_space c" using that by simp
  ultimately show ?thesis unfolding trim_space_def by (metis rev_append rev.simps(1))
qed

lemma html_tokens_skip: "CHR ''<'' \<notin> set ws \<Longrightarrow> html_tokens (ws @ r) = html_tokens r"
  by (induction ws) auto

lemma html_tokens_tag:
  assumes "plain tag" and "plain x" and "tag_follows rest"
  shows "html_tokens (tag_text (tag, x) @ rest) = (tag, trim_space x) # html_tokens rest"
proof -
  obtain ws r where r: "rest = ws @ r" "\<forall>c \<in> set ws. is_space c" "r = [] \<or> hd r = CHR ''<''"
    using assms(3) unfolding tag_follows_def by blast
  have ws: "CHR ''<'' \<notin> set ws" using r(2) not_space_lt by auto
  have tag: "takeWhile (\<lambda>c. c \<noteq> CHR ''>'') (tag @ CHR ''>'' # z) = tag" for z
    using assms(1) by (auto simp: plain_def takeWhile_append)
  have parts: "takeWhile (\<lambda>c. c \<noteq> CHR ''<'') (x @ ws @ r) = x @ ws"
    "dropWhile (\<lambda>c. c \<noteq> CHR ''<'') (x @ ws @ r) = r"
    using assms(2) ws r(3) by (cases r; force simp: plain_def takeWhile_append dropWhile_append)+
  show ?thesis
    unfolding tag_text_def r(1) using tag parts trim_space_append_space [OF r(2), of x] html_tokens_skip [OF ws, of r]
    by (simp add: Let_def)
qed

lemma html_tokens_texts:
  assumes "\<forall>p \<in> set ps. plain (fst p) \<and> plain (snd p)" and "tag_follows rest"
  shows "html_tokens (concat (map tag_text ps) @ rest) = map (\<lambda>p. (fst p, trim_space (snd p))) ps @ html_tokens rest
       \<and> tag_follows (concat (map tag_text ps) @ rest)"
  using assms
proof (induction ps)
  case (Cons p ps)
  have "tag_follows (tag_text p @ x)" for x
    unfolding tag_follows_def
    by (rule exI [of _ "[]"], rule exI [of _ "tag_text p @ x"]) (cases p, simp add: tag_text_def)
  with Cons html_tokens_tag [of "fst p" "snd p" "concat (map tag_text ps) @ rest"] show ?case by simp
qed simp

lemma line_space: "\<forall>c \<in> set (line n). is_space c"
  by (simp add: line_def is_space_def)

lemma tag_follows_line [simp]: "tag_follows rest \<Longrightarrow> tag_follows (line n @ rest)"
proof -
  assume "tag_follows rest"
  then obtain ws r where r: "rest = ws @ r" "\<forall>c \<in> set ws. is_space c" "r = [] \<or> hd r = CHR ''<''"
    unfolding tag_follows_def by blast
  have "\<forall>c \<in> set (line n @ ws). is_space c" using r(2) line_space [of n] by auto
  with r(1,3) show ?thesis
    unfolding tag_follows_def by (intro exI [of _ "line n @ ws"] exI [of _ r]) simp
qed

lemma html_tokens_line [simp]: "html_tokens (line n @ rest) = html_tokens rest"
  by (rule html_tokens_skip) (simp add: line_def)

lemma plain_append [simp]: "plain (s @ t) \<longleftrightarrow> plain s \<and> plain t"
  by (auto simp: plain_def)

lemma plain_line [simp]: "plain (line n)"
  by (simp add: plain_def line_def)

lemma plain_html_escape [simp]: "plain (html_escape s)"
  by (auto simp: plain_def html_escape_def html_escape_char_def)

lemma nat_decimal_digits: "c \<in> set (nat_decimal n) \<Longrightarrow> \<exists>d < 10. c = digit_char d"
proof (induction n rule: nat_decimal.induct)
  case (1 n)
  have "\<exists>d < 10. digit_char (n mod 10) = digit_char d" by (rule exI [of _ "n mod 10"]) simp
  with 1 nat_decimal.simps [of n] show ?case by (auto split: if_splits)
qed

lemma digit_char_code: "d < 10 \<Longrightarrow> of_char (digit_char d) = (48 + d :: nat)"
  by (simp add: digit_char_def)

lemma digit_char_not: "d < 10 \<Longrightarrow> (of_char c :: nat) < 48 \<or> 57 < (of_char c :: nat) \<Longrightarrow> digit_char d \<noteq> c"
  using digit_char_code [of d] by auto

lemma digit_char_plain: "d < 10 \<Longrightarrow> CHR ''<'' \<noteq> digit_char d" "d < 10 \<Longrightarrow> CHR ''>'' \<noteq> digit_char d"
  using digit_char_not [of d "CHR ''<''"] digit_char_not [of d "CHR ''>''"] by auto

lemma plain_nat_decimal [simp]: "plain (nat_decimal n)"
  unfolding plain_def by (auto dest!: nat_decimal_digits simp: digit_char_plain)

lemma trim_space_none: "\<forall>c \<in> set s. \<not> is_space c \<Longrightarrow> trim_space s = s"
  by (cases "s = []") (simp_all add: trim_space_id)

lemma html_escape_append: "html_escape (s @ t) = html_escape s @ html_escape t"
  by (simp add: html_escape_def)

section \<open>The page\<close>

text \<open>What a text looks like on the page, the line for a method, and its number of calls.\<close>

definition shown :: "string \<Rightarrow> string" where "shown s = trim_space (html_escape s)"

definition signature :: "(gotype \<Rightarrow> string) \<Rightarrow> string \<Rightarrow> ('a, 'w) method_type \<Rightarrow> string" where
  "signature type_text k m = k @ ''('' @ type_text (ArgType m) @ '', '' @ type_text (ReplyType m) @ '') error''"

definition calls_text :: "('a, 'w) method_type \<Rightarrow> string" where
  "calls_text m = nat_decimal (unat (numCalls m))"

definition row_tags :: "(gotype \<Rightarrow> string) \<Rightarrow> string \<Rightarrow> ('a, 'w) method_type \<Rightarrow> (string \<times> string) list" where
  "row_tags type_text k m =
     [(''tr'', line 3), (''td align=left font=fixed'', html_escape (signature type_text k m)), (''/td'', line 3),
      (''td align=center'', calls_text m), (''/td'', line 3), (''/tr'', line 2)]"

lemma debug_method_tags: "debug_method type_text k m = line 3 @ concat (map tag_text (row_tags type_text k m))"
  by (simp add: debug_method_def row_tags_def tag_text_def signature_def html_escape_append calls_text_def NumCalls_def)
    (simp add: html_escape_def html_escape_char_def)

text \<open>The tags of the page in order, each with the text after it.\<close>

definition head_tags :: "string \<Rightarrow> (string \<times> string) list" where
  "head_tags name =
     [(''hr'', line 1 @ html_escape (''Service '' @ name) @ line 1), (''hr'', line 2), (''table'', line 2),
      (''th align=center'', ''Method''), (''/th'', ''''), (''th align=center'', ''Calls''), (''/th'', line 2)]"

lemma debug_table_tags:
  "debug_table type_text keys d =
     line 1 @ concat (map tag_text (head_tags (ds_Name d)))
       @ concat (map (\<lambda>k. debug_method type_text k (the (ds_Method d k))) (sort keys))
       @ line 2 @ concat (map tag_text [(''/table'', line 1)])"
  by (simp add: debug_table_def head_tags_def tag_text_def html_escape_append)
    (simp add: html_escape_def html_escape_char_def)

lemma debug_Execute_tags:
  "debug_Execute type_text services =
     concat (map tag_text [(''html'', line 1), (''body'', line 1), (''title'', ''GeeRPC Services''), (''/title'', line 1)])
       @ concat (map (\<lambda>(keys, d). debug_table type_text keys d) services)
       @ line 1 @ concat (map tag_text [(''/body'', line 1), (''/html'', '''')])"
  by (simp add: debug_Execute_def tag_text_def)

definition tokens_of :: "(string \<times> string) list \<Rightarrow> (string \<times> string) list" where
  "tokens_of ps = map (\<lambda>p. (fst p, trim_space (snd p))) ps"

lemma html_tokens_tags:
  assumes "\<forall>p \<in> set ps. plain (fst p) \<and> plain (snd p)" and "tag_follows rest"
  shows "html_tokens (concat (map tag_text ps) @ rest) = tokens_of ps @ html_tokens rest"
    and "tag_follows (concat (map tag_text ps) @ rest)"
  using html_tokens_texts [OF assms] by (simp_all add: tokens_of_def)

lemma html_tokens_concat:
  assumes "\<And>x rest. tag_follows rest \<Longrightarrow> html_tokens (f x @ rest) = g x @ html_tokens rest \<and> tag_follows (f x @ rest)"
    and "tag_follows rest"
  shows "html_tokens (concat (map f xs) @ rest) = concat (map g xs) @ html_tokens rest \<and> tag_follows (concat (map f xs) @ rest)"
  using assms by (induction xs) auto

lemma plain_signature_tags: "\<forall>p \<in> set (row_tags type_text k m). plain (fst p) \<and> plain (snd p)"
  "\<forall>p \<in> set (head_tags name). plain (fst p) \<and> plain (snd p)"
  by (simp_all add: row_tags_def head_tags_def calls_text_def) (simp_all add: plain_def)

lemma html_tokens_method:
  "tag_follows rest \<Longrightarrow>
     html_tokens (debug_method type_text k m @ rest) = tokens_of (row_tags type_text k m) @ html_tokens rest
       \<and> tag_follows (debug_method type_text k m @ rest)"
  using html_tokens_tags(1) [OF plain_signature_tags(1), of rest type_text k m]
    tag_follows_line [OF html_tokens_tags(2) [OF plain_signature_tags(1), of rest type_text k m]]
  by (simp add: debug_method_tags)

definition table_tokens :: "(gotype \<Rightarrow> string) \<Rightarrow> string list \<times> ('a, 'w) debug_service \<Rightarrow> (string \<times> string) list" where
  "table_tokens type_text = (\<lambda>(keys, d).
     tokens_of (head_tags (ds_Name d))
       @ concat (map (\<lambda>k. tokens_of (row_tags type_text k (the (ds_Method d k)))) (sort keys)) @ [(''/table'', '''')])"

lemma tag_follows_Nil [simp]: "tag_follows []"
  unfolding tag_follows_def by (rule exI [of _ "[]"]) simp

lemma html_tokens_table:
  assumes "tag_follows rest"
  shows "html_tokens (debug_table type_text keys d @ rest) = table_tokens type_text (keys, d) @ html_tokens rest
       \<and> tag_follows (debug_table type_text keys d @ rest)"
proof -
  let ?tail = "concat (map tag_text [(''/table'', line 1)]) @ rest"
  have "plain ''/table''" by (simp add: plain_def)
  then have e: "html_tokens ?tail = (''/table'', '''') # html_tokens rest" "tag_follows ?tail"
    using html_tokens_tags [of "[(''/table'', line 1)]", OF _ assms] trim_space_append_space [OF line_space, of "''''" 1]
    by (simp_all add: tokens_of_def)
  let ?rows = "concat (map (\<lambda>k. debug_method type_text k (the (ds_Method d k))) (sort keys)) @ line 2 @ ?tail"
  have "html_tokens ?rows = concat (map (\<lambda>k. tokens_of (row_tags type_text k (the (ds_Method d k)))) (sort keys))
      @ html_tokens (line 2 @ ?tail) \<and> tag_follows ?rows"
    using html_tokens_concat [where f = "\<lambda>k. debug_method type_text k (the (ds_Method d k))"
        and g = "\<lambda>k. tokens_of (row_tags type_text k (the (ds_Method d k)))", OF html_tokens_method, of "line 2 @ ?tail" "sort keys"]
      tag_follows_line [OF e(2)] by blast
  then show ?thesis
    using html_tokens_tags(1) [OF plain_signature_tags(2), of ?rows "ds_Name d"] e(1)
      tag_follows_line [OF html_tokens_tags(2) [OF plain_signature_tags(2), of ?rows "ds_Name d"]]
    by (simp add: debug_table_tags table_tokens_def)
qed

lemma trim_space_space_append: "\<forall>c \<in> set ws. is_space c \<Longrightarrow> trim_space (ws @ s) = trim_space s"
  using dropWhile_append2 [of ws is_space s] by (simp add: trim_space_def)

lemma trim_line [simp]: "trim_space (line n) = ''''" "trim_space (line n @ s) = trim_space s"
  "trim_space (s @ line n) = trim_space s"
  using trim_space_append_space [OF line_space, of "''''" n] trim_space_append_space [OF line_space, of s n]
    trim_space_space_append [OF line_space, of n s] by simp_all

lemma trim_calls_text: "trim_space (calls_text m) = calls_text m"
proof (rule trim_space_none, rule ballI, rule notI)
  fix c assume "c \<in> set (calls_text m)" "is_space c"
  then obtain d where d: "d < 10" "c = digit_char d" "is_space c"
    using nat_decimal_digits by (auto simp: calls_text_def)
  then have "(of_char c :: nat) \<le> 32" by (auto simp: is_space_def)
  with d(1,2) digit_char_not [of d c] show False by simp
qed

lemma tokens_row:
  "tokens_of (row_tags type_text k m) =
     [(''tr'', ''''), (''td align=left font=fixed'', shown (signature type_text k m)), (''/td'', ''''),
      (''td align=center'', calls_text m), (''/td'', ''''), (''/tr'', '''')]"
  by (simp add: tokens_of_def row_tags_def trim_calls_text) (simp add: shown_def)

lemma tokens_head:
  "tokens_of (head_tags name) =
     [(''hr'', shown (''Service '' @ name)), (''hr'', ''''), (''table'', ''''), (''th align=center'', ''Method''), (''/th'', ''''),
      (''th align=center'', ''Calls''), (''/th'', '''')]"
proof -
  have "trim_space ''Method'' = ''Method''" "trim_space ''Calls'' = ''Calls''"
    by (rule trim_space_none, simp add: is_space_def)+
  then show ?thesis by (simp add: tokens_of_def head_tags_def del: append_Cons) (simp add: shown_def)
qed

lemma html_tokens_page:
  "html_tokens (debug_Execute type_text services) =
     [(''html'', ''''), (''body'', ''''), (''title'', ''GeeRPC Services''), (''/title'', '''')]
       @ concat (map (table_tokens type_text) services) @ [(''/body'', ''''), (''/html'', '''')]"
proof -
  let ?tail = "concat (map tag_text [(''/body'', line 1), (''/html'', '''')])"
  have e: "html_tokens ?tail = [(''/body'', ''''), (''/html'', '''')]" "tag_follows ?tail"
    using html_tokens_tags [of "[(''/body'', line 1), (''/html'', '''')]" "[]"] plain_line
    by (simp_all add: tokens_of_def) (simp_all add: plain_def)
  let ?mid = "concat (map (\<lambda>(keys, d). debug_table type_text keys d) services) @ line 1 @ ?tail"
  have mid: "html_tokens ?mid = concat (map (table_tokens type_text) services) @ html_tokens (line 1 @ ?tail) \<and> tag_follows ?mid"
    using html_tokens_concat [where f = "\<lambda>(keys, d). debug_table type_text keys d" and g = "table_tokens type_text",
        of "line 1 @ ?tail" services] html_tokens_table tag_follows_line [OF e(2)] by auto
  have "trim_space ''GeeRPC Services'' = ''GeeRPC Services''" by (rule trim_space_id) (simp_all add: is_space_def)
  moreover have "\<forall>p \<in> set [(''html'', line 1), (''body'', line 1), (''title'', ''GeeRPC Services''), (''/title'', line 1)].
      plain (fst p) \<and> plain (snd p)"
    using plain_line by simp (simp add: plain_def)
  ultimately show ?thesis
    using html_tokens_tags(1) [of "[(''html'', line 1), (''body'', line 1), (''title'', ''GeeRPC Services''), (''/title'', line 1)]" ?mid]
      mid e(1) by (simp add: debug_Execute_tags tokens_of_def)
qed

definition column :: "string \<Rightarrow> (string \<times> string) list \<Rightarrow> string list" where
  "column tag ps = map snd (filter (\<lambda>p. fst p = tag) ps)"

definition page_rows :: "(gotype \<Rightarrow> string) \<Rightarrow> (string list \<times> ('a, 'w) debug_service) list \<Rightarrow> (string \<times> string) list" where
  "page_rows type_text services =
     concat (map (\<lambda>(keys, d). map (\<lambda>k. (shown (signature type_text k (the (ds_Method d k))), calls_text (the (ds_Method d k))))
       (sort keys)) services)"

lemma column_simps [simp]:
  "column tag [] = []" "column tag (p # ps) = (if fst p = tag then snd p # column tag ps else column tag ps)"
  "column tag (ps @ qs) = column tag ps @ column tag qs"
  by (simp_all add: column_def)

lemma column_concat: "column tag (concat pss) = concat (map (column tag) pss)"
  by (induction pss) simp_all

lemma concat_Nils [simp]: "concat (map (\<lambda>x. []) xs) = []"
  by (induction xs) simp_all

lemma page_columns:
  "column ''td align=left font=fixed'' (html_tokens (debug_Execute type_text services)) = map fst (page_rows type_text services)"
  "column ''td align=center'' (html_tokens (debug_Execute type_text services)) = map snd (page_rows type_text services)"
  "column ''hr'' (html_tokens (debug_Execute type_text services))
     = concat (map (\<lambda>(keys, d). [shown (''Service '' @ ds_Name d), '''']) services)"
  by (simp_all add: html_tokens_page column_concat table_tokens_def tokens_head tokens_row page_rows_def o_def
      case_prod_unfold map_concat)

lemma page_tags:
  "fst ` set (html_tokens (debug_Execute type_text services)) \<subseteq>
     {''html'', ''body'', ''title'', ''/title'', ''hr'', ''table'', ''th align=center'', ''/th'', ''tr'',
      ''td align=left font=fixed'', ''/td'', ''td align=center'', ''/tr'', ''/table'', ''/body'', ''/html''}"
  by (auto simp: html_tokens_page table_tokens_def tokens_head tokens_row)

lemma shown_service: "shown (''Service '' @ n) \<noteq> ''''"
proof
  assume "shown (''Service '' @ n) = ''''"
  then have "\<forall>c \<in> set (dropWhile is_space (html_escape (''Service '' @ n))). is_space c"
    by (simp add: shown_def trim_space_def)
  then show False by (simp add: html_escape_def html_escape_char_def is_space_def)
qed

text \<open>C22: The debug page lists what is registered.  To a reader of its HTML, the rows of its tables are
  the registered methods, each with its argument and reply types and with the number of its calls, no
  more and no fewer; the services are the registered services; and the tags are those of the template
  only, whatever characters the names of services, methods and types consist of.\<close>

theorem debug_page_lists:
  assumes "lists_services srv order"
  shows "let tokens = html_tokens (debug_ServeHTTP type_text order srv) in
    set (zip (column ''td align=left font=fixed'' tokens) (column ''td align=center'' tokens))
      = {(shown (signature type_text k m), calls_text m) | n svc k m.
           serviceMap srv n = Some svc \<and> svc_methods svc k = Some m}
    \<and> length (column ''td align=left font=fixed'' tokens) = length (column ''td align=center'' tokens)
    \<and> set (column ''hr'' tokens) - {''''} = {shown (''Service '' @ n) | n. n \<in> dom (serviceMap srv)}
    \<and> fst ` set tokens \<subseteq>
        {''html'', ''body'', ''title'', ''/title'', ''hr'', ''table'', ''th align=center'', ''/th'', ''tr'',
         ''td align=left font=fixed'', ''/td'', ''td align=center'', ''/tr'', ''/table'', ''/body'', ''/html''}"
proof -
  let ?services = "map (\<lambda>(name, keys). (keys, \<lparr>ds_Name = name, ds_Method = svc_methods (the (serviceMap srv name))\<rparr>)) order"
  have "fst ` set order = dom (serviceMap srv)"
    "\<forall>p \<in> set order. set (snd p) = dom (svc_methods (the (serviceMap srv (fst p))))"
    using assms unfolding lists_services_def case_prod_unfold by blast+
  note order = this(1) this(2) [THEN bspec, of "(_, _)", unfolded fst_conv snd_conv]
  have "set (page_rows type_text ?services)
      = {(shown (signature type_text k m), calls_text m) | n svc k m.
           serviceMap srv n = Some svc \<and> svc_methods svc k = Some m}" (is "_ = ?rows")
  proof (rule set_eqI, rule iffI)
    fix x assume "x \<in> set (page_rows type_text ?services)"
    then obtain n ks k where x: "(n, ks) \<in> set order" "k \<in> set ks"
      "x = (shown (signature type_text k (the (svc_methods (the (serviceMap srv n)) k))),
            calls_text (the (svc_methods (the (serviceMap srv n)) k)))"
      by (auto simp: page_rows_def)
    then obtain svc m where "serviceMap srv n = Some svc" "svc_methods svc k = Some m"
      using order(1) order(2) [OF x(1)] by (metis domD fst_conv image_eqI option.sel)
    with x(3) show "x \<in> ?rows" by auto
  next
    fix x assume "x \<in> ?rows"
    then obtain n svc k m where x: "serviceMap srv n = Some svc" "svc_methods svc k = Some m"
      "x = (shown (signature type_text k m), calls_text m)" by blast
    then obtain ks where "(n, ks) \<in> set order" using order(1) by (metis domI fst_conv imageE prod.collapse)
    with x order(2) [OF this] show "x \<in> set (page_rows type_text ?services)"
      by (force simp: page_rows_def)
  qed
  moreover have "set (concat (map (\<lambda>(keys, d). [shown (''Service '' @ ds_Name d), '''']) ?services)) - {''''}
      = {shown (''Service '' @ n) | n. n \<in> dom (serviceMap srv)}"
    unfolding order(1) [symmetric] using shown_service by (auto simp: case_prod_unfold)
  ultimately show ?thesis
    using page_tags [of type_text ?services]
    by (simp add: Let_def debug_ServeHTTP_def page_columns zip_map_fst_snd)
qed

definition page_server :: "(unit, unit) server" where
  "page_server = \<lparr>serviceMap = [''Foo'' \<mapsto> \<lparr>svc_name = ''Foo'', svc_methods = [''Sum'' \<mapsto>
     \<lparr>mt_method = \<lparr>rm_Name = ''Sum'', rm_In = [], rm_Out = [], rm_Func = \<lambda>_ _ _. Panic ''''\<rparr>,
      ArgType = Struct, ReplyType = Ptr Struct, numCalls = 3\<rparr>]\<rparr>]\<rparr>"

theorem debug_page_lists_witness:
  "let tokens = html_tokens (debug_ServeHTTP (\<lambda>t. ''<b>'') [(''Foo'', [''Sum''])] page_server)
   in set (zip (column ''td align=left font=fixed'' tokens) (column ''td align=center'' tokens))
        = {(''Sum(&lt;b&gt;, &lt;b&gt;) error'', ''3'')}"
proof -
  have order: "lists_services page_server [(''Foo'', [''Sum''])]"
    by (simp add: lists_services_def page_server_def)
  have "calls_text m = ''3''" if "numCalls m = 3" for m :: "(unit, unit) method_type"
    using that by (simp add: calls_text_def nat_decimal.simps digit_char_def char_of_def bit_0)
  moreover have "shown (''Sum(<b>, <b>) error'') = ''Sum(&lt;b&gt;, &lt;b&gt;) error''"
    by (simp add: shown_def html_escape_def html_escape_char_def trim_space_id is_space_def)
  ultimately show ?thesis
    using debug_page_lists [OF order, of "\<lambda>t. ''<b>''"]
    by (auto simp: Let_def page_server_def signature_def)
qed

end
