(* ===== verification/RpcDemo.thy ===== *)
theory RpcDemo
  imports RpcSystem RpcTypes RpcHttp XClient
begin

text \<open>
  The demo program of \<^verbatim>\<open>geerpc/main/main.go\<close>: the service \<open>Foo\<close> with its two methods, the start of a
  server that announces itself to the registry, the registry and the two servers that \<open>main\<close> starts,
  and the calls that the demo makes and prints.  What
  the framework promises for any service is specialised to this one: the server never crashes, and
  every call of \<open>Foo.Sum\<close> that completes returns the sum of its own arguments.
\<close>

section \<open>The service\<close>

text \<open>\<^verbatim>\<open>int\<close> has 64 bits.\<close>

record args =
  Num1 :: int64
  Num2 :: int64

datatype demo_value = IntV int64 | ArgsV args

definition int_type :: gotype where "int_type = Basic ''int''"
definition Foo_type :: gotype where "Foo_type = Named ''Foo'' ''main'' int_type"
definition Args_type :: gotype where "Args_type = Named ''Args'' ''main'' Struct"

text \<open>An \<open>Args\<close> that nothing was decoded into is zero.\<close>

fun read_args :: "demo_value gvalue \<Rightarrow> args" where
  "read_args (Data t (ArgsV a)) = a"
| "read_args _ = \<lparr>Num1 = 0, Num2 = 0\<rparr>"

definition nil_dereference :: string where
  "nil_dereference = ''invalid memory address or nil pointer dereference''"

text \<open>The world is the list of the durations that goroutines have slept, in nanoseconds.\<close>

definition Foo_Sum :: "(demo_value, int64 list) go_method" where
  "Foo_Sum argv reply w =
     (case reply of
        Ref v \<Rightarrow> Ret ((None, Ref (Data int_type (IntV (Num1 (read_args argv) + Num2 (read_args argv))))), w)
      | _ \<Rightarrow> Panic nil_dereference)"

definition Foo_Sleep :: "(demo_value, int64 list) go_method" where
  "Foo_Sleep argv reply w =
     (let w' = w @ [10 ^ 9 * Num1 (read_args argv)] in
      case reply of
        Ref v \<Rightarrow> Ret ((None, Ref (Data int_type (IntV (Num1 (read_args argv) + Num2 (read_args argv))))), w')
      | _ \<Rightarrow> Panic nil_dereference)"

text \<open>What reflection finds for a \<^verbatim>\<open>*Foo\<close>: its methods in the order of their names.\<close>

definition foo_method :: "string \<Rightarrow> (demo_value, int64 list) go_method \<Rightarrow> (demo_value, int64 list) reflect_method" where
  "foo_method name f =
     \<lparr>rm_Name = name, rm_In = [Ptr Foo_type, Args_type, Ptr int_type], rm_Out = [error_type], rm_Func = f\<rparr>"

definition foo_receiver :: "(demo_value, int64 list) receiver" where
  "foo_receiver =
     \<lparr>rcvr_name = ''Foo'', rcvr_methods = [foo_method ''Sleep'' Foo_Sleep, foo_method ''Sum'' Foo_Sum]\<rparr>"

section \<open>The servers\<close>

text \<open>
  \<open>startServer\<close> up to the accept loop: the server, the address that it announces, and the heartbeats
  that it sends, given the address of its listener and the outcomes of the sends.  The error of
  \<open>Register\<close> is dropped.
\<close>

definition startServer ::
    "string \<Rightarrow> goerror option list \<Rightarrow> ((demo_value, int64 list) server \<times> string \<times> goerror option list) outcome" where
  "startServer addr outcomes =
     bind_outcome (Register foo_receiver NewServer)
       (\<lambda>(err, srv). Ret (srv, ''tcp@'' @ addr, Heartbeat outcomes))"

section \<open>The calls\<close>

text \<open>\<open>foo\<close>: the line that is printed.  For any other \<open>typ\<close> no call is made and success is printed.\<close>

definition foo ::
    "(string \<Rightarrow> args \<Rightarrow> goerror + int64) \<Rightarrow> (string \<Rightarrow> args \<Rightarrow> goerror + int64) \<Rightarrow> string \<Rightarrow> string \<Rightarrow> args \<Rightarrow> string" where
  "foo xc_Call xc_Broadcast typ serviceMethod args =
     (let r = (if typ = ''call'' then xc_Call serviceMethod args
               else if typ = ''broadcast'' then xc_Broadcast serviceMethod args
               else Inr 0)
      in case r of
           Inl err \<Rightarrow> typ @ '' '' @ serviceMethod @ '' error: '' @ err
         | Inr reply \<Rightarrow>
             typ @ '' '' @ serviceMethod @ '' success: '' @ itoa (sint (Num1 args)) @ '' + ''
               @ itoa (sint (Num2 args)) @ '' = '' @ itoa (sint reply))"

definition demo_call_args :: "nat \<Rightarrow> args" where
  "demo_call_args i = \<lparr>Num1 = of_nat i, Num2 = of_nat (i * i)\<rparr>"

text \<open>The lines of the goroutines of \<open>call\<close> and of \<open>broadcast\<close>, each group in the order in which
  its goroutine prints them; the goroutines may interleave.\<close>

definition call_lines ::
    "(string \<Rightarrow> args \<Rightarrow> goerror + int64) \<Rightarrow> (string \<Rightarrow> args \<Rightarrow> goerror + int64) \<Rightarrow> string list list" where
  "call_lines xc_Call xc_Broadcast =
     map (\<lambda>i. [foo xc_Call xc_Broadcast ''call'' ''Foo.Sum'' (demo_call_args i)]) [0..<5]"

text \<open>The second broadcast has a context that ends after two seconds.\<close>

definition broadcast_lines ::
    "(string \<Rightarrow> args \<Rightarrow> goerror + int64) \<Rightarrow> (string \<Rightarrow> args \<Rightarrow> goerror + int64)
       \<Rightarrow> (string \<Rightarrow> args \<Rightarrow> goerror + int64) \<Rightarrow> string list list" where
  "broadcast_lines xc_Call xc_Broadcast xc_Broadcast_2s =
     map (\<lambda>i. [foo xc_Call xc_Broadcast ''broadcast'' ''Foo.Sum'' (demo_call_args i),
               foo xc_Call xc_Broadcast_2s ''broadcast'' ''Foo.Sleep'' (demo_call_args i)]) [0..<5]"

section \<open>The demo server\<close>

definition foo_server :: "(demo_value, int64 list) server" where
  "foo_server = \<lparr>serviceMap = [''Foo'' \<mapsto>
     \<lparr>svc_name = ''Foo'', svc_methods = registerMethods (rcvr_methods foo_receiver)\<rparr>]\<rparr>"

lemma startServer_foo: "startServer addr outcomes = Ret (foo_server, ''tcp@'' @ addr, Heartbeat outcomes)"
proof -
  have "Register foo_receiver NewServer = Ret (None, foo_server)"
    by (simp add: Register_Ret foo_receiver_def NewServer_def foo_server_def IsExported_def)
  then show ?thesis by (simp add: startServer_def)
qed

lemma foo_suitable: "suitable (foo_method name f)"
  by (simp add: suitable_def foo_method_def isExportedOrBuiltinType_def Args_type_def int_type_def IsExported_def)

lemma foo_methods:
  "registerMethods (rcvr_methods foo_receiver) n =
     (if n = ''Sum'' then Some (method_entry (foo_method ''Sum'' Foo_Sum))
      else if n = ''Sleep'' then Some (method_entry (foo_method ''Sleep'' Foo_Sleep)) else None)"
  by (simp add: registerMethods_def foo_receiver_def register_method_eq foo_suitable) (simp add: foo_method_def)

lemma Foo_no_panic: "Foo_Sum argv (Ref v) w \<noteq> Panic m" "Foo_Sleep argv (Ref v) w \<noteq> Panic m"
  by (simp_all add: Foo_Sum_def Foo_Sleep_def Let_def)

lemma foo_receiver_typed: "receiver_typed foo_receiver"
  using Foo_no_panic
  by (auto simp: receiver_typed_def foo_receiver_def method_typed_def method_entry_def foo_method_def passable_def)

lemma foo_server_typed: "server_typed foo_server"
proof -
  have "Register foo_receiver NewServer = Ret (None, foo_server)"
    by (simp add: Register_Ret foo_receiver_def NewServer_def foo_server_def IsExported_def)
  from Register_typed [OF NewServer_typed foo_receiver_typed this] show ?thesis .
qed

lemma foo_find:
  assumes "m = ''Sum'' \<and> f = Foo_Sum \<or> m = ''Sleep'' \<and> f = Foo_Sleep"
  shows "findService (''Foo.'' @ m) foo_server =
     Inr (\<lparr>svc_name = ''Foo'', svc_methods = registerMethods (rcvr_methods foo_receiver)\<rparr>, method_entry (foo_method m f))"
  using findService_dot [of m "''Foo''" foo_server] assms
  by (auto simp: foo_server_def foo_methods)

section \<open>The whole program\<close>

definition registryAddr :: string where "registryAddr = ''http://localhost:9999/_geerpc_/registry''"

definition startRegistry ::
    "(string \<rightharpoonup> (demo_value, int64 list) rpc_route) \<Rightarrow> (string \<rightharpoonup> (demo_value, int64 list) rpc_route) outcome" where
  "startRegistry mux = registry_HandleHTTP defaultPath (registry_new defaultTimeout) mux"

text \<open>The first heartbeat of a server, at the time \<open>t\<close> gives for it, comes before it accepts connections.\<close>

fun start_servers :: "(string \<Rightarrow> int) \<Rightarrow> string list \<Rightarrow> registry \<Rightarrow> ((demo_value, int64 list) server list \<times> registry) outcome" where
  "start_servers t [] r = Ret ([], r)"
| "start_servers t (addr # addrs) r =
     bind_outcome (startServer addr [None]) (\<lambda>(srv, announced, sends).
       bind_outcome (start_servers t addrs (snd (snd (Registry_ServeHTTP t ''POST'' announced r)))) (\<lambda>(srvs, r').
         Ret (srv # srvs, r')))"

text \<open>
  \<open>main\<close> up to the calls: the registry is mounted, two servers start and announce themselves, and the
  discovery of \<open>call\<close> and \<open>broadcast\<close> asks for all servers.  \<open>t\<close> and \<open>t'\<close> are the times of the heartbeats
  and of the registry's answer, for each server; \<open>now\<close> is the time of the client.
\<close>

definition rpc_main ::
    "(string \<Rightarrow> int) \<Rightarrow> string \<Rightarrow> string \<Rightarrow> (string \<Rightarrow> int) \<Rightarrow> int \<Rightarrow> (nat \<Rightarrow> nat) \<Rightarrow> (goerror + string list) outcome" where
  "rpc_main t addr1 addr2 t' now intn =
     bind_outcome (startRegistry (\<lambda>_. None)) (\<lambda>mux.
       case mux (drop 21 registryAddr) of
         Some (RegistryHandler r) \<Rightarrow>
           bind_outcome (start_servers t [addr1, addr2] r) (\<lambda>(srvs, r').
             let e = \<lparr>env_now = now, env_Intn = intn,
                      env_registry = Inr (fst (snd (Registry_ServeHTTP t' ''GET'' '''' r')))\<rparr>
             in Ret (fst (gee_GetAll e (NewGeeRegistryDiscovery registryAddr 0 intn))))
       | _ \<Rightarrow> Ret (Inl ''404 page not found''))"

lemma put_twice_alive:
  assumes "\<forall>x \<in> {a, b}. t' x < t x + defaultTimeout"
  shows "fst (aliveServers t' (putServer (t b) b (putServer (t a) a (registry_new defaultTimeout)))) = sort (remdups [b, a])"
  using assms by (auto simp: aliveServers_def putServer_def registry_new_def is_alive_def)

lemma rpc_main_finds_servers:
  assumes "list_all (\<lambda>a. plain_addr (''tcp@'' @ a)) [addr1, addr2]"
    and "\<forall>x \<in> {''tcp@'' @ addr1, ''tcp@'' @ addr2}. t' x < t x + defaultTimeout"
  shows "rpc_main t addr1 addr2 t' now intn = Ret (Inr (sort (remdups [''tcp@'' @ addr2, ''tcp@'' @ addr1])))"
proof -
  have path: "drop 21 registryAddr = defaultPath" by (simp add: registryAddr_def defaultPath_def)
  have "list_all plain_addr (sort (remdups [''tcp@'' @ addr2, ''tcp@'' @ addr1]))"
    using assms(1) by (auto simp: list_all_iff)
  from parse_join [OF this] put_twice_alive [OF assms(2)]
  show ?thesis
    by (simp add: rpc_main_def startRegistry_def registry_HandleHTTP_def http_Handle_def path startServer_foo
        Registry_ServeHTTP_def gee_GetAll_def gee_Refresh_def is_fresh_def NewGeeRegistryDiscovery_def multi_GetAll_def split_beta
        del: sort_key_simps)
qed

section \<open>What the demo calls return\<close>

text \<open>Gob decodes what it has encoded, and reports an error with a text otherwise.\<close>

definition gob_carries ::
    "(args \<Rightarrow> goerror + 'b) \<Rightarrow> (demo_value, 'b) rpc_env \<Rightarrow> ('b message \<Rightarrow> goerror + int64) \<Rightarrow> bool" where
  "gob_carries enc env dec \<longleftrightarrow>
     (\<forall>a b. enc a = Inr b \<longrightarrow> env_dec env Args_type (BodyMsg b) = Inr (Data Args_type (ArgsV a))) \<and>
     (\<forall>n b. env_enc env (ReplyValue (Ref (Data int_type (IntV n)))) = Inr b \<longrightarrow> dec (BodyMsg b) = Inr n) \<and>
     (\<forall>t m. env_dec env t m \<noteq> Inl '''')"

definition foo_function :: "string \<Rightarrow> (demo_value, int64 list) go_method option" where
  "foo_function m = (if m = ''Sum'' then Some Foo_Sum else if m = ''Sleep'' then Some Foo_Sleep else None)"

lemma findService_Inr:
  assumes "findService sm srv = Inr (svc, mt)"
  shows "\<exists>s n. serviceMap srv s = Some svc \<and> svc_methods svc n = Some mt"
proof (cases "split_service_method sm")
  case None
  with assms show ?thesis by (simp add: findService_def)
next
  case (Some p)
  with assms show ?thesis by (cases p) (auto simp: findService_def split: option.splits)
qed

lemma foo_found:
  assumes "found foo_server sm = Some mt"
  shows "\<exists>m f. foo_function m = Some f \<and> mt = method_entry (foo_method m f)"
proof -
  obtain svc mt' where f: "findService sm foo_server = Inr (svc, mt')" "mt = bare mt'"
    using assms by (auto simp: found_def split: sum.splits)
  from findService_Inr [OF f(1)] obtain n where "registerMethods (rcvr_methods foo_receiver) n = Some mt'"
    by (auto simp: foo_server_def split: if_splits)
  then have "n = ''Sum'' \<and> mt' = method_entry (foo_method ''Sum'' Foo_Sum)
      \<or> n = ''Sleep'' \<and> mt' = method_entry (foo_method ''Sleep'' Foo_Sleep)"
    unfolding foo_methods by (metis option.distinct(1) option.inject)
  moreover have "foo_function ''Sum'' = Some Foo_Sum" "foo_function ''Sleep'' = Some Foo_Sleep"
    by (simp_all add: foo_function_def)
  moreover have "bare (method_entry m) = method_entry m" for m :: "(demo_value, int64 list) reflect_method"
    by (simp add: bare_def method_entry_def)
  ultimately show ?thesis using f(2) by metis
qed

lemma foo_method_simps [simp]:
  "newArgv (method_entry (foo_method m f)) = Ret (Zero Args_type)"
  "newReplyv (method_entry (foo_method m f)) = Ret (Ref (Zero int_type))"
  "ArgType (method_entry (foo_method m f)) = Args_type"
  "ReplyType (method_entry (foo_method m f)) = Ptr int_type"
  "mt_method (method_entry (foo_method m f)) = foo_method m f"
  by (simp_all add: newArgv_def newReplyv_def method_entry_def foo_method_def Args_type_def int_type_def)

lemma foo_call:
  "foo_function m = Some f \<Longrightarrow> reflect_Call (method_entry (foo_method m f)) argv (Ref v) w = Ret ((err, reply), w') \<Longrightarrow>
     err = None \<and> reply = Ref (Data int_type (IntV (Num1 (read_args argv) + Num2 (read_args argv))))"
  by (auto simp: reflect_Call_def foo_function_def foo_method_def Foo_Sum_def Foo_Sleep_def Let_def
      method_entry_def split: if_splits)

lemma foo_errors_have_text:
  assumes "\<And>t m. env_dec env t m \<noteq> Inl ''''"
  shows "errors_have_text env foo_server"
proof -
  have "reflect_Call mt a v w \<noteq> Ret ((Some '''', v'), w')" if f: "found foo_server sm = Some mt" for sm mt a v w v' w'
  proof -
    obtain m g where "foo_function m = Some g" "mt = method_entry (foo_method m g)" using foo_found [OF f] by blast
    then show ?thesis
      by (cases v) (auto simp: reflect_Call_def foo_function_def foo_method_def Foo_Sum_def Foo_Sleep_def Let_def
          method_entry_def split: if_splits)
  qed
  with assms show ?thesis by (simp add: errors_have_text_def)
qed

lemma foo_answer:
  assumes "gob_carries enc env dec" and "reply_ok env foo_server enc dec x v"
  shows "v = Num1 (rc_Args x) + Num2 (rc_Args x)"
proof -
  from assms(2) obtain b b' reply where b: "enc (rc_Args x) = Inr b"
    "method_answer env foo_server (rc_ServiceMethod x) b None reply" "env_enc env (ReplyValue reply) = Inr b'"
    "dec (BodyMsg b') = Inr v" unfolding reply_ok_def by blast
  from b(2) obtain mt argv replyv y w w' where m: "found foo_server (rc_ServiceMethod x) = Some mt"
    "newArgv mt = Ret argv" "newReplyv mt = Ret replyv"
    "env_dec env (argv_target argv (ArgType mt)) (BodyMsg b) = Inr y"
    "reflect_Call mt (argv_store argv y) replyv w = Ret ((None, reply), w')"
    unfolding method_answer_def by blast
  from foo_found [OF m(1)] obtain n f where f: "foo_function n = Some f" "mt = method_entry (foo_method n f)" by blast
  have "y = Data Args_type (ArgsV (rc_Args x))"
    using assms(1) b(1) m(2,4) f(2) by (auto simp: gob_carries_def)
  with foo_call [OF f(1), of y "Zero int_type" w None reply w'] m(2,3,5) f(2)
  have "reply = Ref (Data int_type (IntV (Num1 (rc_Args x) + Num2 (rc_Args x))))" by auto
  with assms(1) b(3,4) show ?thesis by (auto simp: gob_carries_def)
qed

section \<open>Properties\<close>

text \<open>C23: The demo computes sums.  On a connection between a client and a server that \<open>startServer\<close> has set
  up, with any number of concurrent calls and whatever else happens to the connection: every call,
  of \<open>Foo.Sum\<close> or of \<open>Foo.Sleep\<close>, that completes without an error has the sum of its own two arguments,
  modulo two to the 64, as its reply, and what \<open>foo\<close> prints for it is this sum.  Supposed is that gob
  decodes what it has encoded and takes no body for a header.\<close>

theorem demo_computes_sums:
  assumes "startServer addr outcomes = Ret (srv, announced, sent)"
    and "gob_carries enc env dec" and "bodies_are_no_headers (env_g env)"
    and "(rpc_step g dec enc env)\<^sup>*\<^sup>* (rpc_init srv []) (c, s)" and "cl_registered c < 2 ^ 64 - 1"
    and "cl_calls c i = Some x" and "rc_dones x = 1" and "rc_Error x = None"
  shows "rc_Reply x = Some (Num1 (rc_Args x) + Num2 (rc_Args x))
       \<and> (\<forall>xc_Call xc_Broadcast. xc_Call (rc_ServiceMethod x) (rc_Args x) = Inr (the (rc_Reply x)) \<longrightarrow>
            foo xc_Call xc_Broadcast ''call'' (rc_ServiceMethod x) (rc_Args x)
              = ''call '' @ rc_ServiceMethod x @ '' success: '' @ itoa (sint (Num1 (rc_Args x))) @ '' + ''
                  @ itoa (sint (Num2 (rc_Args x))) @ '' = '' @ itoa (sint (Num1 (rc_Args x) + Num2 (rc_Args x))))"
proof -
  have srv: "srv = foo_server" using assms(1) by (simp add: startServer_foo)
  have "errors_have_text env foo_server" using assms(2) by (intro foo_errors_have_text) (simp add: gob_carries_def)
  from completed_reply [OF assms(3) this assms(4) [unfolded srv] assms(5-8)] foo_answer [OF assms(2)]
  have "rc_Reply x = Some (Num1 (rc_Args x) + Num2 (rc_Args x))" by blast
  then show ?thesis by (simp add: foo_def)
qed

text \<open>An encoding for the witness: a body is the value itself.\<close>

definition sum_env :: "(demo_value, demo_value) rpc_env" where
  "sum_env =
     \<lparr>env_g = (\<lambda>b. Inl ''gob: type mismatch''),
      env_dec = (\<lambda>t m. case m of BodyMsg v \<Rightarrow> Inr (Data t v) | HeaderMsg h \<Rightarrow> Inl ''gob: type mismatch''),
      env_enc = (\<lambda>r. case r of ReplyValue (Ref (Data t v)) \<Rightarrow> Inr v | _ \<Rightarrow> Inr (IntV 0)),
      env_timeout = 0, env_dur = (\<lambda>d. '''')\<rparr>"

definition sum_dec :: "demo_value message \<Rightarrow> goerror + int64" where
  "sum_dec m = (case m of BodyMsg (IntV n) \<Rightarrow> Inr n | _ \<Rightarrow> Inl ''gob: type mismatch'')"

theorem demo_computes_sums_witness:
  "\<exists>(c :: (demo_value, args, int64) client) s x.
     (rpc_step (\<lambda>b. Inl '''') sum_dec (\<lambda>a. Inr (ArgsV a)) sum_env)\<^sup>*\<^sup>* (rpc_init foo_server []) (c, s)
     \<and> cl_calls c 0 = Some x \<and> rc_dones x = 1 \<and> rc_Error x = None
     \<and> rc_Args x = \<lparr>Num1 = 3, Num2 = 9\<rparr> \<and> rc_Reply x = Some 12"
proof -
  let ?mt = "method_entry (foo_method ''Sum'' Foo_Sum)"
  let ?a = "\<lparr>Num1 = 3, Num2 = 9\<rparr> :: args"
  let ?enc = "\<lambda>a. Inr (ArgsV a) :: goerror + demo_value"
  let ?svc = "\<lparr>svc_name = ''Foo'', svc_methods = registerMethods (rcvr_methods foo_receiver)\<rparr>"
  have find: "findService ''Foo.Sum'' foo_server = Inr (?svc, ?mt)" using foo_find [of "''Sum''" Foo_Sum] by simp
  have call: "service_call (rm_Name (mt_method ?mt)) ?mt (argv_store (Zero Args_type) (Data Args_type (ArgsV ?a)))
      (Ref (Zero int_type)) ?svc [] = Ret ((None, Ref (Data int_type (IntV 12))), count_call (rm_Name (mt_method ?mt)) ?svc, [])"
    by (simp add: service_call_def reflect_Call_def assignable_def foo_method_def [of _ Foo_Sum] Foo_Sum_def method_entry_def)
  have hyps: "serviceMap foo_server (svc_name ?svc) = Some ?svc" "kind (ReplyType ?mt) = KPtr"
    "newArgv ?mt = Ret (Zero Args_type)" "newReplyv ?mt = Ret (Ref (Zero int_type))"
    "?enc ?a = Inr (ArgsV ?a)"
    "env_dec sum_env (argv_target (Zero Args_type) (ArgType ?mt)) (BodyMsg (ArgsV ?a)) = Inr (Data Args_type (ArgsV ?a))"
    "env_enc sum_env (response_body None (Ref (Data int_type (IntV 12)))) = Inr (IntV 12)"
    "None = None \<longrightarrow> sum_dec (BodyMsg (IntV 12)) = Inr 12" "None \<noteq> Some ''''" "env_timeout sum_env = 0"
    by (simp_all add: foo_server_def sum_env_def response_body_def sum_dec_def)
  have carries: "gob_carries ?enc sum_env sum_dec" "bodies_are_no_headers (env_g sum_env)"
    by (auto simp: gob_carries_def bodies_are_no_headers_def sum_env_def sum_dec_def split: message.splits)
  from rpc_completes [of "''Foo.Sum''" foo_server ?svc ?mt "Zero Args_type" "Ref (Zero int_type)" ?enc ?a "ArgsV ?a" sum_env
      "Data Args_type (ArgsV ?a)" "[]" None "Ref (Data int_type (IntV 12))" _ _ "IntV 12" sum_dec 12 "\<lambda>b. Inl ''''",
      OF find hyps(1-6) call hyps(7-10)]
  obtain c and s :: "(demo_value, demo_value, int64 list) conn_state" and a
    where run: "(rpc_step (\<lambda>b. Inl '''') sum_dec ?enc sum_env)\<^sup>*\<^sup>* (rpc_init foo_server []) (c, s)"
      and c: "cl_registered c = 1" "cl_calls c 0 = Some a" "call_result None 12 a" "rc_Args a = ?a" by blast
  have "rc_Reply a = Some (Num1 (rc_Args a) + Num2 (rc_Args a))"
    using demo_computes_sums [OF startServer_foo carries run _ c(2)] c(1,3) by (simp add: call_result_def)
  with run c(2-4) show ?thesis
    by (intro exI [of _ c] exI [of _ s] exI [of _ a]) (simp add: call_result_def)
qed

end
