(* ===== verification/Clause.thy ===== *)
theory Clause
  imports GoStrings "HOL-Library.List_Lexorder" "HOL-Library.Char_ord"
begin

text \<open>
  The SQL fragments of \<^verbatim>\<open>geeorm/clause\<close>: the generator of each kind of clause (\<^verbatim>\<open>generator.go\<close>) and
  the clauses of a statement, set one by one and joined in a given order (\<^verbatim>\<open>clause.go\<close>).

  The lemmas show what each generator returns, when it panics, and that a statement built from the
  clauses has as many placeholders as it has values.
\<close>

section \<open>Values of type interface\<close>

text \<open>
  The dynamic values that reach the generators.  A value of any other type, such as a float or a
  time, is given by the name of its type and by what \<open>%s\<close> prints for it.  A map is the list of its
  entries, with distinct keys.
\<close>

datatype govalue =
  VNil
| VBool bool
| VInt int
| VStr string
| VStrs "string list"
| VRow "govalue list"
| VMap "(string \<times> govalue) list"
| VOther string string

text \<open>\<open>fmt.Sprintf("%s", v)\<close>; a map is printed in the order of its keys.\<close>

fun fmt_elem :: "govalue \<Rightarrow> string" where
  "fmt_elem VNil = ''<nil>''"
| "fmt_elem (VBool b) = (if b then ''%!s(bool=true)'' else ''%!s(bool=false)'')"
| "fmt_elem (VInt n) = ''%!s(int='' @ itoa n @ '')''"
| "fmt_elem (VStr s) = s"
| "fmt_elem (VStrs ss) = ''['' @ join '' '' ss @ '']''"
| "fmt_elem (VRow vs) = ''['' @ join '' '' (map fmt_elem vs) @ '']''"
| "fmt_elem (VMap m) =
     ''map['' @ join '' '' (map (\<lambda>(k, s). k @ '':'' @ s) (sort_key fst (map (\<lambda>(k, v). (k, fmt_elem v)) m))) @ '']''"
| "fmt_elem (VOther t s) = s"

definition fmt_s :: "govalue \<Rightarrow> string" where
  "fmt_s v = (if v = VNil then ''%!s(<nil>)'' else fmt_elem v)"

lemma fmt_s_VStr [simp]: "fmt_s (VStr s) = s"
  by (simp add: fmt_s_def)

text \<open>Indexing and the type assertions without a second result, which panic.\<close>

definition arg :: "govalue list \<Rightarrow> nat \<Rightarrow> govalue outcome" where
  "arg vs i = (if i < length vs then Ret (vs ! i) else Panic ''index out of range'')"

fun as_strings :: "govalue \<Rightarrow> string list outcome" where
  "as_strings (VStrs ss) = Ret ss"
| "as_strings v = Panic ''interface conversion''"

fun as_row :: "govalue \<Rightarrow> govalue list outcome" where
  "as_row (VRow vs) = Ret vs"
| "as_row v = Panic ''interface conversion''"

fun as_map :: "govalue \<Rightarrow> (string \<times> govalue) list outcome" where
  "as_map (VMap m) = Ret m"
| "as_map v = Panic ''interface conversion''"

fun as_string :: "govalue \<Rightarrow> string outcome" where
  "as_string (VStr s) = Ret s"
| "as_string v = Panic ''interface conversion''"

section \<open>Generators\<close>

datatype clause_type = INSERT | VALUES | SELECT | LIMIT | WHERE | ORDERBY | UPDATE | DELETE | COUNT

type_synonym fragment = "(string \<times> govalue list) outcome"

definition genBindVars :: "nat \<Rightarrow> string" where
  "genBindVars num = join '', '' (replicate num ''?'')"

definition gen_insert :: "govalue list \<Rightarrow> fragment" where
  "gen_insert vs =
     bind_outcome (arg vs 0) (\<lambda>tableName.
     bind_outcome (arg vs 1) (\<lambda>v.
     bind_outcome (as_strings v) (\<lambda>ss.
       Ret (''INSERT INTO '' @ fmt_s tableName @ '' ('' @ join '', '' ss @ '')'', []))))"

text \<open>The loop of \<open>_values\<close>: the placeholders of the first row serve all rows.\<close>

fun values_loop :: "string \<Rightarrow> govalue list \<Rightarrow> fragment" where
  "values_loop bindStr [] = Ret ([], [])"
| "values_loop bindStr (value # rest) =
     bind_outcome (as_row value) (\<lambda>v.
       let b = (if bindStr = [] then genBindVars (length v) else bindStr) in
       bind_outcome (values_loop b rest) (\<lambda>(sql, vars).
         Ret (''('' @ b @ '')'' @ (if rest \<noteq> [] then '', '' else []) @ sql, v @ vars)))"

definition gen_values :: "govalue list \<Rightarrow> fragment" where
  "gen_values vs = bind_outcome (values_loop [] vs) (\<lambda>(sql, vars). Ret (''VALUES '' @ sql, vars))"

definition gen_select :: "govalue list \<Rightarrow> fragment" where
  "gen_select vs =
     bind_outcome (arg vs 0) (\<lambda>tableName.
     bind_outcome (arg vs 1) (\<lambda>v.
     bind_outcome (as_strings v) (\<lambda>ss.
       Ret (''SELECT '' @ join '','' ss @ '' FROM '' @ fmt_s tableName, []))))"

definition gen_limit :: "govalue list \<Rightarrow> fragment" where
  "gen_limit vs = Ret (''LIMIT ?'', vs)"

definition gen_where :: "govalue list \<Rightarrow> fragment" where
  "gen_where vs = bind_outcome (arg vs 0) (\<lambda>desc. Ret (''WHERE '' @ fmt_s desc, tl vs))"

definition gen_orderBy :: "govalue list \<Rightarrow> fragment" where
  "gen_orderBy vs = bind_outcome (arg vs 0) (\<lambda>desc. Ret (''ORDER BY '' @ fmt_s desc, []))"

text \<open>The order in which Go iterates over a map is not fixed: \<open>iter\<close> is the order of this run.\<close>

type_synonym map_iter = "(string \<times> govalue) list \<Rightarrow> (string \<times> govalue) list"

definition gen_update :: "map_iter \<Rightarrow> govalue list \<Rightarrow> fragment" where
  "gen_update iter vs =
     bind_outcome (arg vs 0) (\<lambda>tableName.
     bind_outcome (arg vs 1) (\<lambda>v.
     bind_outcome (as_map v) (\<lambda>m.
       Ret (''UPDATE '' @ fmt_s tableName @ '' SET '' @ join '', '' (map (\<lambda>(k, x). k @ '' = ?'') (iter m)),
            map snd (iter m)))))"

definition gen_delete :: "govalue list \<Rightarrow> fragment" where
  "gen_delete vs = bind_outcome (arg vs 0) (\<lambda>tableName. Ret (''DELETE FROM '' @ fmt_s tableName, []))"

definition gen_count :: "govalue list \<Rightarrow> fragment" where
  "gen_count vs = bind_outcome (arg vs 0) (\<lambda>tableName. gen_select [tableName, VStrs [''count(*)'']])"

fun generators :: "map_iter \<Rightarrow> clause_type \<Rightarrow> govalue list \<Rightarrow> fragment" where
  "generators iter INSERT = gen_insert"
| "generators iter VALUES = gen_values"
| "generators iter SELECT = gen_select"
| "generators iter LIMIT = gen_limit"
| "generators iter WHERE = gen_where"
| "generators iter ORDERBY = gen_orderBy"
| "generators iter UPDATE = gen_update iter"
| "generators iter DELETE = gen_delete"
| "generators iter COUNT = gen_count"

section \<open>Clauses\<close>

record clause =
  cs_sql :: "clause_type \<rightharpoonup> string"
  cs_vars :: "clause_type \<rightharpoonup> govalue list"

definition no_clause :: clause where
  "no_clause = \<lparr>cs_sql = (\<lambda>_. None), cs_vars = (\<lambda>_. None)\<rparr>"

definition clause_Set :: "map_iter \<Rightarrow> clause_type \<Rightarrow> govalue list \<Rightarrow> clause \<Rightarrow> clause outcome" where
  "clause_Set iter name vs c =
     bind_outcome (generators iter name vs) (\<lambda>(sql, vars).
       Ret (c\<lparr>cs_sql := (cs_sql c)(name \<mapsto> sql), cs_vars := (cs_vars c)(name \<mapsto> vars)\<rparr>))"

fun build_loop :: "clause \<Rightarrow> clause_type list \<Rightarrow> string list \<times> govalue list" where
  "build_loop c [] = ([], [])"
| "build_loop c (ord # orders) =
     (let (sqls, vars) = build_loop c orders in
      case cs_sql c ord of
        Some sql \<Rightarrow> (sql # sqls, (case cs_vars c ord of Some vs \<Rightarrow> vs | None \<Rightarrow> []) @ vars)
      | None \<Rightarrow> (sqls, vars))"

definition clause_Build :: "clause_type list \<Rightarrow> clause \<Rightarrow> string \<times> govalue list" where
  "clause_Build orders c = (let (sqls, vars) = build_loop c orders in (join '' '' sqls, vars))"

section \<open>Placeholders\<close>

text \<open>A question mark is a placeholder of the driver.  Text that contains one for another reason, in
  a string literal or a name, is not counted apart: the hypotheses on names exclude it.\<close>

definition placeholders :: "string \<Rightarrow> nat" where
  "placeholders s = count_list s CHR ''?''"

lemma placeholders_append [simp]: "placeholders (s @ t) = placeholders s + placeholders t"
  by (simp add: placeholders_def)

lemma placeholders_Nil [simp]: "placeholders [] = 0"
  by (simp add: placeholders_def)

lemma placeholders_Cons [simp]:
  "placeholders (c # s) = (if c = CHR ''?'' then Suc (placeholders s) else placeholders s)"
  by (simp add: placeholders_def)

lemma placeholders_join:
  "placeholders sep = 0 \<Longrightarrow> placeholders (join sep ss) = sum_list (map placeholders ss)"
  by (induction sep ss rule: join.induct) simp_all

lemma placeholders_genBindVars [simp]: "placeholders (genBindVars n) = n"
  by (simp add: genBindVars_def placeholders_join sum_list_replicate)

lemma genBindVars_Nil [simp]: "genBindVars n = [] \<longleftrightarrow> n = 0"
  by (cases n; cases "n - 1") (simp_all add: genBindVars_def)

text \<open>Rows of one length give a fragment with one placeholder for each value.\<close>

lemma values_loop_rows:
  assumes "\<forall>r \<in> set rows. length r = n" and "b = [] \<or> b = genBindVars n"
  shows "values_loop b (map VRow rows) =
           Ret (join '', '' (map (\<lambda>_. ''('' @ genBindVars n @ '')'') rows), concat rows)"
  using assms
proof (induction rows arbitrary: b)
  case (Cons r rows)
  have b: "(if b = [] then genBindVars (length r) else b) = genBindVars n" using Cons.prems by auto
  have step: "values_loop b (map VRow (r # rows)) =
      bind_outcome (values_loop (genBindVars n) (map VRow rows)) (\<lambda>(sql, vars).
        Ret (''('' @ genBindVars n @ '')'' @ (if rows \<noteq> [] then '', '' else []) @ sql, r @ vars))"
    using b by (simp add: Let_def)
  have IH: "values_loop (genBindVars n) (map VRow rows) =
      Ret (join '', '' (map (\<lambda>_. ''('' @ genBindVars n @ '')'') rows), concat rows)"
    using Cons by simp
  show ?case unfolding step IH by (cases rows) simp_all
qed simp

lemma gen_values_rows:
  "\<forall>r \<in> set rows. length r = n \<Longrightarrow>
     gen_values (map VRow rows) =
       Ret (''VALUES '' @ join '', '' (map (\<lambda>_. ''('' @ genBindVars n @ '')'') rows), concat rows)"
  using values_loop_rows [of rows n "[]"] by (simp add: gen_values_def)

text \<open>A clause whose fragments all have one placeholder for each value.\<close>

definition bound :: "string \<times> govalue list \<Rightarrow> bool" where
  "bound = (\<lambda>(sql, vars). placeholders sql = length vars)"

definition clause_bound :: "clause \<Rightarrow> bool" where
  "clause_bound c \<longleftrightarrow>
     (\<forall>t sql. cs_sql c t = Some sql \<longrightarrow> (\<exists>vs. cs_vars c t = Some vs \<and> bound (sql, vs)))"

lemma bound_iff [simp]: "bound (sql, vars) \<longleftrightarrow> placeholders sql = length vars"
  by (simp add: bound_def)

lemma no_clause_bound [simp]: "clause_bound no_clause"
  by (simp add: clause_bound_def no_clause_def)

lemma clause_Set_Ret:
  "clause_Set iter t vs c = Ret c' \<longleftrightarrow>
     (\<exists>sql vars. generators iter t vs = Ret (sql, vars)
        \<and> c' = c\<lparr>cs_sql := (cs_sql c)(t \<mapsto> sql), cs_vars := (cs_vars c)(t \<mapsto> vars)\<rparr>)"
  by (auto simp: clause_Set_def bind_outcome_Ret_iff split: prod.splits)

lemma clause_Set_bound:
  assumes "clause_bound c" and "clause_Set iter t vs c = Ret c'"
    and "\<And>p. generators iter t vs = Ret p \<Longrightarrow> bound p"
  shows "clause_bound c'"
  using assms by (auto simp: clause_Set_Ret clause_bound_def)

lemma build_loop_bound:
  "clause_bound c \<Longrightarrow>
     sum_list (map placeholders (fst (build_loop c orders))) = length (snd (build_loop c orders))"
proof (induction orders)
  case (Cons t orders)
  then have IH: "sum_list (map placeholders (fst (build_loop c orders))) = length (snd (build_loop c orders))"
    by simp
  show ?case
  proof (cases "cs_sql c t")
    case None
    with IH show ?thesis by (simp add: Let_def split_beta)
  next
    case (Some sql)
    with Cons.prems obtain vs where "cs_vars c t = Some vs" "placeholders sql = length vs"
      by (auto simp: clause_bound_def)
    with IH Some show ?thesis by (simp add: Let_def split_beta)
  qed
qed simp

lemma clause_Build_bound: "clause_bound c \<Longrightarrow> bound (clause_Build orders c)"
  using build_loop_bound [of c orders]
  by (simp add: clause_Build_def Let_def placeholders_join split_beta bound_def)

lemma generators_bound:
  "generators iter INSERT [VStr name, VStrs cols] = Ret p \<Longrightarrow>
     placeholders name = 0 \<Longrightarrow> \<forall>f \<in> set cols. placeholders f = 0 \<Longrightarrow> bound p"
  "generators iter SELECT [VStr name, VStrs cols] = Ret p \<Longrightarrow>
     placeholders name = 0 \<Longrightarrow> \<forall>f \<in> set cols. placeholders f = 0 \<Longrightarrow> bound p"
  "generators iter COUNT [VStr name] = Ret p \<Longrightarrow> placeholders name = 0 \<Longrightarrow> bound p"
  "generators iter DELETE [VStr name] = Ret p \<Longrightarrow> placeholders name = 0 \<Longrightarrow> bound p"
  "generators iter LIMIT [v] = Ret p \<Longrightarrow> bound p"
  "generators iter WHERE (VStr desc # args) = Ret p \<Longrightarrow> placeholders desc = length args \<Longrightarrow> bound p"
  "generators iter ORDERBY [VStr desc] = Ret p \<Longrightarrow> placeholders desc = 0 \<Longrightarrow> bound p"
  by (auto simp: gen_insert_def gen_select_def gen_count_def gen_delete_def gen_limit_def gen_where_def
      gen_orderBy_def arg_def placeholders_join)

lemma gen_values_bound:
  assumes "\<forall>r \<in> set rows. length r = n" and "gen_values (map VRow rows) = Ret p"
  shows "bound p"
proof -
  have "length (concat rows) = n * length rows" using assms(1) by (induction rows) auto
  moreover from assms gen_values_rows [OF assms(1)]
  have "p = (''VALUES '' @ join '', '' (map (\<lambda>_. ''('' @ genBindVars n @ '')'') rows), concat rows)" by simp
  ultimately show ?thesis by (simp add: placeholders_join sum_list_triv o_def)
qed

lemma gen_update_bound:
  assumes "gen_update iter [VStr name, VMap m] = Ret p"
    and "placeholders name = 0" and keys: "\<forall>(k, v) \<in> set (iter m). placeholders k = 0"
  shows "bound p"
proof -
  have "sum_list (map (placeholders \<circ> (\<lambda>(k, x :: govalue). k @ '' = ?'')) m') = length m'"
    if "\<forall>(k, v) \<in> set m'. placeholders k = 0" for m'
    using that by (induction m') auto
  from this [OF keys] assms(1,2) show ?thesis
    by (auto simp: gen_update_def arg_def placeholders_join)
qed

end
