(* ===== verification/Dialect.thy ===== *)
theory Dialect
  imports Clause
begin

text \<open>
  The database dialects of \<^verbatim>\<open>geeorm/dialect\<close>: the interface \<open>Dialect\<close>, the table of registered
  dialects, and the implementation for SQLite.  What the session relies on of a dialect is the
  locale \<open>sql_dialect\<close>, which the implementation interprets.
\<close>

section \<open>Types of struct fields\<close>

datatype rkind =
  RInvalid | RBool | RInt | RInt8 | RInt16 | RInt32 | RInt64
| RUint | RUint8 | RUint16 | RUint32 | RUint64 | RUintptr | RFloat32 | RFloat64
| RComplex64 | RComplex128 | RArray | RChan | RFunc | RInterface | RMap | RPointer | RSlice
| RString | RStruct | RUnsafePointer

text \<open>\<open>Kind.String\<close>\<close>

fun kind_String :: "rkind \<Rightarrow> string" where
  "kind_String RInvalid = ''invalid''"
| "kind_String RBool = ''bool''"
| "kind_String RInt = ''int''"
| "kind_String RInt8 = ''int8''"
| "kind_String RInt16 = ''int16''"
| "kind_String RInt32 = ''int32''"
| "kind_String RInt64 = ''int64''"
| "kind_String RUint = ''uint''"
| "kind_String RUint8 = ''uint8''"
| "kind_String RUint16 = ''uint16''"
| "kind_String RUint32 = ''uint32''"
| "kind_String RUint64 = ''uint64''"
| "kind_String RUintptr = ''uintptr''"
| "kind_String RFloat32 = ''float32''"
| "kind_String RFloat64 = ''float64''"
| "kind_String RComplex64 = ''complex64''"
| "kind_String RComplex128 = ''complex128''"
| "kind_String RArray = ''array''"
| "kind_String RChan = ''chan''"
| "kind_String RFunc = ''func''"
| "kind_String RInterface = ''interface''"
| "kind_String RMap = ''map''"
| "kind_String RPointer = ''ptr''"
| "kind_String RSlice = ''slice''"
| "kind_String RString = ''string''"
| "kind_String RStruct = ''struct''"
| "kind_String RUnsafePointer = ''unsafe.Pointer''"

text \<open>A type as far as the dialects look at it: its kind, its name, and whether it is \<open>time.Time\<close>.\<close>

record field_type =
  ft_Kind :: rkind
  ft_Name :: string
  ft_is_time :: bool

section \<open>Dialects\<close>

record dialect =
  DataTypeOf :: "field_type \<Rightarrow> string outcome"
  TableExistSQL :: "string \<Rightarrow> string \<times> govalue list"

type_synonym dialects = "string \<rightharpoonup> dialect"

definition RegisterDialect :: "string \<Rightarrow> dialect \<Rightarrow> dialects \<Rightarrow> dialects" where
  "RegisterDialect name d ds = ds(name \<mapsto> d)"

definition GetDialect :: "string \<Rightarrow> dialects \<Rightarrow> dialect option" where
  "GetDialect name ds = ds name"

definition sqlite3_DataTypeOf :: "field_type \<Rightarrow> string outcome" where
  "sqlite3_DataTypeOf typ =
     (let bad = Panic (''invalid sql type '' @ ft_Name typ @ '' ('' @ kind_String (ft_Kind typ) @ '')'') in
      if ft_Kind typ = RBool then Ret ''bool''
      else if ft_Kind typ \<in> {RInt, RInt8, RInt16, RInt32, RUint, RUint8, RUint16, RUint32, RUintptr}
        then Ret ''integer''
      else if ft_Kind typ \<in> {RInt64, RUint64} then Ret ''bigint''
      else if ft_Kind typ \<in> {RFloat32, RFloat64} then Ret ''real''
      else if ft_Kind typ = RString then Ret ''text''
      else if ft_Kind typ \<in> {RSlice, RArray} then Ret ''blob''
      else if ft_Kind typ = RStruct then (if ft_is_time typ then Ret ''datetime'' else bad)
      else bad)"

definition sqlite3_TableExistSQL :: "string \<Rightarrow> string \<times> govalue list" where
  "sqlite3_TableExistSQL tableName =
     (''SELECT name FROM sqlite_master WHERE type='' @ [CHR 0x27] @ ''table'' @ [CHR 0x27] @ '' and name = ?'',
      [VStr tableName])"

definition sqlite3 :: dialect where
  "sqlite3 = \<lparr>DataTypeOf = sqlite3_DataTypeOf, TableExistSQL = sqlite3_TableExistSQL\<rparr>"

text \<open>The registrations of the package's \<open>init\<close>.\<close>

definition dialectsMap :: dialects where
  "dialectsMap = RegisterDialect ''sqlite3'' sqlite3 (\<lambda>_. None)"

lemma GetDialect_init: "GetDialect name dialectsMap = (if name = ''sqlite3'' then Some sqlite3 else None)"
  by (simp add: GetDialect_def dialectsMap_def RegisterDialect_def)

section \<open>What a session needs of a dialect\<close>

text \<open>A column type is a word of SQL without placeholders; the question for a table has one
  placeholder for each value, and the name of the table is among the values.\<close>

locale sql_dialect =
  fixes data_type_of :: "field_type \<Rightarrow> string outcome"
    and table_exist_sql :: "string \<Rightarrow> string \<times> govalue list"
  assumes data_type: "data_type_of typ = Ret t \<Longrightarrow> t \<noteq> [] \<and> set t \<subseteq> set ''abcdefghijklmnopqrstuvwxyz''"
    and exist_bound: "bound (table_exist_sql name)"
    and exist_name: "VStr name \<in> set (snd (table_exist_sql name))"
begin

lemma data_type_placeholders: "data_type_of typ = Ret t \<Longrightarrow> placeholders t = 0"
  using data_type by (fastforce simp: placeholders_def count_list_0_iff)

end

lemma sqlite3_types:
  "sqlite3_DataTypeOf typ = Ret t \<Longrightarrow>
     t \<in> {''bool'', ''integer'', ''bigint'', ''real'', ''text'', ''blob'', ''datetime''}"
  by (auto simp: sqlite3_DataTypeOf_def Let_def split: if_splits)

interpretation sqlite: sql_dialect sqlite3_DataTypeOf sqlite3_TableExistSQL
proof
  show "t \<noteq> [] \<and> set t \<subseteq> set ''abcdefghijklmnopqrstuvwxyz''"
    if "sqlite3_DataTypeOf ft = Ret t" for ft t
    using sqlite3_types [OF that] by auto
qed (simp_all add: sqlite3_TableExistSQL_def)

end
