(* ===== verification/Schema.thy ===== *)
theory Schema
  imports Dialect
begin

text \<open>
  The mapping from Go structs to tables, \<^verbatim>\<open>geeorm/schema/schema.go\<close>: \<open>Parse\<close> reads the fields of a
  struct type by reflection, \<open>RecordValues\<close> the values of one object.

  Objects live in a store and are shared by pointer; a value of type interface is a pointer or a
  struct itself.  The lemmas describe the schema that \<open>Parse\<close> returns and relate the values of a
  record to its field names.
\<close>

section \<open>Objects\<close>

text \<open>\<open>sf_tag\<close> is what the lookup of the key \<^verbatim>\<open>geeorm\<close> in the tag of the field finds.\<close>

record struct_field =
  sf_Name :: string
  sf_Anonymous :: bool
  sf_PkgPath :: string
  sf_Type :: field_type
  sf_tag :: "string option"

record struct_type =
  st_Name :: string
  st_fields :: "struct_field list"

record obj =
  o_type :: struct_type
  o_values :: "govalue list"

datatype dest = PtrTo nat | StructVal obj

type_synonym obj_heap = "nat \<rightharpoonup> obj"

text \<open>\<open>reflect.Indirect(reflect.ValueOf(dest))\<close>\<close>

fun Indirect :: "obj_heap \<Rightarrow> dest \<Rightarrow> obj option" where
  "Indirect heap (PtrTo a) = heap a"
| "Indirect heap (StructVal ob) = Some ob"

text \<open>\<open>reflect.TypeOf(dest)\<close>: a struct type or a pointer to one.\<close>

fun is_ptr :: "dest \<Rightarrow> bool" where
  "is_ptr (PtrTo a) = True"
| "is_ptr (StructVal ob) = False"

definition TypeOf :: "obj_heap \<Rightarrow> dest \<Rightarrow> bool \<times> struct_type option" where
  "TypeOf heap v = (is_ptr v, map_option o_type (Indirect heap v))"

text \<open>\<open>FieldByName(name).Interface()\<close> panics when there is no such field.  A field of an embedded
  struct is never reached by the names of a schema that fits the object.\<close>

definition FieldByName :: "obj \<Rightarrow> string \<Rightarrow> govalue outcome" where
  "FieldByName ob name =
     (case map_of (zip (map sf_Name (st_fields (o_type ob))) (o_values ob)) name of
        Some v \<Rightarrow> Ret v
      | None \<Rightarrow> Panic ''reflect: call of reflect.Value.Interface on zero Value'')"

section \<open>Schemas\<close>

record field =
  f_Name :: string
  f_Type :: string
  f_Tag :: string

record schema =
  sch_Model :: dest
  sch_Name :: string
  sch_Fields :: "field list"
  sch_FieldNames :: "string list"
  sch_fieldMap :: "string \<rightharpoonup> field"

definition column_field :: "struct_field \<Rightarrow> bool" where
  "column_field p \<longleftrightarrow> \<not> sf_Anonymous p \<and> sf_PkgPath p = []"

definition parse_field :: "dialect \<Rightarrow> struct_field \<Rightarrow> field outcome" where
  "parse_field d p =
     bind_outcome (DataTypeOf d (sf_Type p)) (\<lambda>t.
       let f = \<lparr>f_Name = sf_Name p, f_Type = t, f_Tag = []\<rparr> in
       Ret (case sf_tag p of Some v \<Rightarrow> f\<lparr>f_Tag := v\<rparr> | None \<Rightarrow> f))"

fun parse_loop :: "dialect \<Rightarrow> struct_field list \<Rightarrow> schema \<Rightarrow> schema outcome" where
  "parse_loop d [] s = Ret s"
| "parse_loop d (p # ps) s =
     (if column_field p then
        bind_outcome (parse_field d p) (\<lambda>f.
          parse_loop d ps (s\<lparr>sch_Fields := sch_Fields s @ [f],
            sch_FieldNames := sch_FieldNames s @ [sf_Name p],
            sch_fieldMap := (sch_fieldMap s)(sf_Name p \<mapsto> f)\<rparr>))
      else parse_loop d ps s)"

definition Parse :: "obj_heap \<Rightarrow> dest \<Rightarrow> dialect \<Rightarrow> schema outcome" where
  "Parse heap v d =
     (case Indirect heap v of
        None \<Rightarrow> Panic ''reflect: call of reflect.Value.Type on zero Value''
      | Some ob \<Rightarrow>
          parse_loop d (st_fields (o_type ob))
            \<lparr>sch_Model = v, sch_Name = st_Name (o_type ob), sch_Fields = [], sch_FieldNames = [],
             sch_fieldMap = (\<lambda>_. None)\<rparr>)"

definition GetField :: "schema \<Rightarrow> string \<Rightarrow> field option" where
  "GetField sch name = sch_fieldMap sch name"

text \<open>The loop of \<open>RecordValues\<close> over the fields.\<close>

fun field_values :: "obj \<Rightarrow> field list \<Rightarrow> govalue list outcome" where
  "field_values ob [] = Ret []"
| "field_values ob (f # fs) =
     bind_outcome (FieldByName ob (f_Name f)) (\<lambda>v.
     bind_outcome (field_values ob fs) (\<lambda>vs. Ret (v # vs)))"

definition RecordValues :: "obj_heap \<Rightarrow> schema \<Rightarrow> dest \<Rightarrow> govalue list outcome" where
  "RecordValues heap sch v =
     (case Indirect heap v of
        None \<Rightarrow> Panic ''reflect: call of reflect.Value.FieldByName on zero Value''
      | Some ob \<Rightarrow> field_values ob (sch_Fields sch))"

section \<open>What Parse returns\<close>

text \<open>The columns of a struct type, in the order of its fields.\<close>

definition columns :: "struct_type \<Rightarrow> struct_field list" where
  "columns st = filter column_field (st_fields st)"

definition field_of :: "dialect \<Rightarrow> struct_field \<Rightarrow> field \<Rightarrow> bool" where
  "field_of d p f \<longleftrightarrow> f_Name f = sf_Name p \<and> DataTypeOf d (sf_Type p) = Ret (f_Type f)
     \<and> f_Tag f = (case sf_tag p of Some v \<Rightarrow> v | None \<Rightarrow> [])"

lemma parse_field_Ret: "parse_field d p = Ret f \<longleftrightarrow> field_of d p f"
  by (cases f) (auto simp: parse_field_def field_of_def bind_outcome_Ret_iff Let_def split: option.splits)

definition schema_ok :: "schema \<Rightarrow> bool" where
  "schema_ok sch \<longleftrightarrow> sch_FieldNames sch = map f_Name (sch_Fields sch)
     \<and> (\<forall>name. sch_fieldMap sch name = map_of (rev (map (\<lambda>f. (f_Name f, f)) (sch_Fields sch))) name)"

lemma parse_loop_Ret:
  assumes "parse_loop d ps s = Ret sch"
  shows "sch_Model sch = sch_Model s \<and> sch_Name sch = sch_Name s
       \<and> (\<exists>fs. list_all2 (field_of d) (filter column_field ps) fs \<and> sch_Fields sch = sch_Fields s @ fs)
       \<and> (schema_ok s \<longrightarrow> schema_ok sch)"
  using assms
proof (induction d ps s rule: parse_loop.induct)
  case (2 d p ps s)
  show ?case
  proof (cases "column_field p")
    case True
    with 2(3) obtain f where f: "field_of d p f"
      "parse_loop d ps (s\<lparr>sch_Fields := sch_Fields s @ [f], sch_FieldNames := sch_FieldNames s @ [sf_Name p],
            sch_fieldMap := (sch_fieldMap s)(sf_Name p \<mapsto> f)\<rparr>) = Ret sch"
      by (auto simp: bind_outcome_Ret_iff parse_field_Ret)
    let ?s = "s\<lparr>sch_Fields := sch_Fields s @ [f], sch_FieldNames := sch_FieldNames s @ [sf_Name p],
            sch_fieldMap := (sch_fieldMap s)(sf_Name p \<mapsto> f)\<rparr>"
    from 2(1) [OF True f(2)] obtain fs where
      fs: "list_all2 (field_of d) (filter column_field ps) fs" "sch_Fields sch = sch_Fields ?s @ fs"
      and rest: "sch_Model sch = sch_Model s" "sch_Name sch = sch_Name s" "schema_ok ?s \<longrightarrow> schema_ok sch"
      by auto
    have "schema_ok s \<longrightarrow> schema_ok ?s" using f(1) by (auto simp: schema_ok_def field_of_def)
    moreover have "\<exists>fs. list_all2 (field_of d) (filter column_field (p # ps)) fs
        \<and> sch_Fields sch = sch_Fields s @ fs"
      using True f(1) fs by (intro exI [of _ "f # fs"]) simp
    ultimately show ?thesis using rest by blast
  qed (use 2 in simp)
qed simp

lemma Parse_Ret:
  assumes "Parse heap v d = Ret sch"
  shows "\<exists>ob. Indirect heap v = Some ob \<and> sch_Model sch = v \<and> sch_Name sch = st_Name (o_type ob)
           \<and> list_all2 (field_of d) (columns (o_type ob)) (sch_Fields sch) \<and> schema_ok sch"
proof -
  obtain ob where ob: "Indirect heap v = Some ob" using assms by (cases "Indirect heap v") (auto simp: Parse_def)
  have "schema_ok \<lparr>sch_Model = v, sch_Name = st_Name (o_type ob), sch_Fields = [], sch_FieldNames = [],
      sch_fieldMap = (\<lambda>_. None)\<rparr>"
    by (simp add: schema_ok_def)
  with ob parse_loop_Ret [of d "st_fields (o_type ob)"] assms show ?thesis
    by (fastforce simp: Parse_def columns_def)
qed

lemma field_of_names: "list_all2 (field_of d) ps fs \<Longrightarrow> map f_Name fs = map sf_Name ps"
  by (induction rule: list_all2_induct) (auto simp: field_of_def)

lemma Parse_FieldNames:
  "Parse heap v d = Ret sch \<Longrightarrow> Indirect heap v = Some ob \<Longrightarrow>
     sch_FieldNames sch = map sf_Name (columns (o_type ob))"
  using Parse_Ret [of heap v d sch] field_of_names by (auto simp: schema_ok_def)

text \<open>\<open>Parse\<close> returns unless the type of some column has no counterpart in the dialect.\<close>

lemma parse_loop_total:
  "\<forall>p \<in> set (filter column_field ps). \<exists>t. DataTypeOf d (sf_Type p) = Ret t \<Longrightarrow>
     \<exists>sch. parse_loop d ps s = Ret sch"
  by (induction ps arbitrary: s) (auto simp: parse_field_def Let_def)

lemma Parse_total:
  "Indirect heap v = Some ob \<Longrightarrow> \<forall>p \<in> set (columns (o_type ob)). \<exists>t. DataTypeOf d (sf_Type p) = Ret t \<Longrightarrow>
     \<exists>sch. Parse heap v d = Ret sch"
  using parse_loop_total [of "st_fields (o_type ob)" d] by (simp add: Parse_def columns_def)

section \<open>The values of a record\<close>

text \<open>An object holds one value for each field of its type, and Go's fields have distinct names.\<close>

definition obj_ok :: "obj \<Rightarrow> bool" where
  "obj_ok ob \<longleftrightarrow> length (o_values ob) = length (st_fields (o_type ob))
     \<and> distinct (map sf_Name (st_fields (o_type ob)))"

text \<open>The values of the columns of an object, in the order of the columns.\<close>

definition column_values :: "obj \<Rightarrow> govalue list" where
  "column_values ob = map snd (filter (\<lambda>(p, v). column_field p) (zip (st_fields (o_type ob)) (o_values ob)))"

lemma length_filter_zip:
  "length ps = length vs \<Longrightarrow> length (filter (\<lambda>(p, v). P p) (zip ps vs)) = length (filter P ps)"
  by (induction ps vs rule: list_induct2) auto

lemma length_column_values: "obj_ok ob \<Longrightarrow> length (column_values ob) = length (columns (o_type ob))"
  by (simp add: column_values_def columns_def obj_ok_def length_filter_zip)

lemma field_values_map:
  "\<forall>(p, v) \<in> set pvs. FieldByName ob (sf_Name p) = Ret v \<Longrightarrow>
     list_all2 (field_of d) (map fst pvs) fs \<Longrightarrow> field_values ob fs = Ret (map snd pvs)"
proof (induction pvs arbitrary: fs)
  case (Cons pv pvs)
  then obtain f fs' where fs: "fs = f # fs'" "field_of d (fst pv) f" "list_all2 (field_of d) (map fst pvs) fs'"
    by (auto simp: list_all2_Cons1)
  with Cons show ?case by (cases pv) (auto simp: field_of_def)
qed simp

lemma FieldByName_zip:
  assumes "obj_ok ob" and "(p, v) \<in> set (zip (st_fields (o_type ob)) (o_values ob))"
  shows "FieldByName ob (sf_Name p) = Ret v"
proof -
  have len: "length (o_values ob) = length (st_fields (o_type ob))"
    and dist: "distinct (map sf_Name (st_fields (o_type ob)))" using assms(1) by (simp_all add: obj_ok_def)
  have "(sf_Name p, v) \<in> set (zip (map sf_Name (st_fields (o_type ob))) (o_values ob))"
    using assms(2) by (force simp: zip_map1)
  with len dist have "map_of (zip (map sf_Name (st_fields (o_type ob))) (o_values ob)) (sf_Name p) = Some v"
    by (intro map_of_is_SomeI) simp_all
  then show ?thesis by (simp add: FieldByName_def)
qed

lemma map_fst_filter_zip:
  "length ps = length vs \<Longrightarrow> map fst (filter (\<lambda>(p, v). P p) (zip ps vs)) = filter P ps"
  by (induction ps vs rule: list_induct2) auto

lemma RecordValues_columns:
  assumes "Indirect heap v = Some ob" and "obj_ok ob"
    and "list_all2 (field_of d) (columns (o_type ob)) (sch_Fields sch)"
  shows "RecordValues heap sch v = Ret (column_values ob)"
proof -
  let ?pvs = "filter (\<lambda>(p, v). column_field p) (zip (st_fields (o_type ob)) (o_values ob))"
  have "map fst ?pvs = columns (o_type ob)"
    using assms(2) by (simp add: columns_def obj_ok_def map_fst_filter_zip)
  with assms(3) have "field_values ob (sch_Fields sch) = Ret (map snd ?pvs)"
    by (intro field_values_map [where d = d]) (auto intro: FieldByName_zip [OF assms(2)])
  with assms(1) show ?thesis by (simp add: RecordValues_def column_values_def)
qed

lemma field_values_length: "field_values ob fs = Ret vs \<Longrightarrow> length vs = length fs"
  by (induction fs arbitrary: vs) (auto simp: bind_outcome_Ret_iff)

lemma RecordValues_length: "RecordValues heap sch v = Ret vs \<Longrightarrow> length vs = length (sch_Fields sch)"
  by (auto simp: RecordValues_def field_values_length split: option.splits)

end
