(* ===== verification/Session.thy ===== *)
theory Session
  imports Schema
begin

text \<open>
  Sessions of \<^verbatim>\<open>geeorm/session\<close>: the statement under construction and its execution (\<^verbatim>\<open>raw.go\<close>),
  the table of the model (\<^verbatim>\<open>table.go\<close>), hooks (\<^verbatim>\<open>hooks.go\<close>) and transactions (\<^verbatim>\<open>transaction.go\<close>).

  \<^verbatim>\<open>database/sql\<close> with its driver, the hooks that user types define, and the iteration order of maps
  come from an environment.  An operation that may panic is a function from a session to an outcome
  and the session that is left, also after a panic.
\<close>

section \<open>Operations that may panic\<close>

definition bindS :: "('s \<Rightarrow> 'a outcome \<times> 's) \<Rightarrow> ('a \<Rightarrow> 's \<Rightarrow> 'b outcome \<times> 's) \<Rightarrow> 's \<Rightarrow> 'b outcome \<times> 's" where
  "bindS m k s = (case m s of (Ret a, s') \<Rightarrow> k a s' | (Panic p, s') \<Rightarrow> (Panic p, s'))"

definition retS :: "'a \<Rightarrow> 's \<Rightarrow> 'a outcome \<times> 's" where
  "retS a s = (Ret a, s)"

lemma bindS_Ret [simp]: "m s = (Ret a, s') \<Longrightarrow> bindS m k s = k a s'"
  by (simp add: bindS_def)

lemma bindS_Panic [simp]: "m s = (Panic p, s') \<Longrightarrow> bindS m k s = (Panic p, s')"
  by (simp add: bindS_def)

definition nil_deref :: string where
  "nil_deref = ''runtime error: invalid memory address or nil pointer dereference''"

section \<open>State and environment\<close>

text \<open>What a session shares with the rest of the program: the database its pointer leads to, the
  objects, and the lines logged so far.\<close>

datatype log_line = LogStmt string "govalue list" | LogInfo string | LogError string

record 'db world =
  w_db :: 'db
  w_heap :: obj_heap
  w_next :: nat
  w_log :: "log_line list"

record 'db session = "'db world" +
  ss_sql :: string
  ss_vars :: "govalue list"
  ss_dialect :: dialect
  ss_refTable :: "schema option"
  ss_clause :: clause
  ss_tx :: "nat option"

text \<open>\<open>CommonDB\<close>: the database itself or a transaction.\<close>

datatype handle = OnDB | OnTx nat

text \<open>What \<open>RowsAffected\<close> says of a result; the rows of a query, with the error that \<open>Err\<close> reports
  when \<open>Next\<close> has returned false.\<close>

type_synonym sql_result = "goerror + int"

record sql_rows =
  rows_id :: nat
  rows_Columns :: "string list"
  rows_data :: "govalue list list"
  rows_Err :: "goerror option"

type_synonym 'db hook = "dest \<Rightarrow> 'db session \<Rightarrow> goerror option outcome \<times> 'db session"

text \<open>
  \<open>oe_hooks ptr T name\<close> is the method \<open>name\<close> in the method set of \<open>T\<close> or, if \<open>ptr\<close>, of the pointer to
  \<open>T\<close>; what it does is how its call with the session ends, with the error it returns, if any.
\<close>

record 'db orm_env =
  oe_Exec :: "handle \<Rightarrow> string \<Rightarrow> govalue list \<Rightarrow> 'db \<Rightarrow> (goerror + sql_result) \<times> 'db"
  oe_Query :: "handle \<Rightarrow> string \<Rightarrow> govalue list \<Rightarrow> 'db \<Rightarrow> (goerror + sql_rows) \<times> 'db"
  oe_Close :: "nat \<Rightarrow> 'db \<Rightarrow> goerror option \<times> 'db"
  oe_Scan :: "field_type list \<Rightarrow> govalue list \<Rightarrow> goerror + govalue list"
  oe_Begin :: "'db \<Rightarrow> (goerror + nat) \<times> 'db"
  oe_Commit :: "nat \<Rightarrow> 'db \<Rightarrow> goerror option \<times> 'db"
  oe_Rollback :: "nat \<Rightarrow> 'db \<Rightarrow> goerror option \<times> 'db"
  oe_zero :: "field_type \<Rightarrow> govalue"
  oe_iter :: map_iter
  oe_hooks :: "bool \<Rightarrow> string \<Rightarrow> string \<Rightarrow> 'db hook option"

definition log_add :: "log_line \<Rightarrow> ('db, 'x) world_scheme \<Rightarrow> ('db, 'x) world_scheme" where
  "log_add l w = w\<lparr>w_log := w_log w @ [l]\<rparr>"

section \<open>The statement\<close>

text \<open>\<open>New\<close>\<close>

definition session_new :: "('db, 'x) world_scheme \<Rightarrow> dialect \<Rightarrow> 'db session" where
  "session_new w d =
     \<lparr>w_db = w_db w, w_heap = w_heap w, w_next = w_next w, w_log = w_log w,
      ss_sql = [], ss_vars = [], ss_dialect = d, ss_refTable = None, ss_clause = no_clause, ss_tx = None\<rparr>"

definition Clear :: "'db session \<Rightarrow> 'db session" where
  "Clear s = s\<lparr>ss_sql := [], ss_vars := [], ss_clause := no_clause\<rparr>"

definition session_DB :: "'db session \<Rightarrow> handle" where
  "session_DB s = (case ss_tx s of Some t \<Rightarrow> OnTx t | None \<Rightarrow> OnDB)"

definition Raw :: "string \<Rightarrow> govalue list \<Rightarrow> 'db session \<Rightarrow> 'db session" where
  "Raw sql vs s = s\<lparr>ss_sql := ss_sql s @ sql @ '' '', ss_vars := ss_vars s @ vs\<rparr>"

text \<open>The session is cleared when the function returns.\<close>

definition Exec :: "'db orm_env \<Rightarrow> 'db session \<Rightarrow> (goerror + sql_result) \<times> 'db session" where
  "Exec env s =
     (let s1 = log_add (LogStmt (ss_sql s) (ss_vars s)) s;
          (r, db) = oe_Exec env (session_DB s1) (ss_sql s1) (ss_vars s1) (w_db s1);
          s2 = s1\<lparr>w_db := db\<rparr>;
          s3 = (case r of Inl err \<Rightarrow> log_add (LogError err) s2 | Inr res \<Rightarrow> s2)
      in (r, Clear s3))"

definition QueryRow :: "'db orm_env \<Rightarrow> 'db session \<Rightarrow> (goerror + sql_rows) \<times> 'db session" where
  "QueryRow env s =
     (let s1 = log_add (LogStmt (ss_sql s) (ss_vars s)) s;
          (r, db) = oe_Query env (session_DB s1) (ss_sql s1) (ss_vars s1) (w_db s1)
      in (r, Clear (s1\<lparr>w_db := db\<rparr>)))"

definition QueryRows :: "'db orm_env \<Rightarrow> 'db session \<Rightarrow> (goerror + sql_rows) \<times> 'db session" where
  "QueryRows env s =
     (let s1 = log_add (LogStmt (ss_sql s) (ss_vars s)) s;
          (r, db) = oe_Query env (session_DB s1) (ss_sql s1) (ss_vars s1) (w_db s1);
          s2 = s1\<lparr>w_db := db\<rparr>;
          s3 = (case r of Inl err \<Rightarrow> log_add (LogError err) s2 | Inr rows \<Rightarrow> s2)
      in (r, Clear s3))"

definition close_rows :: "'db orm_env \<Rightarrow> sql_rows \<Rightarrow> 'db session \<Rightarrow> goerror option \<times> 'db session" where
  "close_rows env rows s = (let (e, db) = oe_Close env (rows_id rows) (w_db s) in (e, s\<lparr>w_db := db\<rparr>))"

text \<open>\<open>Row.Scan\<close> of \<^verbatim>\<open>database/sql\<close>, which closes the rows on every path.\<close>

definition row_Scan ::
    "'db orm_env \<Rightarrow> field_type list \<Rightarrow> goerror + sql_rows \<Rightarrow> 'db session
       \<Rightarrow> (goerror + govalue list) \<times> 'db session" where
  "row_Scan env types row s =
     (case row of
        Inl err \<Rightarrow> (Inl err, s)
      | Inr rows \<Rightarrow>
          (let (e, s') = close_rows env rows s in
           case rows_data rows of
             [] \<Rightarrow> (Inl (case rows_Err rows of Some err \<Rightarrow> err | None \<Rightarrow> ''sql: no rows in result set''), s')
           | r # _ \<Rightarrow>
               (case oe_Scan env types r of
                  Inl err \<Rightarrow> (Inl err, s')
                | Inr vs \<Rightarrow> ((case e of Some err \<Rightarrow> Inl err | None \<Rightarrow> Inr vs), s'))))"

section \<open>The table of the model\<close>

definition session_Model :: "dest \<Rightarrow> 'db session \<Rightarrow> unit outcome \<times> 'db session" where
  "session_Model value s =
     (if (case ss_refTable s of
            None \<Rightarrow> True
          | Some t \<Rightarrow> TypeOf (w_heap s) value \<noteq> TypeOf (w_heap s) (sch_Model t)) then
        (case Parse (w_heap s) value (ss_dialect s) of
           Ret t \<Rightarrow> (Ret (), s\<lparr>ss_refTable := Some t\<rparr>)
         | Panic p \<Rightarrow> (Panic p, s))
      else (Ret (), s))"

text \<open>\<open>RefTable\<close> may return nil; each of its callers reads a field of the result at once, which then
  panics.\<close>

definition RefTable :: "'db session \<Rightarrow> schema option \<times> 'db session" where
  "RefTable s =
     (ss_refTable s, if ss_refTable s = None then log_add (LogError ''Model is not set'') s else s)"

definition table_of :: "'db session \<Rightarrow> schema outcome \<times> 'db session" where
  "table_of s =
     (case RefTable s of
        (Some t, s') \<Rightarrow> (Ret t, s')
      | (None, s') \<Rightarrow> (Panic nil_deref, s'))"

definition exec_error :: "'db orm_env \<Rightarrow> 'db session \<Rightarrow> goerror option outcome \<times> 'db session" where
  "exec_error env s = (case Exec env s of (Inl err, s') \<Rightarrow> (Ret (Some err), s') | (Inr _, s') \<Rightarrow> (Ret None, s'))"

definition create_sql :: "schema \<Rightarrow> string" where
  "create_sql table =
     ''CREATE TABLE '' @ sch_Name table @ '' ('' @ join '','' (map (\<lambda>f. f_Name f @ '' '' @ f_Type f) (sch_Fields table))
       @ '');''"

definition CreateTable :: "'db orm_env \<Rightarrow> 'db session \<Rightarrow> goerror option outcome \<times> 'db session" where
  "CreateTable env = bindS table_of (\<lambda>table s. exec_error env (Raw (create_sql table) [] s))"

definition DropTable :: "'db orm_env \<Rightarrow> 'db session \<Rightarrow> goerror option outcome \<times> 'db session" where
  "DropTable env =
     bindS table_of (\<lambda>table s. exec_error env (Raw (''DROP TABLE IF EXISTS '' @ sch_Name table) [] s))"

definition string_type :: field_type where
  "string_type = \<lparr>ft_Kind = RString, ft_Name = ''string'', ft_is_time = False\<rparr>"

definition int64_type :: field_type where
  "int64_type = \<lparr>ft_Kind = RInt64, ft_Name = ''int64'', ft_is_time = False\<rparr>"

text \<open>The error of the scan is dropped: \<open>tmp\<close> then is still the empty string.\<close>

definition HasTable :: "'db orm_env \<Rightarrow> 'db session \<Rightarrow> bool outcome \<times> 'db session" where
  "HasTable env =
     bindS table_of (\<lambda>table s.
       let (sql, values) = TableExistSQL (ss_dialect s) (sch_Name table);
           (row, s1) = QueryRow env (Raw sql values s);
           (r, s2) = row_Scan env [string_type] row s1;
           tmp = (case r of Inr (v # _) \<Rightarrow> v | _ \<Rightarrow> VStr [])
       in bindS table_of (\<lambda>table. retS (tmp = VStr (sch_Name table))) s2)"

section \<open>Hooks\<close>

definition find_method :: "'db orm_env \<Rightarrow> dest \<Rightarrow> string \<Rightarrow> 'db session \<Rightarrow> 'db hook option" where
  "find_method env v method s =
     (case TypeOf (w_heap s) v of
        (ptr, Some st) \<Rightarrow> oe_hooks env ptr (st_Name st) method
      | (ptr, None) \<Rightarrow> None)"

definition CallMethod ::
    "'db orm_env \<Rightarrow> string \<Rightarrow> dest option \<Rightarrow> 'db session \<Rightarrow> unit outcome \<times> 'db session" where
  "CallMethod env method value =
     bindS table_of (\<lambda>table s.
       let target = (case value of Some v \<Rightarrow> v | None \<Rightarrow> sch_Model table) in
       case find_method env target method s of
         None \<Rightarrow> (Ret (), s)
       | Some hook \<Rightarrow>
           bindS (hook target) (\<lambda>e s'. case e of Some err \<Rightarrow> (Panic err, s') | None \<Rightarrow> (Ret (), s')) s)"

section \<open>Transactions\<close>

text \<open>\<open>Begin\<close> of \<^verbatim>\<open>database/sql\<close> returns a nil transaction with its error.\<close>

definition Begin :: "'db orm_env \<Rightarrow> 'db session \<Rightarrow> goerror option \<times> 'db session" where
  "Begin env s =
     (let s1 = log_add (LogInfo ''transaction begin'') s;
          (r, db) = oe_Begin env (w_db s1);
          s2 = s1\<lparr>w_db := db\<rparr>
      in case r of
           Inl err \<Rightarrow> (Some err, log_add (LogError err) (s2\<lparr>ss_tx := None\<rparr>))
         | Inr t \<Rightarrow> (None, s2\<lparr>ss_tx := Some t\<rparr>))"

definition end_tx ::
    "string \<Rightarrow> (nat \<Rightarrow> 'db \<Rightarrow> goerror option \<times> 'db) \<Rightarrow> 'db session \<Rightarrow> goerror option outcome \<times> 'db session" where
  "end_tx msg finish s =
     (let s1 = log_add (LogInfo msg) s in
      case ss_tx s1 of
        None \<Rightarrow> (Panic nil_deref, s1)
      | Some t \<Rightarrow>
          (let (e, db) = finish t (w_db s1);
               s2 = s1\<lparr>w_db := db\<rparr>
           in (Ret e, case e of Some err \<Rightarrow> log_add (LogError err) s2 | None \<Rightarrow> s2)))"

definition Commit :: "'db orm_env \<Rightarrow> 'db session \<Rightarrow> goerror option outcome \<times> 'db session" where
  "Commit env = end_tx ''transaction commit'' (oe_Commit env)"

definition Rollback :: "'db orm_env \<Rightarrow> 'db session \<Rightarrow> goerror option outcome \<times> 'db session" where
  "Rollback env = end_tx ''transaction rollback'' (oe_Rollback env)"

section \<open>What the operations leave\<close>

text \<open>The statements that have been executed, with their values, as the log shows them.\<close>

definition stmts :: "log_line list \<Rightarrow> (string \<times> govalue list) list" where
  "stmts ls = concat (map (\<lambda>l. case l of LogStmt q vs \<Rightarrow> [(q, vs)] | LogInfo m \<Rightarrow> [] | LogError m \<Rightarrow> []) ls)"

lemma stmts_simps [simp]:
  "stmts [] = []"
  "stmts (ls @ ls') = stmts ls @ stmts ls'"
  "stmts (LogStmt q vs # ls) = (q, vs) # stmts ls"
  "stmts (LogInfo m # ls) = stmts ls"
  "stmts (LogError m # ls) = stmts ls"
  by (simp_all add: stmts_def)

lemma log_add_simps [simp]:
  "w_db (log_add l w) = w_db w" "w_heap (log_add l w) = w_heap w" "w_next (log_add l w) = w_next w"
  "w_log (log_add l w) = w_log w @ [l]"
  by (simp_all add: log_add_def)

lemma log_add_session [simp]:
  "ss_sql (log_add l s) = ss_sql s" "ss_vars (log_add l s) = ss_vars s"
  "ss_dialect (log_add l s) = ss_dialect s" "ss_refTable (log_add l s) = ss_refTable s"
  "ss_clause (log_add l s) = ss_clause s" "ss_tx (log_add l s) = ss_tx s"
  "session_DB (log_add l s) = session_DB s"
  by (simp_all add: log_add_def session_DB_def)

lemma session_new_simps [simp]:
  "w_db (session_new w d) = w_db w" "w_heap (session_new w d) = w_heap w"
  "w_next (session_new w d) = w_next w" "w_log (session_new w d) = w_log w"
  "ss_sql (session_new w d) = []" "ss_vars (session_new w d) = []" "ss_dialect (session_new w d) = d"
  "ss_refTable (session_new w d) = None" "ss_clause (session_new w d) = no_clause"
  "ss_tx (session_new w d) = None"
  by (simp_all add: session_new_def)

lemma Clear_simps [simp]:
  "w_db (Clear s) = w_db s" "w_heap (Clear s) = w_heap s" "w_next (Clear s) = w_next s"
  "w_log (Clear s) = w_log s" "ss_sql (Clear s) = []" "ss_vars (Clear s) = []"
  "ss_dialect (Clear s) = ss_dialect s" "ss_refTable (Clear s) = ss_refTable s"
  "ss_clause (Clear s) = no_clause" "ss_tx (Clear s) = ss_tx s"
  by (simp_all add: Clear_def)

lemma Raw_simps [simp]:
  "w_db (Raw q vs s) = w_db s" "w_heap (Raw q vs s) = w_heap s" "w_next (Raw q vs s) = w_next s"
  "w_log (Raw q vs s) = w_log s" "ss_sql (Raw q vs s) = ss_sql s @ q @ '' ''"
  "ss_vars (Raw q vs s) = ss_vars s @ vs"
  "ss_dialect (Raw q vs s) = ss_dialect s" "ss_refTable (Raw q vs s) = ss_refTable s"
  "ss_clause (Raw q vs s) = ss_clause s" "ss_tx (Raw q vs s) = ss_tx s"
  "session_DB (Raw q vs s) = session_DB s"
  by (simp_all add: Raw_def session_DB_def)

text \<open>Executing a statement logs it, hands it to the database, and clears the session, whatever the
  outcome; nothing else of the session changes.\<close>

definition sent_by :: "'db session \<Rightarrow> 'db session \<Rightarrow> bool" where
  "sent_by s s' \<longleftrightarrow> stmts (w_log s') = stmts (w_log s) @ [(ss_sql s, ss_vars s)]
     \<and> ss_sql s' = [] \<and> ss_vars s' = [] \<and> ss_clause s' = no_clause
     \<and> w_heap s' = w_heap s \<and> w_next s' = w_next s \<and> ss_dialect s' = ss_dialect s
     \<and> ss_refTable s' = ss_refTable s \<and> ss_tx s' = ss_tx s"

lemma Exec_sent:
  assumes "Exec env s = (r, s')"
  shows "sent_by s s'" and "oe_Exec env (session_DB s) (ss_sql s) (ss_vars s) (w_db s) = (r, w_db s')"
  using assms by (auto simp: Exec_def sent_by_def Let_def split: prod.splits sum.splits)

lemma QueryRows_sent:
  assumes "QueryRows env s = (r, s')"
  shows "sent_by s s'" and "oe_Query env (session_DB s) (ss_sql s) (ss_vars s) (w_db s) = (r, w_db s')"
  using assms by (auto simp: QueryRows_def sent_by_def Let_def split: prod.splits sum.splits)

lemma QueryRow_sent:
  assumes "QueryRow env s = (r, s')"
  shows "sent_by s s'" and "oe_Query env (session_DB s) (ss_sql s) (ss_vars s) (w_db s) = (r, w_db s')"
  using assms by (auto simp: QueryRow_def sent_by_def Let_def split: prod.splits)

lemma close_rows_db:
  "close_rows env rows s = (e, s') \<Longrightarrow>
     oe_Close env (rows_id rows) (w_db s) = (e, w_db s') \<and> s' = s\<lparr>w_db := w_db s'\<rparr>"
  by (auto simp: close_rows_def split: prod.splits)

lemma row_Scan_db: "\<exists>db. snd (row_Scan env types row s) = s\<lparr>w_db := db\<rparr>"
proof (cases row)
  case (Inl e)
  then show ?thesis by (simp add: row_Scan_def) (metis world.surjective world.update_convs(1))
next
  case (Inr rows)
  obtain e s' where c: "close_rows env rows s = (e, s')" by fastforce
  from close_rows_db [OF c] Inr c show ?thesis
    by (auto simp: row_Scan_def Let_def split: list.splits sum.splits)
qed

section \<open>Predicates kept by an operation\<close>

text \<open>An operation keeps a predicate on sessions if it holds afterwards, after a panic as well.\<close>

definition keeps :: "('s \<Rightarrow> bool) \<Rightarrow> ('s \<Rightarrow> 'a outcome \<times> 's) \<Rightarrow> bool" where
  "keeps P m \<longleftrightarrow> (\<forall>s. P s \<longrightarrow> P (snd (m s)))"

named_theorems keeps

lemma keepsI: "(\<And>s r s'. P s \<Longrightarrow> m s = (r, s') \<Longrightarrow> P s') \<Longrightarrow> keeps P m"
  unfolding keeps_def by (metis prod.collapse)

lemma keepsD: "keeps P m \<Longrightarrow> P s \<Longrightarrow> m s = (r, s') \<Longrightarrow> P s'"
  unfolding keeps_def by (metis snd_conv)

lemma keeps_retS [keeps]: "keeps P (retS a)"
  by (simp add: keeps_def retS_def)

lemma keeps_pure [keeps]: "keeps P (\<lambda>s. (f s, s))"
  by (simp add: keeps_def)

lemma keeps_bindS [keeps]:
  assumes "keeps P m" and "\<And>a. keeps P (k a)"
  shows "keeps P (bindS m k)"
  using assms by (auto simp: keeps_def bindS_def split: prod.splits outcome.splits)

lemma keeps_app: "keeps P m \<Longrightarrow> P s \<Longrightarrow> P (snd (m s))"
  by (simp add: keeps_def)

end
