(* ===== verification/Records.thy ===== *)
theory Records
  imports Session "HOL-Library.AList"
begin

text \<open>
  Reading and writing records, \<^verbatim>\<open>geeorm/session/record.go\<close>: \<open>Insert\<close>, \<open>Find\<close>, \<open>Update\<close>, \<open>Delete\<close>,
  \<open>Count\<close>, the clauses that can be chained before them, and \<open>First\<close>.

  The arguments of type interface that are objects are pointers to structs or structs; a nil
  interface is not modelled.
\<close>

section \<open>Clauses of a session\<close>

definition set_clause :: "'db orm_env \<Rightarrow> clause_type \<Rightarrow> govalue list \<Rightarrow> 'db session \<Rightarrow> unit outcome \<times> 'db session" where
  "set_clause env t vs s =
     (case clause_Set (oe_iter env) t vs (ss_clause s) of
        Ret c \<Rightarrow> (Ret (), s\<lparr>ss_clause := c\<rparr>)
      | Panic p \<Rightarrow> (Panic p, s))"

definition Limit :: "'db orm_env \<Rightarrow> int \<Rightarrow> 'db session \<Rightarrow> unit outcome \<times> 'db session" where
  "Limit env num = set_clause env LIMIT [VInt num]"

definition Where :: "'db orm_env \<Rightarrow> string \<Rightarrow> govalue list \<Rightarrow> 'db session \<Rightarrow> unit outcome \<times> 'db session" where
  "Where env desc args = set_clause env WHERE (VStr desc # args)"

definition OrderBy :: "'db orm_env \<Rightarrow> string \<Rightarrow> 'db session \<Rightarrow> unit outcome \<times> 'db session" where
  "OrderBy env desc = set_clause env ORDERBY [VStr desc]"

definition build_raw :: "clause_type list \<Rightarrow> 'db session \<Rightarrow> 'db session" where
  "build_raw orders s = (let (sql, vars) = clause_Build orders (ss_clause s) in Raw sql vars s)"

section \<open>Writing\<close>

definition rows_affected :: "sql_result \<Rightarrow> int \<times> goerror option" where
  "rows_affected res = (case res of Inl err \<Rightarrow> (0, Some err) | Inr n \<Rightarrow> (n, None))"

text \<open>The common end of the three writing operations.\<close>

definition exec_then ::
    "'db orm_env \<Rightarrow> clause_type list \<Rightarrow> string \<Rightarrow> 'db session \<Rightarrow> (int \<times> goerror option) outcome \<times> 'db session" where
  "exec_then env orders after s =
     (case Exec env (build_raw orders s) of
        (Inl err, s') \<Rightarrow> (Ret (0, Some err), s')
      | (Inr res, s') \<Rightarrow> bindS (CallMethod env after None) (\<lambda>_. retS (rows_affected res)) s')"

fun insert_loop :: "'db orm_env \<Rightarrow> dest list \<Rightarrow> govalue list \<Rightarrow> 'db session \<Rightarrow> govalue list outcome \<times> 'db session" where
  "insert_loop env [] recordValues = retS recordValues"
| "insert_loop env (value # vs) recordValues =
     bindS (CallMethod env ''BeforeInsert'' (Some value)) (\<lambda>_.
     bindS (session_Model value) (\<lambda>_.
     bindS table_of (\<lambda>table.
     bindS (set_clause env INSERT [VStr (sch_Name table), VStrs (sch_FieldNames table)]) (\<lambda>_.
     bindS (\<lambda>s. (RecordValues (w_heap s) table value, s)) (\<lambda>r.
       insert_loop env vs (recordValues @ [VRow r]))))))"

definition Insert :: "'db orm_env \<Rightarrow> dest list \<Rightarrow> 'db session \<Rightarrow> (int \<times> goerror option) outcome \<times> 'db session" where
  "Insert env vs =
     bindS (insert_loop env vs []) (\<lambda>recordValues.
     bindS (set_clause env VALUES recordValues) (\<lambda>_.
       exec_then env [INSERT, VALUES] ''AfterInsert''))"

text \<open>The arguments of \<open>Update\<close>: a map, or keys and values in turn.\<close>

fun pairs_loop :: "govalue list \<Rightarrow> (string \<times> govalue) list \<Rightarrow> (string \<times> govalue) list outcome" where
  "pairs_loop [] m = Ret m"
| "pairs_loop [k] m = bind_outcome (as_string k) (\<lambda>_. Panic ''index out of range'')"
| "pairs_loop (k # v # kv) m = bind_outcome (as_string k) (\<lambda>key. pairs_loop kv (AList.update key v m))"

definition kv_map :: "govalue list \<Rightarrow> (string \<times> govalue) list outcome" where
  "kv_map kv =
     bind_outcome (arg kv 0) (\<lambda>v. case v of VMap m \<Rightarrow> Ret m | _ \<Rightarrow> pairs_loop kv [])"

definition Update :: "'db orm_env \<Rightarrow> govalue list \<Rightarrow> 'db session \<Rightarrow> (int \<times> goerror option) outcome \<times> 'db session" where
  "Update env kv =
     bindS (CallMethod env ''BeforeUpdate'' None) (\<lambda>_.
     bindS (\<lambda>s. (kv_map kv, s)) (\<lambda>m.
     bindS table_of (\<lambda>table.
     bindS (set_clause env UPDATE [VStr (sch_Name table), VMap m]) (\<lambda>_.
       exec_then env [UPDATE, WHERE] ''AfterUpdate''))))"

definition Delete :: "'db orm_env \<Rightarrow> 'db session \<Rightarrow> (int \<times> goerror option) outcome \<times> 'db session" where
  "Delete env =
     bindS (CallMethod env ''BeforeDelete'' None) (\<lambda>_.
     bindS table_of (\<lambda>table.
     bindS (set_clause env DELETE [VStr (sch_Name table)]) (\<lambda>_.
       exec_then env [DELETE, WHERE] ''AfterDelete'')))"

definition Count :: "'db orm_env \<Rightarrow> 'db session \<Rightarrow> (int \<times> goerror option) outcome \<times> 'db session" where
  "Count env =
     bindS table_of (\<lambda>table.
     bindS (set_clause env COUNT [VStr (sch_Name table)]) (\<lambda>_ s.
       let (row, s1) = QueryRow env (build_raw [COUNT, WHERE] s);
           (r, s2) = row_Scan env [int64_type] row s1
       in case r of
            Inl err \<Rightarrow> (Ret (0, Some err), s2)
          | Inr vs \<Rightarrow> (Ret (case vs of VInt n # _ \<Rightarrow> n | _ \<Rightarrow> 0, None), s2)))"

section \<open>Reading\<close>

text \<open>A new object of a type, and the assignment of scanned values to its fields.\<close>

definition zero_obj :: "'db orm_env \<Rightarrow> struct_type \<Rightarrow> obj" where
  "zero_obj env st = \<lparr>o_type = st, o_values = map (\<lambda>p. oe_zero env (sf_Type p)) (st_fields st)\<rparr>"

fun scan_types :: "struct_type \<Rightarrow> string list \<Rightarrow> field_type list outcome" where
  "scan_types st [] = Ret []"
| "scan_types st (name # names) =
     (case find (\<lambda>p. sf_Name p = name) (st_fields st) of
        None \<Rightarrow> Panic ''reflect: call of reflect.Value.Addr on zero Value''
      | Some p \<Rightarrow> bind_outcome (scan_types st names) (\<lambda>ts. Ret (sf_Type p # ts)))"

definition assign_fields :: "string list \<Rightarrow> govalue list \<Rightarrow> obj \<Rightarrow> obj" where
  "assign_fields names vs ob =
     ob\<lparr>o_values := map (\<lambda>(p, v). case map_of (zip names vs) (sf_Name p) of Some x \<Rightarrow> x | None \<Rightarrow> v)
                     (zip (st_fields (o_type ob)) (o_values ob))\<rparr>"

text \<open>
  The loop over the rows.  \<open>Next\<close> closes the rows when it returns false, so the last \<open>Close\<close>
  finds them closed and returns nil; after an error of \<open>Scan\<close> nothing closes them.
\<close>

fun find_loop ::
    "'db orm_env \<Rightarrow> struct_type \<Rightarrow> string list \<Rightarrow> sql_rows \<Rightarrow> govalue list list \<Rightarrow> obj list \<Rightarrow> 'db session
       \<Rightarrow> (goerror option \<times> obj list) outcome \<times> 'db session" where
  "find_loop env st names rows [] out s = (Ret (None, out), snd (close_rows env rows s))"
| "find_loop env st names rows (r # rs) out s =
     bindS (\<lambda>s. (scan_types st names, s)) (\<lambda>types s.
       case oe_Scan env types r of
         Inl err \<Rightarrow> (Ret (Some err, out), s)
       | Inr vs \<Rightarrow>
           (let a = w_next s; ob = assign_fields names vs (zero_obj env st) in
            bindS (CallMethod env ''AfterQuery'' (Some (PtrTo a))) (\<lambda>_ s'.
              case w_heap s' a of
                None \<Rightarrow> (Panic nil_deref, s')
              | Some ob' \<Rightarrow> find_loop env st names rows rs (out @ [ob']) s')
            (s\<lparr>w_heap := (w_heap s)(a \<mapsto> ob), w_next := Suc a\<rparr>))) s"

text \<open>\<open>Find\<close> appends to a slice of structs of type \<open>st\<close>; it returns its error and the slice.\<close>

definition Find ::
    "'db orm_env \<Rightarrow> struct_type \<Rightarrow> obj list \<Rightarrow> 'db session
       \<Rightarrow> (goerror option \<times> obj list) outcome \<times> 'db session" where
  "Find env st out =
     bindS (CallMethod env ''BeforeQuery'' None) (\<lambda>_.
     bindS (session_Model (StructVal (zero_obj env st))) (\<lambda>_.
     bindS table_of (\<lambda>table.
     bindS (set_clause env SELECT [VStr (sch_Name table), VStrs (sch_FieldNames table)]) (\<lambda>_ s.
       case QueryRows env (build_raw [SELECT, WHERE, ORDERBY, LIMIT] s) of
         (Inl err, s') \<Rightarrow> (Ret (Some err, out), s')
       | (Inr rows, s') \<Rightarrow> find_loop env st (sch_FieldNames table) rows (rows_data rows) out s'))))"

text \<open>\<open>First\<close> reads into the object at an address.\<close>

definition First :: "'db orm_env \<Rightarrow> nat \<Rightarrow> 'db session \<Rightarrow> goerror option outcome \<times> 'db session" where
  "First env a s =
     (case w_heap s a of
        None \<Rightarrow> (Panic nil_deref, s)
      | Some ob \<Rightarrow>
          bindS (Limit env 1) (\<lambda>_.
          bindS (Find env (o_type ob) []) (\<lambda>(e, out) s'.
            case e of
              Some err \<Rightarrow> (Ret (Some err), s')
            | None \<Rightarrow>
                (case out of
                   [] \<Rightarrow> (Ret (Some ''NOT FOUND''), s')
                 | ob' # _ \<Rightarrow> (Ret None, s'\<lparr>w_heap := (w_heap s')(a \<mapsto> ob')\<rparr>)))) s)"

end
