(* ===== verification/Engine.thy ===== *)
theory Engine
  imports Records
begin

text \<open>
  The engine, \<^verbatim>\<open>geeorm/geeorm.go\<close>: opening a database, transactions around a function of the
  user, and migration of a table to the columns of a struct.
\<close>

section \<open>Opening and closing\<close>

text \<open>An engine holds a pointer to the database, whose state is part of the world, and a dialect.\<close>

record 'db engine = "'db world" +
  eng_dialect :: dialect

text \<open>\<open>sql.Open\<close>, \<open>Ping\<close> and \<open>Close\<close> of the database come from outside.\<close>

record 'db open_env =
  op_Open :: "string \<Rightarrow> string \<Rightarrow> goerror + 'db"
  op_Ping :: "'db \<Rightarrow> goerror option \<times> 'db"
  op_Close :: "'db \<Rightarrow> goerror option \<times> 'db"

text \<open>The objects and lines logged before are those of the world \<open>w\<close>, whose database is not used.\<close>

definition NewEngine ::
    "'db open_env \<Rightarrow> dialects \<Rightarrow> string \<Rightarrow> string \<Rightarrow> 'db world
       \<Rightarrow> ('db engine option \<times> goerror option) \<times> 'db world" where
  "NewEngine oe ds driver source w =
     (case op_Open oe driver source of
        Inl err \<Rightarrow> ((None, Some err), log_add (LogError err) w)
      | Inr db \<Rightarrow>
          (case op_Ping oe db of
             (Some err, db') \<Rightarrow> ((None, Some err), log_add (LogError err) (w\<lparr>w_db := db'\<rparr>))
           | (None, db') \<Rightarrow>
               (let w1 = w\<lparr>w_db := db'\<rparr> in
                case GetDialect driver ds of
                  None \<Rightarrow> ((None, None), log_add (LogError (''dialect '' @ driver @ '' Not Found'')) w1)
                | Some d \<Rightarrow>
                    (let w2 = log_add (LogInfo ''Connect database success'') w1 in
                     ((Some \<lparr>w_db = w_db w2, w_heap = w_heap w2, w_next = w_next w2, w_log = w_log w2,
                             eng_dialect = d\<rparr>, None), w2)))))"

definition Engine_Close :: "'db open_env \<Rightarrow> 'db engine \<Rightarrow> 'db engine" where
  "Engine_Close oe e =
     (let (err, db) = op_Close oe (w_db e);
          e1 = e\<lparr>w_db := db\<rparr>;
          e2 = (if err = None then e1 else log_add (LogError ''Failed to close database'') e1)
      in log_add (LogInfo ''Close database success'') e2)"

definition NewSession :: "'db engine \<Rightarrow> 'db session" where
  "NewSession e = session_new e (eng_dialect e)"

text \<open>What a session has done to the world, seen from the engine.\<close>

definition back_to :: "'db engine \<Rightarrow> 'db session \<Rightarrow> 'db engine" where
  "back_to e s = e\<lparr>w_db := w_db s, w_heap := w_heap s, w_next := w_next s, w_log := w_log s\<rparr>"

section \<open>Transactions\<close>

type_synonym ('db, 'r) tx_func = "'db session \<Rightarrow> ('r option \<times> goerror option) outcome \<times> 'db session"

text \<open>The deferred function, run when \<open>f\<close> has returned or panicked.\<close>

definition tx_defer ::
    "'db orm_env \<Rightarrow> ('r option \<times> goerror option) outcome \<Rightarrow> 'db session
       \<Rightarrow> ('r option \<times> goerror option) outcome \<times> 'db session" where
  "tx_defer env out s =
     (case out of
        Panic p \<Rightarrow> bindS (Rollback env) (\<lambda>_ s'. (Panic p, s')) s
      | Ret (res, Some err) \<Rightarrow> bindS (Rollback env) (\<lambda>_. retS (res, Some err)) s
      | Ret (res, None) \<Rightarrow> bindS (Commit env) (\<lambda>err. retS (res, err)) s)"

definition Transaction ::
    "'db orm_env \<Rightarrow> ('db, 'r) tx_func \<Rightarrow> 'db engine
       \<Rightarrow> ('r option \<times> goerror option) outcome \<times> 'db engine" where
  "Transaction env f e =
     (case Begin env (NewSession e) of
        (Some err, s) \<Rightarrow> (Ret (None, Some err), back_to e s)
      | (None, s) \<Rightarrow>
          (let (out, s1) = f s; (out', s2) = tx_defer env out s1 in (out', back_to e s2)))"

section \<open>Migration\<close>

text \<open>The keys of the Go map are the elements of \<open>b\<close>.\<close>

definition difference :: "string list \<Rightarrow> string list \<Rightarrow> string list" where
  "difference a b = (let mapB = fold (\<lambda>v m. m(v \<mapsto> True)) b (\<lambda>_. None) in filter (\<lambda>v. mapB v = None) a)"

definition sprint_strings :: "string list \<Rightarrow> string" where
  "sprint_strings ss = ''['' @ join '' '' ss @ '']''"

text \<open>The loop that adds the missing columns; it stops at the first error.\<close>

definition add_column_sql :: "schema \<Rightarrow> field \<Rightarrow> string" where
  "add_column_sql table f =
     ''ALTER TABLE '' @ sch_Name table @ '' ADD COLUMN '' @ f_Name f @ '' '' @ f_Type f @ '';''"

fun add_columns :: "'db orm_env \<Rightarrow> schema \<Rightarrow> string list \<Rightarrow> 'db session \<Rightarrow> goerror option outcome \<times> 'db session" where
  "add_columns env table [] = retS None"
| "add_columns env table (col # cols) =
     (\<lambda>s. case GetField table col of
        None \<Rightarrow> (Panic nil_deref, s)
      | Some f \<Rightarrow>
          bindS (\<lambda>s. exec_error env (Raw (add_column_sql table f) [] s)) (\<lambda>e.
            case e of Some err \<Rightarrow> retS (Some err) | None \<Rightarrow> add_columns env table cols) s)"

definition copy_sql :: "schema \<Rightarrow> string" where
  "copy_sql table =
     ''CREATE TABLE tmp_'' @ sch_Name table @ '' AS SELECT '' @ join '','' (sch_FieldNames table)
       @ '' from '' @ sch_Name table @ '';''"

definition drop_sql :: "schema \<Rightarrow> string" where
  "drop_sql table = ''DROP TABLE '' @ sch_Name table @ '';''"

definition rename_sql :: "schema \<Rightarrow> string" where
  "rename_sql table = ''ALTER TABLE tmp_'' @ sch_Name table @ '' RENAME TO '' @ sch_Name table @ '';''"

text \<open>The three statements are collected and executed as one.\<close>

definition rebuild_table :: "'db orm_env \<Rightarrow> schema \<Rightarrow> 'db session \<Rightarrow> goerror option outcome \<times> 'db session" where
  "rebuild_table env table s =
     exec_error env (Raw (rename_sql table) [] (Raw (drop_sql table) [] (Raw (copy_sql table) [] s)))"

text \<open>The part of the function that runs when the table exists.  A failed query leaves \<open>rows\<close> nil, so
  the method \<open>Columns\<close> panics on it.\<close>

definition migrate_existing :: "'db orm_env \<Rightarrow> schema \<Rightarrow> 'db session \<Rightarrow> goerror option outcome \<times> 'db session" where
  "migrate_existing env table s =
     (case QueryRows env (Raw (''SELECT * FROM '' @ sch_Name table @ '' LIMIT 1'') [] s) of
        (Inl err, s1) \<Rightarrow> (Panic nil_deref, s1)
      | (Inr rows, s1) \<Rightarrow>
          (let cols = rows_Columns rows;
               addCols = difference (sch_FieldNames table) cols;
               delCols = difference cols (sch_FieldNames table);
               s2 = log_add (LogInfo (''added cols '' @ sprint_strings addCols @ '', deleted cols ''
                      @ sprint_strings delCols)) s1
           in bindS (add_columns env table addCols) (\<lambda>e.
                case e of
                  Some err \<Rightarrow> retS (Some err)
                | None \<Rightarrow> if delCols = [] then retS None else rebuild_table env table) s2))"

definition migrate_body :: "'db orm_env \<Rightarrow> dest \<Rightarrow> ('db, unit) tx_func" where
  "migrate_body env value =
     bindS (session_Model value) (\<lambda>_.
     bindS (HasTable env) (\<lambda>has.
     bindS table_of (\<lambda>table.
     bindS (\<lambda>s. if \<not> has then CreateTable env (log_add (LogInfo (''table '' @ sch_Name table @ '' doesn'' @ [CHR 0x27] @ ''t exist'')) s)
                else migrate_existing env table s) (\<lambda>e. retS (None, e)))))"

definition Migrate :: "'db orm_env \<Rightarrow> dest \<Rightarrow> 'db engine \<Rightarrow> goerror option outcome \<times> 'db engine" where
  "Migrate env value e =
     (case Transaction env (migrate_body env value) e of
        (Ret (res, err), e') \<Rightarrow> (Ret err, e')
      | (Panic p, e') \<Rightarrow> (Panic p, e'))"

lemma difference_filter: "difference a b = filter (\<lambda>v. v \<notin> set b) a"
proof -
  have "fold (\<lambda>v m. m(v \<mapsto> True)) b m v = None \<longleftrightarrow> m v = None \<and> v \<notin> set b" for m and v :: string
    by (induction b arbitrary: m) auto
  then show ?thesis by (simp add: difference_def)
qed

end
