(* ===== verification/TxKeeps.thy ===== *)
theory TxKeeps
  imports Engine
begin

text \<open>
  What the operations of a session can do to the database: they reach it only through the handle of
  the session, its transaction if it has one.  So a predicate on the transaction and the database
  that every call through the handle keeps is kept by every operation.  The atomicity of
  transactions rests on this.
\<close>

definition db_kept :: "'db orm_env \<Rightarrow> (nat option \<Rightarrow> 'db \<Rightarrow> bool) \<Rightarrow> bool" where
  "db_kept env Q \<longleftrightarrow>
     (\<forall>tx db sql vs. let h = (case tx of Some t \<Rightarrow> OnTx t | None \<Rightarrow> OnDB) in
        Q tx db \<longrightarrow> Q tx (snd (oe_Exec env h sql vs db)) \<and> Q tx (snd (oe_Query env h sql vs db)))
     \<and> (\<forall>tx db i. Q tx db \<longrightarrow> Q tx (snd (oe_Close env i db)))"

definition hooks_keep :: "'db orm_env \<Rightarrow> ('db session \<Rightarrow> bool) \<Rightarrow> bool" where
  "hooks_keep env P \<longleftrightarrow>
     (\<forall>ptr T name hook v. oe_hooks env ptr T name = Some hook \<longrightarrow> keeps P (hook v))"

definition on_db :: "(nat option \<Rightarrow> 'db \<Rightarrow> bool) \<Rightarrow> 'db session \<Rightarrow> bool" where
  "on_db Q s \<longleftrightarrow> Q (ss_tx s) (w_db s)"

lemma db_keptD:
  assumes "db_kept env Q" and "Q (ss_tx s) db"
  shows "Q (ss_tx s) (snd (oe_Exec env (session_DB s) sql vs db))"
    and "Q (ss_tx s) (snd (oe_Query env (session_DB s) sql vs db))"
    and "Q (ss_tx s) (snd (oe_Close env i db))"
  using assms by (simp_all add: db_kept_def session_DB_def Let_def)

lemma CallMethod_keeps:
  assumes "hooks_keep env P" and "\<And>l s. P s \<Longrightarrow> P (log_add l s)"
  shows "keeps P (CallMethod env m v)"
  using assms
  by (auto simp: CallMethod_def keeps_def bindS_def table_of_def RefTable_def hooks_keep_def Let_def
      find_method_def split: prod.splits option.splits outcome.splits) (metis snd_conv)+

lemma on_db_Raw [simp]: "on_db Q (Raw q vs s) = on_db Q s"
  by (simp add: on_db_def)

lemma on_db_build_raw [simp]: "on_db Q (build_raw orders s) = on_db Q s"
  by (simp add: build_raw_def split: prod.splits)

lemma on_db_log_add [simp]: "on_db Q (log_add l s) = on_db Q s"
  by (simp add: on_db_def)

lemma Exec_on_db: "db_kept env Q \<Longrightarrow> on_db Q s \<Longrightarrow> on_db Q (snd (Exec env s))"
  using db_keptD(1) [of env Q s "w_db s" "ss_sql s" "ss_vars s"] Exec_sent [of env s]
  by (cases "Exec env s") (auto simp: on_db_def sent_by_def)

lemma QueryRow_on_db: "db_kept env Q \<Longrightarrow> on_db Q s \<Longrightarrow> on_db Q (snd (QueryRow env s))"
  using db_keptD(2) [of env Q s "w_db s" "ss_sql s" "ss_vars s"] QueryRow_sent [of env s]
  by (cases "QueryRow env s") (auto simp: on_db_def sent_by_def)

lemma QueryRows_on_db: "db_kept env Q \<Longrightarrow> on_db Q s \<Longrightarrow> on_db Q (snd (QueryRows env s))"
  using db_keptD(2) [of env Q s "w_db s" "ss_sql s" "ss_vars s"] QueryRows_sent [of env s]
  by (cases "QueryRows env s") (auto simp: on_db_def sent_by_def)

lemma close_rows_on_db: "db_kept env Q \<Longrightarrow> on_db Q s \<Longrightarrow> on_db Q (snd (close_rows env rows s))"
  using db_keptD(3) [of env Q s "w_db s" "rows_id rows"] by (auto simp: close_rows_def on_db_def split: prod.splits)

lemma row_Scan_on_db:
  assumes "db_kept env Q" and "on_db Q s"
  shows "on_db Q (snd (row_Scan env types row s))"
proof (cases row)
  case (Inr rows)
  with close_rows_on_db [OF assms, of rows] show ?thesis
    by (auto simp: row_Scan_def Let_def split: prod.splits list.splits sum.splits)
qed (simp add: row_Scan_def assms(2))

lemma exec_error_snd: "snd (exec_error env s) = snd (Exec env s)"
  by (simp add: exec_error_def split: prod.splits sum.splits)

lemma exec_error_keeps [keeps]: "db_kept env Q \<Longrightarrow> keeps (on_db Q) (exec_error env)"
  by (simp add: keeps_def exec_error_snd Exec_on_db)

lemma table_of_keeps [keeps]: "keeps (on_db Q) table_of"
  by (auto simp: keeps_def table_of_def RefTable_def split: option.splits)

lemma session_Model_keeps [keeps]: "keeps (on_db Q) (session_Model v)"
  by (auto simp: keeps_def session_Model_def on_db_def split: option.splits outcome.splits)

lemma set_clause_keeps [keeps]: "keeps (on_db Q) (set_clause env t vs)"
  by (auto simp: keeps_def set_clause_def on_db_def split: outcome.splits)

lemma keeps_after: "keeps P m \<Longrightarrow> (\<And>s. P (f s) = P s) \<Longrightarrow> keeps P (\<lambda>s. m (f s))"
  by (simp add: keeps_def)

lemma keeps_after2: "(\<And>s. keeps P (m s)) \<Longrightarrow> (\<And>s. P s \<Longrightarrow> P (f s)) \<Longrightarrow> keeps P (\<lambda>s. m s (f s))"
  by (simp add: keeps_def)

lemma exec_raw_keeps [keeps]: "db_kept env Q \<Longrightarrow> keeps (on_db Q) (\<lambda>s. exec_error env (Raw (q s) vs s))"
  by (simp add: keeps_def exec_error_snd Exec_on_db)

lemma CreateTable_keeps [keeps]: "db_kept env Q \<Longrightarrow> keeps (on_db Q) (CreateTable env)"
  unfolding CreateTable_def by (intro keeps)

lemma DropTable_keeps [keeps]: "db_kept env Q \<Longrightarrow> keeps (on_db Q) (DropTable env)"
  unfolding DropTable_def by (intro keeps)

lemma HasTable_keeps [keeps]:
  assumes "db_kept env Q"
  shows "keeps (on_db Q) (HasTable env)"
  unfolding HasTable_def Let_def split_beta
  by (intro keeps keeps_after2 row_Scan_on_db QueryRow_on_db assms) simp_all

lemma exec_then_keeps [keeps]:
  assumes "db_kept env Q" and "hooks_keep env (on_db Q)"
  shows "keeps (on_db Q) (exec_then env orders after)"
proof (rule keepsI)
  fix s r s' assume s: "on_db Q s" and e: "exec_then env orders after s = (r, s')"
  obtain x s1 where x: "Exec env (build_raw orders s) = (x, s1)" by fastforce
  with Exec_on_db [OF assms(1), of "build_raw orders s"] s have s1: "on_db Q s1" by simp
  have "keeps (on_db Q) (bindS (CallMethod env after None) (\<lambda>_. retS (rows_affected res)))" for res
    by (intro keeps CallMethod_keeps assms(2)) simp
  with e x s1 show "on_db Q s'" by (cases x) (auto simp: exec_then_def dest: keepsD)
qed

lemma insert_loop_keeps [keeps]:
  "db_kept env Q \<Longrightarrow> hooks_keep env (on_db Q) \<Longrightarrow> keeps (on_db Q) (insert_loop env vs rows)"
  by (induction env vs rows rule: insert_loop.induct) (auto intro!: keeps CallMethod_keeps)

lemma Insert_keeps [keeps]:
  "db_kept env Q \<Longrightarrow> hooks_keep env (on_db Q) \<Longrightarrow> keeps (on_db Q) (Insert env vs)"
  unfolding Insert_def by (intro keeps)

lemma Update_keeps [keeps]:
  "db_kept env Q \<Longrightarrow> hooks_keep env (on_db Q) \<Longrightarrow> keeps (on_db Q) (Update env kv)"
  unfolding Update_def by (intro keeps CallMethod_keeps) simp_all

lemma Delete_keeps [keeps]:
  "db_kept env Q \<Longrightarrow> hooks_keep env (on_db Q) \<Longrightarrow> keeps (on_db Q) (Delete env)"
  unfolding Delete_def by (intro keeps CallMethod_keeps) simp_all

lemma keeps_case_sum [keeps]:
  "(\<And>x. keeps P (f x)) \<Longrightarrow> (\<And>y. keeps P (g y)) \<Longrightarrow> keeps P (case r of Inl x \<Rightarrow> f x | Inr y \<Rightarrow> g y)"
  by (cases r) auto

lemma keeps_case_option [keeps]:
  "keeps P f \<Longrightarrow> (\<And>y. keeps P (g y)) \<Longrightarrow> keeps P (case r of None \<Rightarrow> f | Some y \<Rightarrow> g y)"
  by (cases r) auto

lemma keeps_if [keeps]: "keeps P f \<Longrightarrow> keeps P g \<Longrightarrow> keeps P (if b then f else g)"
  by simp

lemma Count_keeps [keeps]:
  assumes "db_kept env Q"
  shows "keeps (on_db Q) (Count env)"
proof -
  have "on_db Q (snd (row_Scan env [int64_type] row (snd (QueryRow env (build_raw [COUNT, WHERE] s)))))"
    if "on_db Q s" for row s
    by (intro row_Scan_on_db QueryRow_on_db assms) (simp add: that)
  then have "keeps (on_db Q) (\<lambda>s. let (row, s1) = QueryRow env (build_raw [COUNT, WHERE] s);
           (r, s2) = row_Scan env [int64_type] row s1
       in case r of
            Inl err \<Rightarrow> (Ret (0, Some err), s2)
          | Inr vs \<Rightarrow> (Ret (case vs of VInt n # _ \<Rightarrow> n | _ \<Rightarrow> 0, None), s2))"
    by (auto simp: keeps_def Let_def split_beta split: sum.splits)
  then show ?thesis unfolding Count_def by (intro keeps)
qed

lemma find_loop_keeps [keeps]:
  assumes "db_kept env Q" and "hooks_keep env (on_db Q)"
  shows "keeps (on_db Q) (find_loop env st names rows rs out)"
proof (induction rs arbitrary: out)
  case Nil
  show ?case by (simp add: keeps_def close_rows_on_db [OF assms(1)])
next
  case (Cons r rs)
  have loop: "on_db Q (snd (case w_heap s' a of None \<Rightarrow> (Panic nil_deref, s')
      | Some ob' \<Rightarrow> find_loop env st names rows rs (out @ [ob']) s'))" if "on_db Q s'" for s' a
    using that Cons.IH by (auto simp: keeps_def split: option.splits)
  have hook: "keeps (on_db Q) (bindS (CallMethod env ''AfterQuery'' (Some (PtrTo a))) (\<lambda>_ s'.
      case w_heap s' a of None \<Rightarrow> (Panic nil_deref, s')
      | Some ob' \<Rightarrow> find_loop env st names rows rs (out @ [ob']) s'))" for a
    by (intro keeps_bindS CallMethod_keeps assms(2)) (simp_all add: loop keeps_def)
  have new: "on_db Q (s\<lparr>w_heap := h, w_next := n\<rparr>) = on_db Q s" for s :: "'a session" and h n
    by (simp add: on_db_def)
  have body: "keeps (on_db Q) (\<lambda>s. case oe_Scan env types r of
         Inl err \<Rightarrow> (Ret (Some err, out), s)
       | Inr vs \<Rightarrow>
           (let a = w_next s; ob = assign_fields names vs (zero_obj env st) in
            bindS (CallMethod env ''AfterQuery'' (Some (PtrTo a))) (\<lambda>_ s'.
              case w_heap s' a of
                None \<Rightarrow> (Panic nil_deref, s')
              | Some ob' \<Rightarrow> find_loop env st names rows rs (out @ [ob']) s')
            (s\<lparr>w_heap := (w_heap s)(a \<mapsto> ob), w_next := Suc a\<rparr>)))" for types
  proof (cases "oe_Scan env types r")
    case (Inr vs)
    then show ?thesis by (simp add: keeps_def Let_def new keeps_app [OF hook])
  qed (simp add: keeps_def)
  note keeps_bindS [OF keeps_pure body, of "\<lambda>_. scan_types st names"]
  then show ?case by (simp only: keeps_def find_loop.simps simp_thms)
qed

lemma Find_keeps [keeps]:
  assumes "db_kept env Q" and "hooks_keep env (on_db Q)"
  shows "keeps (on_db Q) (Find env st out)"
proof -
  have "keeps (on_db Q) (\<lambda>s. case QueryRows env (build_raw orders s) of
         (Inl err, s') \<Rightarrow> (Ret (Some err, out), s')
       | (Inr rows, s') \<Rightarrow> find_loop env st names rows (rows_data rows) out s')" for orders names
  proof (rule keepsI)
    fix s r s' assume s: "on_db Q s" and e: "(case QueryRows env (build_raw orders s) of
         (Inl err, s') \<Rightarrow> (Ret (Some err, out), s')
       | (Inr rows, s') \<Rightarrow> find_loop env st names rows (rows_data rows) out s') = (r, s')"
    obtain x s1 where x: "QueryRows env (build_raw orders s) = (x, s1)" by fastforce
    with QueryRows_on_db [OF assms(1), of "build_raw orders s"] s have "on_db Q s1" by simp
    with e x show "on_db Q s'" by (cases x) (auto dest: keepsD [OF find_loop_keeps [OF assms]])
  qed
  then show ?thesis unfolding Find_def by (intro keeps CallMethod_keeps assms(2)) simp_all
qed

lemma First_keeps [keeps]:
  assumes "db_kept env Q" and "hooks_keep env (on_db Q)"
  shows "keeps (on_db Q) (First env a)"
proof -
  have "keeps (on_db Q) (bindS (Limit env 1) (\<lambda>_. bindS (Find env st []) (\<lambda>(e, out) s'.
            case e of
              Some err \<Rightarrow> (Ret (Some err), s')
            | None \<Rightarrow>
                (case out of
                   [] \<Rightarrow> (Ret (Some ''NOT FOUND''), s')
                 | ob' # _ \<Rightarrow> (Ret None, s'\<lparr>w_heap := (w_heap s')(a \<mapsto> ob')\<rparr>)))))" for st
    unfolding Limit_def
    by (intro keeps assms) (auto simp: keeps_def on_db_def split: option.splits list.splits prod.splits)
  then show ?thesis by (auto simp: First_def keeps_def split: option.splits)
qed

section \<open>Migration\<close>

lemma add_columns_keeps [keeps]: "db_kept env Q \<Longrightarrow> keeps (on_db Q) (add_columns env table cols)"
proof (induction cols)
  case (Cons col cols)
  then have "keeps (on_db Q) (bindS (\<lambda>s. exec_error env (Raw q [] s)) (\<lambda>e.
      case e of Some err \<Rightarrow> retS (Some err) | None \<Rightarrow> add_columns env table cols))" for q
    by (intro keeps) simp_all
  note step = this
  show ?case
  proof (cases "GetField table col")
    case (Some f)
    with step [of "add_column_sql table f"] show ?thesis by (simp add: keeps_def)
  qed (simp add: keeps_def)
qed (simp add: keeps)

lemma rebuild_table_keeps [keeps]: "db_kept env Q \<Longrightarrow> keeps (on_db Q) (rebuild_table env table)"
  by (simp add: keeps_def rebuild_table_def exec_error_snd Exec_on_db)

lemma migrate_existing_keeps [keeps]:
  assumes "db_kept env Q"
  shows "keeps (on_db Q) (migrate_existing env table)"
proof (rule keepsI)
  fix s r s' assume s: "on_db Q s" and e: "migrate_existing env table s = (r, s')"
  let ?q = "Raw (''SELECT * FROM '' @ sch_Name table @ '' LIMIT 1'') [] s"
  obtain x s1 where x: "QueryRows env ?q = (x, s1)" by fastforce
  with QueryRows_on_db [OF assms, of ?q] s have s1: "on_db Q s1" by simp
  have "keeps (on_db Q) (bindS (add_columns env table add) (\<lambda>e. case e of Some err \<Rightarrow> retS (Some err)
       | None \<Rightarrow> if del = [] then retS None else rebuild_table env table))" for add and del :: "string list"
    by (intro keeps assms)
  from keepsD [OF this _ ] s1 have after: "on_db Q (snd (bindS (add_columns env table add) (\<lambda>e. case e of Some err \<Rightarrow> retS (Some err)
       | None \<Rightarrow> if del = [] then retS None else rebuild_table env table) (log_add l s1)))"
    for add and del :: "string list" and l by (metis on_db_log_add prod.collapse)
  show "on_db Q s'"
  proof (cases x)
    case (Inl err)
    with e x s1 show ?thesis by (simp add: migrate_existing_def)
  next
    case (Inr rows)
    have "s' = snd (migrate_existing env table s)" using e by simp
    with after show ?thesis by (simp only: migrate_existing_def x Inr Let_def prod.case sum.case)
  qed
qed

lemma migrate_body_keeps [keeps]:
  assumes "db_kept env Q"
  shows "keeps (on_db Q) (migrate_body env v)"
proof -
  have "keeps (on_db Q) (\<lambda>s. if \<not> has then CreateTable env (log_add l s) else migrate_existing env table s)"
    for has l table
    by (cases has) (simp_all add: keeps assms keeps_after)
  then show ?thesis unfolding migrate_body_def by (intro keeps assms)
qed

section \<open>Atomicity\<close>

text \<open>
  What the code relies on of transactions of a database: \<open>committed\<close> is the state that other
  connections see, \<open>view t\<close> the state that the transaction \<open>t\<close> sees.
\<close>

definition tx_laws :: "'db orm_env \<Rightarrow> ('db \<Rightarrow> 'c) \<Rightarrow> (nat \<Rightarrow> 'db \<Rightarrow> 'c) \<Rightarrow> bool" where
  "tx_laws env committed view \<longleftrightarrow>
     (\<forall>db. committed (snd (oe_Begin env db)) = committed db)
     \<and> (\<forall>db t db'. oe_Begin env db = (Inr t, db') \<longrightarrow> view t db' = committed db)
     \<and> (\<forall>t sql vs db. committed (snd (oe_Exec env (OnTx t) sql vs db)) = committed db
          \<and> committed (snd (oe_Query env (OnTx t) sql vs db)) = committed db)
     \<and> (\<forall>i db. committed (snd (oe_Close env i db)) = committed db)
     \<and> (\<forall>t db db'. oe_Commit env t db = (None, db') \<longrightarrow> committed db' = view t db)
     \<and> (\<forall>t db err db'. oe_Commit env t db = (Some err, db') \<longrightarrow> committed db' = committed db)
     \<and> (\<forall>t db. committed (snd (oe_Rollback env t db)) = committed db)"

definition in_tx :: "('db \<Rightarrow> 'c) \<Rightarrow> nat \<Rightarrow> 'c \<Rightarrow> nat option \<Rightarrow> 'db \<Rightarrow> bool" where
  "in_tx committed t c tx db \<longleftrightarrow> tx = Some t \<and> committed db = c"

lemma in_tx_kept: "tx_laws env committed view \<Longrightarrow> db_kept env (in_tx committed t c)"
  by (simp add: tx_laws_def db_kept_def in_tx_def)

lemma Begin_cases:
  assumes "tx_laws env committed view" and "Begin env s = (r, s')"
  shows "committed (w_db s') = committed (w_db s)"
    and "r = None \<Longrightarrow> \<exists>t. ss_tx s' = Some t \<and> view t (w_db s') = committed (w_db s)"
    and "w_heap s' = w_heap s" and "ss_refTable s' = ss_refTable s" and "ss_dialect s' = ss_dialect s"
    and "ss_sql s' = ss_sql s" and "ss_vars s' = ss_vars s" and "ss_clause s' = ss_clause s"
    and "stmts (w_log s') = stmts (w_log s)"
proof -
  obtain x db where b: "oe_Begin env (w_db s) = (x, db)" by fastforce
  moreover from assms(1) b have "committed db = committed (w_db s)"
    unfolding tx_laws_def by (metis snd_conv)
  moreover from assms(1) b have "x = Inr t \<Longrightarrow> view t db = committed (w_db s)" for t
    unfolding tx_laws_def by blast
  ultimately show "committed (w_db s') = committed (w_db s)"
    and "r = None \<Longrightarrow> \<exists>t. ss_tx s' = Some t \<and> view t (w_db s') = committed (w_db s)"
    and "w_heap s' = w_heap s" and "ss_refTable s' = ss_refTable s" and "ss_dialect s' = ss_dialect s"
    and "ss_sql s' = ss_sql s" and "ss_vars s' = ss_vars s" and "ss_clause s' = ss_clause s"
    and "stmts (w_log s') = stmts (w_log s)"
    using assms(2) by (auto simp: Begin_def Let_def split: sum.splits)
qed

lemma end_tx_some:
  assumes "ss_tx s = Some t" and "finish t (w_db s) = (e, db)"
  shows "\<exists>s'. end_tx msg finish s = (Ret e, s') \<and> w_db s' = db \<and> w_heap s' = w_heap s
           \<and> stmts (w_log s') = stmts (w_log s)"
  using assms by (auto simp: end_tx_def Let_def split: option.splits)

text \<open>How a transaction ends, given how the function ends on the session that has begun one.\<close>

lemma tx_defer_cases:
  assumes laws: "tx_laws env committed view" and tx: "ss_tx s = Some t"
    and c: "committed (w_db s) = c" and d: "tx_defer env out s = (out', s')"
  shows "stmts (w_log s') = stmts (w_log s) \<and> (case out of
           Panic p \<Rightarrow> out' = Panic p \<and> committed (w_db s') = c
         | Ret (res, Some err) \<Rightarrow> out' = Ret (res, Some err) \<and> committed (w_db s') = c
         | Ret (res, None) \<Rightarrow>
             (out' = Ret (res, None) \<and> committed (w_db s') = view t (w_db s))
             \<or> (\<exists>err. out' = Ret (res, Some err) \<and> committed (w_db s') = c))"
proof -
  obtain e db where rb: "oe_Rollback env t (w_db s) = (e, db)" by fastforce
  obtain sr where sr: "Rollback env s = (Ret e, sr)" "w_db sr = db" "stmts (w_log sr) = stmts (w_log s)"
    using end_tx_some [of s t "oe_Rollback env", OF tx rb] unfolding Rollback_def by blast
  have rolled: "committed db = c" using laws c rb unfolding tx_laws_def by (metis snd_conv)
  obtain e' db' where cm: "oe_Commit env t (w_db s) = (e', db')" by fastforce
  obtain sc where sc: "Commit env s = (Ret e', sc)" "w_db sc = db'" "stmts (w_log sc) = stmts (w_log s)"
    using end_tx_some [of s t "oe_Commit env", OF tx cm] unfolding Commit_def by blast
  have com: "case e' of None \<Rightarrow> committed db' = view t (w_db s) | Some err \<Rightarrow> committed db' = c"
    using laws c cm by (cases e') (simp_all add: tx_laws_def)
  show ?thesis
  proof (cases out)
    case (Panic p)
    with d sr rolled show ?thesis by (auto simp: tx_defer_def)
  next
    case (Ret x)
    then obtain res err where out: "out = Ret (res, err)" by (cases x) simp
    show ?thesis
    proof (cases err)
      case None
      with d sc com out show ?thesis by (cases e') (auto simp: tx_defer_def retS_def)
    next
      case (Some er)
      with d sr rolled out show ?thesis by (auto simp: tx_defer_def retS_def)
    qed
  qed
qed

lemma Transaction_cases:
  fixes f :: "('db, 'r) tx_func"
  assumes laws: "tx_laws env committed view" and f: "\<And>t c. keeps (on_db (in_tx committed t c)) f"
    and tr: "Transaction env f e = (out, e')"
  shows "case out of
           Ret (res, None) \<Rightarrow>
             \<exists>s0 s1 t. Begin env (NewSession e) = (None, s0) \<and> f s0 = (Ret (res, None), s1)
               \<and> ss_tx s1 = Some t \<and> committed (w_db e') = view t (w_db s1)
         | Ret (res, Some err) \<Rightarrow> committed (w_db e') = committed (w_db e)
         | Panic p \<Rightarrow> committed (w_db e') = committed (w_db e)
             \<and> (\<exists>s0 s1. Begin env (NewSession e) = (None, s0) \<and> f s0 = (Panic p, s1))"
proof -
  obtain r s0 where b: "Begin env (NewSession e) = (r, s0)" by fastforce
  have com0: "committed (w_db s0) = committed (w_db e)"
    using Begin_cases(1) [OF laws b] by (simp add: NewSession_def)
  show ?thesis
  proof (cases r)
    case (Some err)
    with tr b com0 show ?thesis by (auto simp: Transaction_def back_to_def)
  next
    case None
    from Begin_cases(2) [OF laws b None] obtain t where t: "ss_tx s0 = Some t" by blast
    obtain out1 s1 where f1: "f s0 = (out1, s1)" by fastforce
    have "on_db (in_tx committed t (committed (w_db e))) s0" using t com0 by (simp add: on_db_def in_tx_def)
    from keepsD [OF f this f1] have s1: "ss_tx s1 = Some t" "committed (w_db s1) = committed (w_db e)"
      by (simp_all add: on_db_def in_tx_def)
    obtain out2 s2 where d: "tx_defer env out1 s1 = (out2, s2)" by fastforce
    have res: "out = out2" "w_db e' = w_db s2"
      using tr b None f1 d by (auto simp: Transaction_def back_to_def)
    from tx_defer_cases [OF laws s1(1) s1(2) d] b None f1 s1(1) show ?thesis
      unfolding res by (auto split: outcome.splits option.splits prod.splits)
  qed
qed

text \<open>C33: A transaction is atomic.  Whatever function of session operations it runs, what other
  connections see changes only when \<open>Transaction\<close> returns without an error, and then to exactly what
  the transaction saw when the function returned.  After an error of the function, of the begin or
  of the commit nothing has changed; after a panic nothing has changed either, and the same panic
  goes on to the caller.\<close>

theorem Transaction_atomic:
  fixes f :: "('db, 'r) tx_func"
  assumes "tx_laws env committed view" and "\<And>t c. keeps (on_db (in_tx committed t c)) f"
    and "Transaction env f e = (out, e')"
  shows "case out of
           Ret (res, None) \<Rightarrow>
             \<exists>s0 s1 t. Begin env (NewSession e) = (None, s0) \<and> f s0 = (Ret (res, None), s1)
               \<and> ss_tx s1 = Some t \<and> committed (w_db e') = view t (w_db s1)
         | Ret (res, Some err) \<Rightarrow> committed (w_db e') = committed (w_db e)
         | Panic p \<Rightarrow> committed (w_db e') = committed (w_db e)
             \<and> (\<exists>s0 s1. Begin env (NewSession e) = (None, s0) \<and> f s0 = (Panic p, s1))"
  by (rule Transaction_cases [OF assms])

text \<open>A database that remembers the statements it has executed: those committed, and those that the
  transaction sees.  Any query has the answer \<open>rows\<close>.\<close>

definition demo_orm :: "sql_rows \<Rightarrow> (string list \<times> string list) orm_env" where
  "demo_orm rows =
     \<lparr>oe_Exec = (\<lambda>h sql vs (com, now). case h of
         OnDB \<Rightarrow> (Inr (Inr 1), (com @ [sql], now)) | OnTx t \<Rightarrow> (Inr (Inr 1), (com, now @ [sql]))),
      oe_Query = (\<lambda>h sql vs db. (Inr rows, db)), oe_Close = (\<lambda>i db. (None, db)),
      oe_Scan = (\<lambda>types vs. if length types = length vs then Inr vs else Inl ''sql: expected other destinations''),
      oe_Begin = (\<lambda>(com, now). (Inr 0, (com, com))), oe_Commit = (\<lambda>t (com, now). (None, (now, now))),
      oe_Rollback = (\<lambda>t (com, now). (None, (com, com))),
      oe_zero = (\<lambda>t. VNil), oe_iter = (\<lambda>m. m), oe_hooks = (\<lambda>ptr T m. None)\<rparr>"

lemma demo_orm_laws: "tx_laws (demo_orm rows) fst (\<lambda>t. snd)"
  by (auto simp: tx_laws_def demo_orm_def split: prod.splits)

definition demo_engine :: "obj_heap \<Rightarrow> (string list \<times> string list) engine" where
  "demo_engine heap = \<lparr>w_db = ([], []), w_heap = heap, w_next = 100, w_log = [], eng_dialect = sqlite3\<rparr>"

definition no_rows :: sql_rows where
  "no_rows = \<lparr>rows_id = 0, rows_Columns = [], rows_data = [], rows_Err = None\<rparr>"

text \<open>A function that creates a table and then returns an error of its own.\<close>

theorem Transaction_atomic_witness:
  "\<exists>e'. Transaction (demo_orm no_rows)
      (bindS (\<lambda>s. exec_error (demo_orm no_rows) (Raw ''CREATE TABLE User(Name text);'' [] s)) (\<lambda>_. retS (None :: unit option, Some ''Error'')))
      (demo_engine (\<lambda>_. None)) = (Ret (None, Some ''Error''), e') \<and> w_db e' = ([], [])"
proof -
  let ?f = "bindS (\<lambda>s. exec_error (demo_orm no_rows) (Raw ''CREATE TABLE User(Name text);'' [] s)) (\<lambda>_. retS (None :: unit option, Some ''Error''))"
  have keeps: "keeps (on_db (in_tx fst t c)) ?f" for t and c :: "string list"
    by (intro keeps in_tx_kept [OF demo_orm_laws])
  obtain out e' where tr: "Transaction (demo_orm no_rows) ?f (demo_engine (\<lambda>_. None)) = (out, e')" by fastforce
  have out: "out = Ret (None, Some ''Error'') \<and> snd (w_db e') = []"
    using tr by (auto simp: Transaction_def Begin_def Let_def bindS_def exec_error_def Exec_def retS_def tx_defer_def
        Rollback_def end_tx_def demo_orm_def demo_engine_def NewSession_def back_to_def log_add_def
        session_new_def session_DB_def Raw_def Clear_def)
  with Transaction_atomic [OF demo_orm_laws keeps tr] have "fst (w_db e') = []"
    by (simp add: demo_engine_def)
  with tr out show ?thesis by (auto simp: prod_eq_iff)
qed

end
