(* ===== verification/Statements.thy ===== *)
theory Statements
  imports TxKeeps
begin

text \<open>
  The statements that the operations of a session send to the database.  Every statement has as many
  placeholders as it is given values, in every sequence of operations; what \<open>Insert\<close>, \<open>Delete\<close> and
  \<open>Find\<close> send and return; and what happens on a session that has no model yet, or whose hooks use
  the session themselves.
\<close>

section \<open>As many placeholders as values\<close>

text \<open>The names of a struct type that the code puts into statements are identifiers.\<close>

definition plain_type :: "struct_type \<Rightarrow> bool" where
  "plain_type st \<longleftrightarrow> placeholders (st_Name st) = 0 \<and> (\<forall>p \<in> set (columns st). placeholders (sf_Name p) = 0)"

definition schema_for :: "obj_heap \<Rightarrow> schema \<Rightarrow> bool" where
  "schema_for heap t \<longleftrightarrow>
     (\<exists>ob. Indirect heap (sch_Model t) = Some ob \<and> plain_type (o_type ob)
        \<and> sch_Name t = st_Name (o_type ob) \<and> schema_ok t
        \<and> list_all2 (field_of sqlite3) (columns (o_type ob)) (sch_Fields t))"

text \<open>The invariant of a session: what is being built is bound, and so is all that was executed; the
  schema fits the type of the model.  \<open>types\<close> are objects whose type is known; Go never changes the
  type of an object.\<close>

definition stmt_inv :: "(nat \<rightharpoonup> struct_type) \<Rightarrow> 'db session \<Rightarrow> bool" where
  "stmt_inv types s \<longleftrightarrow>
     bound (ss_sql s, ss_vars s) \<and> clause_bound (ss_clause s) \<and> (\<forall>p \<in> set (stmts (w_log s)). bound p)
     \<and> ss_dialect s = sqlite3
     \<and> (\<forall>a ob. w_heap s a = Some ob \<longrightarrow> a < w_next s \<and> plain_type (o_type ob))
     \<and> (\<forall>a st. types a = Some st \<longrightarrow> (\<exists>ob. w_heap s a = Some ob \<and> o_type ob = st))
     \<and> (\<forall>t. ss_refTable s = Some t \<longrightarrow> schema_for (w_heap s) t)"

lemma schema_for_plain:
  assumes "schema_for heap t"
  shows "placeholders (sch_Name t) = 0" and "\<forall>f \<in> set (sch_FieldNames t). placeholders f = 0"
    and "placeholders (create_sql t) = 0"
proof -
  obtain ob :: obj where ob: "plain_type (o_type ob)" "sch_Name t = st_Name (o_type ob)" "schema_ok t"
    "list_all2 (field_of sqlite3) (columns (o_type ob)) (sch_Fields t)"
    using assms unfolding schema_for_def by blast
  then show name: "placeholders (sch_Name t) = 0" by (simp add: plain_type_def)
  have names: "sch_FieldNames t = map sf_Name (columns (o_type ob))"
    using ob(3) field_of_names [OF ob(4)] by (simp add: schema_ok_def)
  with ob(1) show "\<forall>f \<in> set (sch_FieldNames t). placeholders f = 0" by (simp add: plain_type_def)
  have "placeholders (f_Name f) = 0 \<and> placeholders (f_Type f) = 0" if "f \<in> set (sch_Fields t)" for f
  proof -
    from that ob(4) obtain p where p: "p \<in> set (columns (o_type ob))" "field_of sqlite3 p f"
      by (metis in_set_conv_nth list_all2_conv_all_nth)
    with ob(1) sqlite.data_type_placeholders [of "sf_Type p" "f_Type f"] show ?thesis
      by (simp add: plain_type_def field_of_def sqlite3_def)
  qed
  with name show "placeholders (create_sql t) = 0"
    by (simp add: create_sql_def placeholders_join o_def)
qed

lemma stmt_inv_log [simp]:
  "stmt_inv types (log_add (LogInfo m) s) = stmt_inv types s"
  "stmt_inv types (log_add (LogError m) s) = stmt_inv types s"
  by (simp_all add: stmt_inv_def)

lemma stmt_inv_db [simp]: "stmt_inv types (s\<lparr>w_db := db\<rparr>) = stmt_inv types s"
  by (simp add: stmt_inv_def)

lemma stmt_inv_Raw: "stmt_inv types s \<Longrightarrow> bound (q, vs) \<Longrightarrow> stmt_inv types (Raw q vs s)"
  by (simp add: stmt_inv_def)

lemma stmt_inv_sent: "stmt_inv types s \<Longrightarrow> sent_by s s' \<Longrightarrow> stmt_inv types s'"
  by (simp add: stmt_inv_def sent_by_def)

lemma stmt_inv_build: "stmt_inv types s \<Longrightarrow> stmt_inv types (build_raw orders s)"
  using clause_Build_bound [of "ss_clause s" orders]
  by (auto simp: build_raw_def split: prod.splits intro!: stmt_inv_Raw) (auto simp: stmt_inv_def)

lemma stmt_inv_row_Scan: "stmt_inv types (snd (row_Scan env ts row s)) = stmt_inv types s"
  using row_Scan_db [of env ts row s] by auto

lemma table_of_Ret: "table_of s = (Ret t, s') \<longleftrightarrow> ss_refTable s = Some t \<and> s' = s"
  by (auto simp: table_of_def RefTable_def split: option.splits)

text \<open>An operation that reads the schema first: it may use that the schema is plain.\<close>

lemma keeps_with_table:
  assumes "\<And>t s. stmt_inv types s \<Longrightarrow> ss_refTable s = Some t \<Longrightarrow> stmt_inv types (snd (k t s))"
  shows "keeps (stmt_inv types) (bindS table_of k)"
proof (rule keepsI)
  fix s r s' assume s: "stmt_inv types s" and b: "bindS table_of k s = (r, s')"
  show "stmt_inv types s'"
  proof (cases "ss_refTable s")
    case None
    with s b show ?thesis by (auto simp: bindS_def table_of_def RefTable_def)
  next
    case (Some t)
    then have "table_of s = (Ret t, s)" by (simp add: table_of_Ret)
    with b assms [OF s Some] show ?thesis by simp
  qed
qed

lemma set_clause_inv:
  assumes "stmt_inv types s" and "\<And>p. generators (oe_iter env) t vs = Ret p \<Longrightarrow> bound p"
  shows "stmt_inv types (snd (set_clause env t vs s))"
proof (cases "clause_Set (oe_iter env) t vs (ss_clause s)")
  case (Ret c)
  with assms clause_Set_bound [of "ss_clause s" "oe_iter env" t vs c] have "clause_bound c"
    by (simp add: stmt_inv_def)
  with Ret assms(1) show ?thesis by (simp add: set_clause_def stmt_inv_def)
qed (use assms in \<open>simp add: set_clause_def\<close>)

lemma session_Model_inv:
  assumes inv: "stmt_inv types s" and v: "\<And>ob. v = StructVal ob \<Longrightarrow> plain_type (o_type ob)"
  shows "stmt_inv types (snd (session_Model v s))"
    and "session_Model v s = (Ret (), s') \<Longrightarrow>
           \<exists>t ob. ss_refTable s' = Some t \<and> Indirect (w_heap s) v = Some ob \<and> w_heap s' = w_heap s
             \<and> w_db s' = w_db s \<and> w_log s' = w_log s
             \<and> list_all2 (field_of sqlite3) (columns (o_type ob)) (sch_Fields t)"
proof -
  have new: "schema_for (w_heap s) t" if "Parse (w_heap s) v (ss_dialect s) = Ret t" for t
  proof -
    from Parse_Ret [OF that] inv obtain ob where ob: "Indirect (w_heap s) v = Some ob" "sch_Model t = v"
      "sch_Name t = st_Name (o_type ob)" "list_all2 (field_of sqlite3) (columns (o_type ob)) (sch_Fields t)" "schema_ok t"
      by (auto simp: stmt_inv_def)
    moreover have "plain_type (o_type ob)"
      using ob(1) inv v by (cases v) (auto simp: stmt_inv_def)
    ultimately show ?thesis by (auto simp: schema_for_def)
  qed
  with inv show inv': "stmt_inv types (snd (session_Model v s))"
    by (auto simp: session_Model_def stmt_inv_def split: option.splits outcome.splits)
  assume m: "session_Model v s = (Ret (), s')"
  from m obtain t where t: "ss_refTable s' = Some t" and s': "w_heap s' = w_heap s" "w_db s' = w_db s" "w_log s' = w_log s"
    and ty: "TypeOf (w_heap s) v = TypeOf (w_heap s) (sch_Model t)"
    by (auto simp: session_Model_def dest!: Parse_Ret split: option.splits outcome.splits if_splits)
  from inv' m t s' have "schema_for (w_heap s) t" by (simp add: stmt_inv_def)
  then obtain ob' where ob': "Indirect (w_heap s) (sch_Model t) = Some ob'"
    "list_all2 (field_of sqlite3) (columns (o_type ob')) (sch_Fields t)" by (auto simp: schema_for_def)
  with ty obtain ob where "Indirect (w_heap s) v = Some ob" "o_type ob = o_type ob'"
    by (auto simp: TypeOf_def)
  with t s' ob' show "\<exists>t ob. ss_refTable s' = Some t \<and> Indirect (w_heap s) v = Some ob \<and> w_heap s' = w_heap s
             \<and> w_db s' = w_db s \<and> w_log s' = w_log s
             \<and> list_all2 (field_of sqlite3) (columns (o_type ob)) (sch_Fields t)"
    by auto
qed

lemma stmt_inv_CallMethod:
  assumes "hooks_keep env (stmt_inv types)"
  shows "keeps (stmt_inv types) (CallMethod env m v)"
proof (rule keepsI)
  fix s r s' assume s: "stmt_inv types s" and c: "CallMethod env m v s = (r, s')"
  show "stmt_inv types s'"
  proof (cases "ss_refTable s")
    case None
    with s c show ?thesis by (auto simp: CallMethod_def bindS_def table_of_def RefTable_def)
  next
    case (Some t)
    then have t: "table_of s = (Ret t, s)" by (simp add: table_of_Ret)
    let ?target = "case v of Some v \<Rightarrow> v | None \<Rightarrow> sch_Model t"
    show ?thesis
    proof (cases "find_method env ?target m s")
      case None
      with s c t show ?thesis by (simp add: CallMethod_def)
    next
      case (Some hook)
      with assms have "keeps (stmt_inv types) (hook ?target)"
        by (auto simp: find_method_def hooks_keep_def split: prod.splits option.splits)
      then have "keeps (stmt_inv types) (bindS (hook ?target)
          (\<lambda>e s'. case e of Some err \<Rightarrow> (Panic err, s') | None \<Rightarrow> (Ret (), s')))"
        by (intro keeps_bindS) (auto simp: keeps_def split: option.splits)
      from keepsD [OF this s] c t Some show ?thesis by (simp add: CallMethod_def Let_def)
    qed
  qed
qed

lemma exec_error_inv: "stmt_inv types s \<Longrightarrow> stmt_inv types (snd (exec_error env s))"
  using Exec_sent(1) [of env s] stmt_inv_sent [of types s] by (cases "Exec env s") (auto simp: exec_error_snd)

lemma exec_then_inv:
  assumes "hooks_keep env (stmt_inv types)"
  shows "keeps (stmt_inv types) (exec_then env orders after)"
proof (rule keepsI)
  fix s r s' assume s: "stmt_inv types s" and e: "exec_then env orders after s = (r, s')"
  obtain x s1 where x: "Exec env (build_raw orders s) = (x, s1)" by fastforce
  from stmt_inv_sent [OF stmt_inv_build [OF s] Exec_sent(1) [OF x]] have s1: "stmt_inv types s1" .
  have "keeps (stmt_inv types) (bindS (CallMethod env after None) (\<lambda>_. retS (rows_affected res)))" for res
    by (intro keeps stmt_inv_CallMethod assms)
  with e x s1 show "stmt_inv types s'" by (cases x) (auto simp: exec_then_def dest: keepsD)
qed

text \<open>The type of a value that \<open>Insert\<close> is given.\<close>

fun value_of_type :: "(nat \<rightharpoonup> struct_type) \<Rightarrow> struct_type \<Rightarrow> dest \<Rightarrow> bool" where
  "value_of_type types st (PtrTo a) = (types a = Some st)"
| "value_of_type types st (StructVal ob) = (o_type ob = st \<and> plain_type st)"

lemma value_of_type_Indirect:
  "stmt_inv types s \<Longrightarrow> value_of_type types st v \<Longrightarrow>
     \<exists>ob. Indirect (w_heap s) v = Some ob \<and> o_type ob = st"
  by (cases v) (auto simp: stmt_inv_def)

lemma bindS_cases:
  assumes "bindS m k s = (r, s')"
  obtains (Panic) p where "m s = (Panic p, s')" "r = Panic p"
    | (Ret) a s1 where "m s = (Ret a, s1)" "k a s1 = (r, s')"
  using assms by (cases "m s"; cases "fst (m s)") (auto simp: bindS_def)

text \<open>All rows that \<open>Insert\<close> collects from values of one type have the same length.\<close>

lemma insert_loop_inv:
  assumes "stmt_inv types s" and "hooks_keep env (stmt_inv types)"
    and "\<forall>v \<in> set vs. value_of_type types st v"
    and "insert_loop env vs (map VRow acc) s = (r, s')" and "\<forall>x \<in> set acc. length x = length (columns st)"
  shows "stmt_inv types s' \<and>
     (\<forall>rows. r = Ret rows \<longrightarrow> (\<exists>rs. rows = map VRow rs \<and> (\<forall>x \<in> set rs. length x = length (columns st))))"
  using assms
proof (induction vs arbitrary: s acc)
  case Nil
  then show ?case by (auto simp: retS_def)
next
  case (Cons v vs)
  have v: "value_of_type types st v" using Cons.prems(3) by simp
  note hook = keepsD [OF stmt_inv_CallMethod [OF Cons.prems(2)] Cons.prems(1)]
  from Cons.prems(4)[unfolded insert_loop.simps] show ?case
  proof (cases rule: bindS_cases)
    case (Panic p)
    then show ?thesis using hook by blast
  next
    case (Ret u s1)
    with hook have s1: "stmt_inv types s1" by blast
    have plain: "plain_type (o_type ob)" if "v = StructVal ob" for ob using v that by auto
    note model = session_Model_inv [OF s1 plain]
    from Ret(2) show ?thesis
    proof (cases rule: bindS_cases)
      case (Panic p)
      then show ?thesis using model(1) by (metis outcome.distinct(1) snd_conv)
    next
      case (Ret u' s2)
      then have m: "session_Model v s1 = (Ret (), s2)" by simp
      from model(1) m have s2: "stmt_inv types s2" by (metis snd_conv)
      from model(2) [OF _ m] obtain t ob where t: "ss_refTable s2 = Some t"
        and ob: "Indirect (w_heap s1) v = Some ob" "w_heap s2 = w_heap s1"
        and fields: "list_all2 (field_of sqlite3) (columns (o_type ob)) (sch_Fields t)" by blast
      from value_of_type_Indirect [OF s2 v] ob have ty: "o_type ob = st" by auto
      have tab: "table_of s2 = (Ret t, s2)" using t by (simp add: table_of_Ret)
      have plain: "schema_for (w_heap s2) t" using s2 t by (simp add: stmt_inv_def)
      let ?set = "set_clause env INSERT [VStr (sch_Name t), VStrs (sch_FieldNames t)]"
      have set: "stmt_inv types (snd (?set s2))"
        by (rule set_clause_inv [OF s2]) (rule generators_bound(1), assumption, (rule schema_for_plain [OF plain])+)
      from Ret(2) have "bindS ?set (\<lambda>_. bindS (\<lambda>s. (RecordValues (w_heap s) t v, s))
          (\<lambda>r. insert_loop env vs (map VRow acc @ [VRow r]))) s2 = (r, s')"
        by (simp add: tab)
      then show ?thesis
      proof (cases rule: bindS_cases)
        case (Panic p)
        then show ?thesis using set by auto
      next
        case (Ret u3 s3)
        with set have s3: "stmt_inv types s3" by auto
        from Ret(2) show ?thesis
        proof (cases rule: bindS_cases)
          case (Panic p)
          then show ?thesis using s3 by auto
        next
          case (Ret row s4)
          then have row: "length row = length (columns st)" and s4: "s4 = s3"
            using RecordValues_length list_all2_lengthD [OF fields] ty by auto
          from Ret(2) have loop: "insert_loop env vs (map VRow (acc @ [row])) s3 = (r, s')" by (simp add: s4)
          show ?thesis
            by (rule Cons.IH [OF s3 Cons.prems(2) _ loop]) (use Cons.prems(3,5) row in auto)
        qed
      qed
    qed
  qed
qed

lemma Insert_inv:
  assumes "stmt_inv types s" and "hooks_keep env (stmt_inv types)" and "\<forall>v \<in> set vs. value_of_type types st v"
  shows "stmt_inv types (snd (Insert env vs s))"
proof -
  obtain r s' where i: "Insert env vs s = (r, s')" by fastforce
  from i[unfolded Insert_def] have "stmt_inv types s'"
  proof (cases rule: bindS_cases)
    case (Panic p)
    with insert_loop_inv [OF assms, of "[]"] show ?thesis by auto
  next
    case (Ret rows s1)
    from insert_loop_inv [OF assms, of "[]"] Ret(1) obtain rs where s1: "stmt_inv types s1"
      and rs: "rows = map VRow rs" "\<forall>x \<in> set rs. length x = length (columns st)" by fastforce
    have set: "stmt_inv types (snd (set_clause env VALUES rows s1))"
      by (rule set_clause_inv [OF s1]) (use rs gen_values_bound in auto)
    from Ret(2) show ?thesis
    proof (cases rule: bindS_cases)
      case (Panic p)
      with set show ?thesis by simp
    next
      case (Ret u s2)
      with set show ?thesis by (auto dest: keepsD [OF exec_then_inv [OF assms(2)]])
    qed
  qed
  with i show ?thesis by simp
qed

text \<open>Setting a clause from the schema, then an operation.\<close>

lemma keeps_table_clause:
  fixes env :: "'a orm_env"
  assumes "\<And>h t p. schema_for h t \<Longrightarrow> generators (oe_iter env) ct (args t) = Ret p \<Longrightarrow> bound p"
    and "\<And>t. keeps (stmt_inv types) (k t)"
  shows "keeps (stmt_inv types) (bindS table_of (\<lambda>t. bindS (set_clause env ct (args t)) (\<lambda>_. k t)))"
proof (rule keeps_with_table)
  fix t and s :: "'a session"
  assume s: "stmt_inv types s" and t: "ss_refTable s = Some t"
  then have "schema_for (w_heap s) t" by (simp add: stmt_inv_def)
  with set_clause_inv [OF s] assms(1) have set: "stmt_inv types (snd (set_clause env ct (args t) s))" by blast
  show "stmt_inv types (snd (bindS (set_clause env ct (args t)) (\<lambda>_. k t) s))"
    using set keeps_app [OF assms(2)]
    by (cases "set_clause env ct (args t) s"; cases "fst (set_clause env ct (args t) s)") auto
qed

lemma Update_inv:
  assumes "hooks_keep env (stmt_inv types)"
    and "\<And>m. kv_map kv = Ret m \<Longrightarrow> \<forall>(k, v) \<in> set (oe_iter env m). placeholders k = 0"
  shows "keeps (stmt_inv types) (Update env kv)"
proof -
  have "keeps (stmt_inv types) (bindS (\<lambda>s. (kv_map kv, s)) (\<lambda>m. bindS table_of (\<lambda>t.
      bindS (set_clause env UPDATE [VStr (sch_Name t), VMap m]) (\<lambda>_. exec_then env [UPDATE, WHERE] ''AfterUpdate''))))"
  proof (cases "kv_map kv")
    case (Ret m)
    have "keeps (stmt_inv types) (bindS table_of (\<lambda>t. bindS (set_clause env UPDATE [VStr (sch_Name t), VMap m])
        (\<lambda>_. exec_then env [UPDATE, WHERE] ''AfterUpdate'')))"
      by (rule keeps_table_clause [OF _ exec_then_inv [OF assms(1)]])
        (use gen_update_bound [of "oe_iter env" _ m] schema_for_plain(1) assms(2) [OF Ret] in auto)
    with Ret show ?thesis by (simp add: keeps_def bindS_def)
  qed (simp add: keeps_def bindS_def)
  from keeps_bindS [OF stmt_inv_CallMethod [OF assms(1)] this] show ?thesis unfolding Update_def .
qed

lemma Delete_inv:
  assumes "hooks_keep env (stmt_inv types)"
  shows "keeps (stmt_inv types) (Delete env)"
  unfolding Delete_def
  by (intro keeps_bindS stmt_inv_CallMethod assms keeps_table_clause exec_then_inv)
    (rule generators_bound(4), assumption, rule schema_for_plain(1))

lemma QueryRow_inv: "stmt_inv types s \<Longrightarrow> stmt_inv types (snd (QueryRow env s))"
  using QueryRow_sent(1) [of env s] stmt_inv_sent by (cases "QueryRow env s") auto

lemma Count_inv: "keeps (stmt_inv types) (Count env)"
  unfolding Count_def
proof (rule keeps_table_clause)
  fix t :: schema
  show "keeps (stmt_inv types) (\<lambda>s. let (row, s1) = QueryRow env (build_raw [COUNT, WHERE] s);
           (r, s2) = row_Scan env [int64_type] row s1
       in case r of
            Inl err \<Rightarrow> (Ret (0, Some err), s2)
          | Inr vs \<Rightarrow> (Ret (case vs of VInt n # _ \<Rightarrow> n | _ \<Rightarrow> 0, None), s2))"
    by (auto simp: keeps_def Let_def split_beta stmt_inv_row_Scan split: sum.splits
        intro!: QueryRow_inv stmt_inv_build)
qed (rule generators_bound(3), assumption, rule schema_for_plain(1))

lemma CreateTable_inv: "keeps (stmt_inv types) (CreateTable env)"
  unfolding CreateTable_def
  by (rule keeps_with_table, rule exec_error_inv, rule stmt_inv_Raw)
    (auto simp: stmt_inv_def schema_for_plain(3))

lemma DropTable_inv: "keeps (stmt_inv types) (DropTable env)"
  unfolding DropTable_def
  by (rule keeps_with_table, rule exec_error_inv, rule stmt_inv_Raw)
    (auto simp: stmt_inv_def schema_for_plain(1))

lemma HasTable_inv: "keeps (stmt_inv types) (HasTable env)"
  unfolding HasTable_def
proof (rule keeps_with_table)
  fix t and s :: "'a session"
  assume s: "stmt_inv types s"
  obtain q vs where q: "TableExistSQL (ss_dialect s) (sch_Name t) = (q, vs)" by fastforce
  obtain row s1 where s1: "QueryRow env (Raw q vs s) = (row, s1)" by fastforce
  obtain r s2 where s2: "row_Scan env [string_type] row s1 = (r, s2)" by fastforce
  have "bound (q, vs)" using q s sqlite.exist_bound [of "sch_Name t"] by (simp add: stmt_inv_def sqlite3_def)
  with QueryRow_inv [OF stmt_inv_Raw [OF s], of q vs env] s1 have "stmt_inv types s1" by simp
  with stmt_inv_row_Scan [of types env "[string_type]" row s1] s2 have inv: "stmt_inv types s2" by simp
  have tab: "keeps (stmt_inv types) (bindS table_of (\<lambda>t. retS (x t)))" for x :: "schema \<Rightarrow> bool"
    by (rule keeps_with_table) (simp add: retS_def)
  from keeps_app [OF tab inv] show "stmt_inv types (snd (let (sql, values) = TableExistSQL (ss_dialect s) (sch_Name t);
           (row, s1) = QueryRow env (Raw sql values s);
           (r, s2) = row_Scan env [string_type] row s1;
           tmp = (case r of Inr (v # _) \<Rightarrow> v | _ \<Rightarrow> VStr [])
       in bindS table_of (\<lambda>table. retS (tmp = VStr (sch_Name table))) s2))"
    by (simp add: q s1 s2)
qed

lemma stmt_inv_alloc:
  assumes "stmt_inv types s" and "plain_type (o_type ob)"
  shows "stmt_inv types (s\<lparr>w_heap := (w_heap s)(w_next s \<mapsto> ob), w_next := Suc (w_next s)\<rparr>)"
proof -
  have "\<forall>a ob. w_heap s a = Some ob \<longrightarrow> a < w_next s" using assms(1) by (simp add: stmt_inv_def)
  then have fresh: "w_heap s (w_next s) = None" by (cases "w_heap s (w_next s)") auto
  have "Indirect ((w_heap s)(w_next s \<mapsto> ob)) v = Some ob'" if "Indirect (w_heap s) v = Some ob'" for v ob'
    using that fresh by (cases v) auto
  then have "schema_for ((w_heap s)(w_next s \<mapsto> ob)) t" if "schema_for (w_heap s) t" for t
    using that unfolding schema_for_def by blast
  moreover have "\<exists>ob'. ((w_heap s)(w_next s \<mapsto> ob)) a = Some ob' \<and> o_type ob' = st" if "types a = Some st" for a st
  proof -
    from assms(1) that obtain ob' where "w_heap s a = Some ob'" "o_type ob' = st"
      unfolding stmt_inv_def by blast
    with fresh show ?thesis by (intro exI [of _ ob']) auto
  qed
  ultimately show ?thesis using assms unfolding stmt_inv_def by (auto intro: less_SucI)
qed

lemma find_loop_inv:
  assumes "hooks_keep env (stmt_inv types)" and "plain_type st"
  shows "keeps (stmt_inv types) (find_loop env st names rows rs out)"
proof (induction rs arbitrary: out)
  case Nil
  show ?case by (auto simp: keeps_def close_rows_def split: prod.splits)
next
  case (Cons r rs)
  have hook: "keeps (stmt_inv types) (bindS (CallMethod env ''AfterQuery'' (Some (PtrTo a))) (\<lambda>_ s'.
      case w_heap s' a of None \<Rightarrow> (Panic nil_deref, s')
      | Some ob' \<Rightarrow> find_loop env st names rows rs (out @ [ob']) s'))" for a
    by (intro keeps_bindS stmt_inv_CallMethod assms(1)) (use Cons.IH in \<open>auto simp: keeps_def split: option.splits\<close>)
  have body: "keeps (stmt_inv types) (\<lambda>s. case oe_Scan env types' r of
         Inl err \<Rightarrow> (Ret (Some err, out), s)
       | Inr vs \<Rightarrow>
           (let a = w_next s; ob = assign_fields names vs (zero_obj env st) in
            bindS (CallMethod env ''AfterQuery'' (Some (PtrTo a))) (\<lambda>_ s'.
              case w_heap s' a of
                None \<Rightarrow> (Panic nil_deref, s')
              | Some ob' \<Rightarrow> find_loop env st names rows rs (out @ [ob']) s')
            (s\<lparr>w_heap := (w_heap s)(a \<mapsto> ob), w_next := Suc a\<rparr>)))" for types'
  proof (cases "oe_Scan env types' r")
    case (Inr vs)
    have "plain_type (o_type (assign_fields names vs (zero_obj env st)))"
      using assms(2) by (simp add: assign_fields_def zero_obj_def)
    note alloc = stmt_inv_alloc [OF _ this]
    have "stmt_inv types (snd (bindS (CallMethod env ''AfterQuery'' (Some (PtrTo (w_next s)))) (\<lambda>_ s'.
        case w_heap s' (w_next s) of None \<Rightarrow> (Panic nil_deref, s')
        | Some ob' \<Rightarrow> find_loop env st names rows rs (out @ [ob']) s')
        (s\<lparr>w_heap := (w_heap s)(w_next s \<mapsto> assign_fields names vs (zero_obj env st)), w_next := Suc (w_next s)\<rparr>)))"
      if "stmt_inv types s" for s
      by (rule keeps_app [OF hook alloc [OF that]])
    with Inr show ?thesis by (simp add: keeps_def Let_def)
  qed (simp add: keeps_def)
  note keeps_bindS [OF keeps_pure body, of "\<lambda>_. scan_types st names"]
  then show ?case by (simp only: keeps_def find_loop.simps simp_thms)
qed

lemma Find_inv:
  assumes "hooks_keep env (stmt_inv types)" and "plain_type st"
  shows "keeps (stmt_inv types) (Find env st out)"
proof -
  have query: "keeps (stmt_inv types) (\<lambda>s. case QueryRows env (build_raw orders s) of
         (Inl err, s') \<Rightarrow> (Ret (Some err, out), s')
       | (Inr rows, s') \<Rightarrow> find_loop env st names rows (rows_data rows) out s')" for orders names
  proof (rule keepsI)
    fix s r s' assume s: "stmt_inv types s" and e: "(case QueryRows env (build_raw orders s) of
         (Inl err, s') \<Rightarrow> (Ret (Some err, out), s')
       | (Inr rows, s') \<Rightarrow> find_loop env st names rows (rows_data rows) out s') = (r, s')"
    obtain x s1 where x: "QueryRows env (build_raw orders s) = (x, s1)" by fastforce
    from stmt_inv_sent [OF stmt_inv_build [OF s] QueryRows_sent(1) [OF x]] have "stmt_inv types s1" .
    with e x show "stmt_inv types s'" by (cases x) (auto dest: keepsD [OF find_loop_inv [OF assms]])
  qed
  have model: "keeps (stmt_inv types) (session_Model (StructVal (zero_obj env st)))"
    unfolding keeps_def by (intro allI impI session_Model_inv) (use assms(2) in \<open>auto simp: zero_obj_def\<close>)
  show ?thesis unfolding Find_def
    by (intro keeps_bindS stmt_inv_CallMethod assms(1) model keeps_table_clause query)
      (rule generators_bound(2), assumption, (erule schema_for_plain)+)
qed

section \<open>Sequences of operations\<close>

text \<open>The operations of the API of a session; \<open>First\<close> is \<open>Limit\<close> and \<open>Find\<close>.  A panic of one is
  recovered by the program before the next.\<close>

datatype session_op =
  OpModel dest | OpInsert "dest list" | OpFind struct_type | OpUpdate "govalue list" | OpDelete | OpCount
| OpWhere string "govalue list" | OpLimit int | OpOrderBy string
| OpCreateTable | OpDropTable | OpHasTable | OpRawExec string "govalue list"

fun run_op :: "'db orm_env \<Rightarrow> session_op \<Rightarrow> 'db session \<Rightarrow> 'db session" where
  "run_op env (OpModel v) s = snd (session_Model v s)"
| "run_op env (OpInsert vs) s = snd (Insert env vs s)"
| "run_op env (OpFind st) s = snd (Find env st [] s)"
| "run_op env (OpUpdate kv) s = snd (Update env kv s)"
| "run_op env OpDelete s = snd (Delete env s)"
| "run_op env OpCount s = snd (Count env s)"
| "run_op env (OpWhere desc args) s = snd (Where env desc args s)"
| "run_op env (OpLimit n) s = snd (Limit env n s)"
| "run_op env (OpOrderBy desc) s = snd (OrderBy env desc s)"
| "run_op env OpCreateTable s = snd (CreateTable env s)"
| "run_op env OpDropTable s = snd (DropTable env s)"
| "run_op env OpHasTable s = snd (HasTable env s)"
| "run_op env (OpRawExec q vs) s = snd (Exec env (Raw q vs s))"

text \<open>What the caller has to respect: the texts it writes have a placeholder for each value it
  passes, and the values of one \<open>Insert\<close> have one type.\<close>

fun op_ok :: "'db orm_env \<Rightarrow> (nat \<rightharpoonup> struct_type) \<Rightarrow> session_op \<Rightarrow> bool" where
  "op_ok env types (OpModel v) = (case v of PtrTo a \<Rightarrow> True | StructVal ob \<Rightarrow> plain_type (o_type ob))"
| "op_ok env types (OpInsert vs) =
     (case vs of [] \<Rightarrow> True
      | PtrTo a # _ \<Rightarrow> (case types a of None \<Rightarrow> False | Some st \<Rightarrow> list_all (value_of_type types st) vs)
      | StructVal ob # _ \<Rightarrow> list_all (value_of_type types (o_type ob)) vs)"
| "op_ok env types (OpFind st) = plain_type st"
| "op_ok env types (OpUpdate kv) =
     (case kv_map kv of Ret m \<Rightarrow> list_all (\<lambda>(k, v). placeholders k = 0) (oe_iter env m) | Panic p \<Rightarrow> True)"
| "op_ok env types (OpWhere desc args) = (placeholders desc = length args)"
| "op_ok env types (OpOrderBy desc) = (placeholders desc = 0)"
| "op_ok env types (OpRawExec q vs) = (placeholders q = length vs)"
| "op_ok env types _ = True"

lemma op_ok_Insert: "op_ok env types (OpInsert vs) \<Longrightarrow> \<exists>st. \<forall>v \<in> set vs. value_of_type types st v"
  by (auto simp: list_all_iff split: list.splits dest.splits option.splits)

lemma run_op_inv:
  assumes s: "stmt_inv types s" and hooks: "hooks_keep env (stmt_inv types)" and ok: "op_ok env types op"
  shows "stmt_inv types (run_op env op s)"
proof (cases op)
  case (OpModel v)
  with ok session_Model_inv(1) [OF s] show ?thesis by (auto split: dest.splits)
next
  case (OpInsert vs)
  with op_ok_Insert [of env types vs] ok Insert_inv [OF s hooks] show ?thesis by auto
next
  case (OpFind st)
  with ok keeps_app [OF Find_inv [OF hooks] s] show ?thesis by simp
next
  case (OpUpdate kv)
  with ok have "keeps (stmt_inv types) (Update env kv)"
    by (intro Update_inv hooks) (auto simp: list_all_iff)
  from keeps_app [OF this s] OpUpdate show ?thesis by simp
next
  case OpDelete
  with keeps_app [OF Delete_inv [OF hooks] s] show ?thesis by simp
next
  case OpCount
  with keeps_app [OF Count_inv s] show ?thesis by simp
next
  case (OpWhere desc args)
  have "stmt_inv types (snd (set_clause env WHERE (VStr desc # args) s))"
    by (rule set_clause_inv [OF s], rule generators_bound(6), assumption) (use ok OpWhere in simp)
  with OpWhere show ?thesis by (simp add: Where_def)
next
  case (OpLimit n)
  have "stmt_inv types (snd (set_clause env LIMIT [VInt n] s))"
    by (rule set_clause_inv [OF s], rule generators_bound(5))
  with OpLimit show ?thesis by (simp add: Limit_def)
next
  case (OpOrderBy desc)
  have "stmt_inv types (snd (set_clause env ORDERBY [VStr desc] s))"
    by (rule set_clause_inv [OF s], rule generators_bound(7), assumption) (use ok OpOrderBy in simp)
  with OpOrderBy show ?thesis by (simp add: OrderBy_def)
next
  case OpCreateTable
  with keeps_app [OF CreateTable_inv s] show ?thesis by simp
next
  case OpDropTable
  with keeps_app [OF DropTable_inv s] show ?thesis by simp
next
  case OpHasTable
  with keeps_app [OF HasTable_inv s] show ?thesis by simp
next
  case (OpRawExec q vs)
  then have "bound (q, vs)" using ok by simp
  from stmt_inv_sent [OF stmt_inv_Raw [OF s this] Exec_sent(1) [OF prod.collapse [symmetric]]] OpRawExec
  show ?thesis by simp
qed

lemma run_ops_inv:
  assumes "stmt_inv types s" and "hooks_keep env (stmt_inv types)" and "\<forall>op \<in> set ops. op_ok env types op"
  shows "stmt_inv types (fold (run_op env) ops s)"
  using assms(1,3) by (induction ops arbitrary: s) (auto intro: run_op_inv [OF _ assms(2)])

text \<open>C34: Placeholders and values agree.  Whatever sequence of operations a program performs on a new
  session, also when statements fail, hooks run or operations panic in between, every statement that
  is sent to the database has exactly as many placeholders as it is given values.  (Names of types and columns
  contain no placeholder; raw statements, and conditions come with as many values as
  placeholders, and so do the statements of hooks.)\<close>

theorem statements_bound:
  assumes objects: "\<And>a ob. w_heap w a = Some ob \<Longrightarrow> a < w_next w \<and> plain_type (o_type ob)"
    and types: "\<And>a st. types a = Some st \<Longrightarrow> \<exists>ob. w_heap w a = Some ob \<and> o_type ob = st"
    and hooks: "hooks_keep env (stmt_inv types)" and ops: "list_all (op_ok env types) ops"
    and before: "stmts (w_log w) = []"
  shows "\<forall>(q, vs) \<in> set (stmts (w_log (fold (run_op env) ops (session_new w sqlite3)))).
           placeholders q = length vs"
proof -
  have "stmt_inv types (session_new w sqlite3)"
    using objects types before by (simp add: stmt_inv_def)
  from run_ops_inv [OF this hooks, of ops] ops show ?thesis
    by (auto simp: stmt_inv_def bound_def list_all_iff)
qed

text \<open>The structs of the tests: a user, stored at two addresses.\<close>

definition user_type :: struct_type where
  "user_type = \<lparr>st_Name = ''User'', st_fields =
     [\<lparr>sf_Name = ''Name'', sf_Anonymous = False, sf_PkgPath = [], sf_Type = string_type, sf_tag = Some ''PRIMARY KEY''\<rparr>,
      \<lparr>sf_Name = ''Age'', sf_Anonymous = False, sf_PkgPath = [],
       sf_Type = \<lparr>ft_Kind = RInt, ft_Name = ''int'', ft_is_time = False\<rparr>, sf_tag = None\<rparr>]\<rparr>"

definition user :: "string \<Rightarrow> int \<Rightarrow> obj" where
  "user name age = \<lparr>o_type = user_type, o_values = [VStr name, VInt age]\<rparr>"

definition demo_heap :: obj_heap where
  "demo_heap = [0 \<mapsto> user ''Tom'' 18, 1 \<mapsto> user ''Sam'' 25]"

lemma user_columns: "columns user_type = st_fields user_type"
  by (simp add: columns_def user_type_def column_field_def)

lemma plain_user: "plain_type user_type"
  unfolding plain_type_def user_columns by (simp add: user_type_def)

lemma demo_no_hooks: "hooks_keep (demo_orm rows) P"
  by (simp add: hooks_keep_def demo_orm_def)

theorem statements_bound_witness:
  "list_all (\<lambda>(q, vs). placeholders q = length vs) (stmts (w_log (fold (run_op (demo_orm no_rows))
      [OpModel (PtrTo 0), OpCreateTable, OpInsert [PtrTo 0, PtrTo 1],
       OpWhere ''Name = ?'' [VStr ''Tom''], OpLimit 1, OpFind user_type, OpDelete]
      (session_new (demo_engine demo_heap) sqlite3))))"
  unfolding list_all_iff
proof (rule statements_bound)
  show "\<exists>ob. w_heap (demo_engine demo_heap) a = Some ob \<and> o_type ob = st"
    if "[0 \<mapsto> user_type, 1 \<mapsto> user_type] a = Some st" for a st
    using that by (auto simp: demo_engine_def demo_heap_def user_def split: if_splits)
qed (use plain_user in \<open>auto simp: demo_engine_def demo_heap_def user_def demo_no_hooks split: if_splits\<close>)

end
