(* ===== verification/RecordBehaviour.thy ===== *)
theory RecordBehaviour
  imports Statements
begin

text \<open>
  What the operations on records do: the statement that each sends, the result it returns, the
  panics on a session without a model, and how hooks can change what is sent.
\<close>

section \<open>Sessions without a model\<close>

definition panics_at_once :: "('db session \<Rightarrow> 'a outcome \<times> 'db session) \<Rightarrow> 'db session \<Rightarrow> bool" where
  "panics_at_once m s \<longleftrightarrow> fst (m s) = Panic nil_deref \<and> w_db (snd (m s)) = w_db s
     \<and> stmts (w_log (snd (m s))) = stmts (w_log s)"

lemma table_of_fresh: "table_of (session_new w d) = (Panic nil_deref, log_add (LogError ''Model is not set'') (session_new w d))"
  by (simp add: table_of_def RefTable_def)

lemma CallMethod_fresh:
  "CallMethod env m v (session_new w d) = (Panic nil_deref, log_add (LogError ''Model is not set'') (session_new w d))"
  unfolding CallMethod_def by (rule bindS_Panic) (rule table_of_fresh)

text \<open>On a new session, every operation on records or on the table panics with a nil dereference
  before it has sent anything, \<open>Insert\<close> and \<open>Find\<close> included, although these two go on to set the model
  from their arguments: they call the hook of the missing model first.\<close>

theorem fresh_session_panics:
  "panics_at_once (Insert env (v # vs)) (session_new w d)
   \<and> panics_at_once (Find env st out) (session_new w d)
   \<and> panics_at_once (Update env kv) (session_new w d)
   \<and> panics_at_once (Delete env) (session_new w d)
   \<and> panics_at_once (Count env) (session_new w d)
   \<and> panics_at_once (CreateTable env) (session_new w d)
   \<and> panics_at_once (DropTable env) (session_new w d)
   \<and> panics_at_once (HasTable env) (session_new w d)"
  by (simp add: panics_at_once_def Insert_def Find_def Update_def Delete_def Count_def CreateTable_def
      DropTable_def HasTable_def CallMethod_fresh table_of_fresh)

section \<open>Deleting\<close>

lemma CallMethod_none:
  "ss_refTable s = Some t \<Longrightarrow> (\<And>p T. oe_hooks env p T m = None) \<Longrightarrow> CallMethod env m v s = (Ret (), s)"
  by (simp add: CallMethod_def bindS_def table_of_def RefTable_def find_method_def Let_def
      split: prod.splits option.splits)

lemma CallMethod_hook:
  assumes "ss_refTable s = Some t" and "find_method env (sch_Model t) m s = Some hook"
    and "hook (sch_Model t) s = (Ret None, s')"
  shows "CallMethod env m None s = (Ret (), s')"
  using assms by (simp add: CallMethod_def bindS_def table_of_def RefTable_def Let_def)

text \<open>The common end of the writing operations without a hook after it.\<close>

lemma exec_then_sent:
  assumes "ss_refTable s = Some t" and "\<And>p T. oe_hooks env p T after = None" and "ss_sql s = []" "ss_vars s = []"
    and "clause_Build orders (ss_clause s) = (q, vs)" and "oe_Exec env (session_DB s) (q @ '' '') vs (w_db s) = (x, db)"
    and "exec_then env orders after s = (r, s')"
  shows "r = Ret (case x of Inl err \<Rightarrow> (0, Some err) | Inr res \<Rightarrow> rows_affected res) \<and> w_db s' = db
       \<and> stmts (w_log s') = stmts (w_log s) @ [(q @ '' '', vs)] \<and> sent_by (Raw q vs s) s'"
proof -
  have b: "build_raw orders s = Raw q vs s" using assms(5) by (simp add: build_raw_def)
  obtain y s1 where e: "Exec env (Raw q vs s) = (y, s1)" by fastforce
  from Exec_sent(2) [OF e] assms(3,4,6) have y: "y = x" "w_db s1 = db" by simp_all
  from Exec_sent(1) [OF e] assms(3,4) have log: "stmts (w_log s1) = stmts (w_log s) @ [(q @ '' '', vs)]"
    and t: "ss_refTable s1 = ss_refTable s" by (simp_all add: sent_by_def)
  have "CallMethod env after None s1 = (Ret (), s1)"
    by (rule CallMethod_none [OF _ assms(2)]) (use t assms(1) in simp)
  with assms(7) b e y log Exec_sent(1) [OF e] show ?thesis
    by (cases x) (auto simp: exec_then_def retS_def rows_affected_def split: sum.splits)
qed

definition delete_sql :: "schema \<Rightarrow> string" where
  "delete_sql t = ''DELETE FROM '' @ sch_Name t"

lemma Delete_sent:
  assumes "ss_refTable s1 = Some t" and "CallMethod env ''BeforeDelete'' None s = (Ret (), s1)"
    and "\<And>p T. oe_hooks env p T ''AfterDelete'' = None" and "ss_sql s1 = []" "ss_vars s1 = []"
    and q: "(q, vs) = (case cs_sql (ss_clause s1) WHERE of
        None \<Rightarrow> (delete_sql t, []) | Some w \<Rightarrow> (delete_sql t @ '' '' @ w, case_option [] id (cs_vars (ss_clause s1) WHERE)))"
    and "oe_Exec env (session_DB s1) (q @ '' '') vs (w_db s1) = (x, db)" and "Delete env s = (r, s')"
  shows "r = Ret (case x of Inl err \<Rightarrow> (0, Some err) | Inr res \<Rightarrow> rows_affected res) \<and> w_db s' = db
       \<and> stmts (w_log s') = stmts (w_log s1) @ [(q @ '' '', vs)]"
proof -
  let ?c = "(ss_clause s1)\<lparr>cs_sql := (cs_sql (ss_clause s1))(DELETE \<mapsto> delete_sql t),
      cs_vars := (cs_vars (ss_clause s1))(DELETE \<mapsto> [])\<rparr>"
  let ?s = "s1\<lparr>ss_clause := ?c\<rparr>"
  have set: "set_clause env DELETE [VStr (sch_Name t)] s1 = (Ret (), ?s)"
    by (simp add: set_clause_def clause_Set_def gen_delete_def arg_def delete_sql_def)
  have build: "clause_Build [DELETE, WHERE] (ss_clause ?s) = (q, vs)"
    using q by (simp add: clause_Build_def split: option.splits)
  have tab: "table_of s1 = (Ret t, s1)" using assms(1) by (simp add: table_of_Ret)
  have e: "exec_then env [DELETE, WHERE] ''AfterDelete'' ?s = (r, s')"
    using assms(2,8) set tab by (simp add: Delete_def)
  show ?thesis
    using exec_then_sent [OF _ assms(3) _ _ build _ e, of t x db] assms(1,4,5,7) by (simp add: session_DB_def)
qed

text \<open>C40: \<open>s.Where(desc, args).Delete()\<close> deletes the rows that satisfy the condition only as long as no
  \<open>BeforeDelete\<close> hook runs a statement through the session it is given: any such statement clears the
  session, the pending condition included, and \<open>Delete\<close> then deletes every row of the table.\<close>

theorem hook_statement_drops_condition:
  assumes t: "ss_refTable s = Some t" and fresh: "ss_sql s = []" "ss_vars s = []" "ss_clause s = no_clause"
    and after: "\<And>p T. oe_hooks env p T ''AfterDelete'' = None"
    and cond: "Where env desc args s = (Ret (), s1)"
    and run: "Delete env s1 = (r, s2)"
  shows "((\<forall>p T. oe_hooks env p T ''BeforeDelete'' = None) \<longrightarrow>
            stmts (w_log s2) = stmts (w_log s) @ [(''DELETE FROM '' @ sch_Name t @ '' WHERE '' @ desc @ '' '', args)])
       \<and> (\<forall>q vs. find_method env (sch_Model t) ''BeforeDelete'' s1 = Some (\<lambda>v s. (Ret None, snd (Exec env (Raw q vs s)))) \<longrightarrow>
            stmts (w_log s2) = stmts (w_log s) @ [(q @ '' '', vs), (''DELETE FROM '' @ sch_Name t @ '' '', [])])"
proof -
  have s1: "s1 = s\<lparr>ss_clause := no_clause\<lparr>cs_sql := [WHERE \<mapsto> ''WHERE '' @ desc], cs_vars := [WHERE \<mapsto> args]\<rparr>\<rparr>"
    using cond fresh by (simp add: Where_def set_clause_def clause_Set_def gen_where_def arg_def no_clause_def)
  have "stmts (w_log s2) = stmts (w_log s) @ [(''DELETE FROM '' @ sch_Name t @ '' WHERE '' @ desc @ '' '', args)]"
    if "\<forall>p T. oe_hooks env p T ''BeforeDelete'' = None"
  proof -
    have m: "CallMethod env ''BeforeDelete'' None s1 = (Ret (), s1)"
      by (rule CallMethod_none [of _ t]) (use that t s1 in auto)
    obtain x db where "oe_Exec env (session_DB s1) ((delete_sql t @ '' '' @ ''WHERE '' @ desc) @ '' '') args (w_db s1) = (x, db)"
      by fastforce
    from Delete_sent [OF _ m after _ _ _ this run, of t] t fresh show ?thesis
      by (simp add: s1 delete_sql_def)
  qed
  moreover have "stmts (w_log s2) = stmts (w_log s) @ [(q @ '' '', vs), (''DELETE FROM '' @ sch_Name t @ '' '', [])]"
    if h: "find_method env (sch_Model t) ''BeforeDelete'' s1 = Some (\<lambda>v s. (Ret None, snd (Exec env (Raw q vs s))))" for q vs
  proof -
    obtain y s3 where e: "Exec env (Raw q vs s1) = (y, s3)" by fastforce
    have m: "CallMethod env ''BeforeDelete'' None s1 = (Ret (), s3)"
      by (rule CallMethod_hook [OF _ h]) (use t s1 in simp, simp add: e)
    from Exec_sent(1) [OF e] have s3: "ss_refTable s3 = Some t" "ss_sql s3 = []" "ss_vars s3 = []"
      "ss_clause s3 = no_clause" "stmts (w_log s3) = stmts (w_log s) @ [(q @ '' '', vs)]"
      using t fresh by (simp_all add: sent_by_def s1)
    obtain x db where "oe_Exec env (session_DB s3) (delete_sql t @ '' '') [] (w_db s3) = (x, db)" by fastforce
    from Delete_sent [OF s3(1) m after s3(2,3) _ this run] s3(4,5) show ?thesis
      by (simp add: no_clause_def delete_sql_def)
  qed
  ultimately show ?thesis by blast
qed

definition user_schema :: "dest \<Rightarrow> schema" where
  "user_schema v =
     (let f = \<lparr>f_Name = ''Name'', f_Type = ''text'', f_Tag = ''PRIMARY KEY''\<rparr>;
          g = \<lparr>f_Name = ''Age'', f_Type = ''integer'', f_Tag = []\<rparr>
      in \<lparr>sch_Model = v, sch_Name = ''User'', sch_Fields = [f, g], sch_FieldNames = [''Name'', ''Age''],
          sch_fieldMap = [''Name'' \<mapsto> f, ''Age'' \<mapsto> g]\<rparr>)"

lemma Parse_user: "Indirect heap v = Some ob \<Longrightarrow> o_type ob = user_type \<Longrightarrow> Parse heap v sqlite3 = Ret (user_schema v)"
  by (simp add: Parse_def user_type_def column_field_def parse_field_def sqlite3_def sqlite3_DataTypeOf_def
      string_type_def user_schema_def Let_def)

definition user_session :: "obj_heap \<Rightarrow> (string list \<times> string list) session" where
  "user_session heap = (session_new (demo_engine heap) sqlite3)\<lparr>ss_refTable := Some (user_schema (PtrTo 0))\<rparr>"

lemma user_session_simps [simp]:
  "ss_sql (user_session heap) = []" "ss_vars (user_session heap) = []"
  "ss_clause (user_session heap) = no_clause" "ss_refTable (user_session heap) = Some (user_schema (PtrTo 0))"
  "ss_dialect (user_session heap) = sqlite3" "w_heap (user_session heap) = heap"
  "w_log (user_session heap) = []" "w_db (user_session heap) = ([], [])" "session_DB (user_session heap) = OnDB"
  by (simp_all add: user_session_def demo_engine_def session_DB_def)

lemma Exec_hooks: "Exec (env\<lparr>oe_hooks := h\<rparr>) = Exec env"
  by (simp add: Exec_def fun_eq_iff)

text \<open>A hook that reads something before the deletion.\<close>

definition reading_hook :: "bool \<Rightarrow> string \<Rightarrow> string \<Rightarrow> (string list \<times> string list) hook option" where
  "reading_hook ptr T m =
     (if m = ''BeforeDelete'' then Some (\<lambda>v s. (Ret None, snd (Exec (demo_orm no_rows) (Raw ''PRAGMA optimize'' [] s)))) else None)"

theorem hook_statement_drops_condition_witness:
  "\<exists>s1 r s2. Where ((demo_orm no_rows)\<lparr>oe_hooks := reading_hook\<rparr>) ''Name = ?'' [VStr ''Tom''] (user_session demo_heap) = (Ret (), s1)
     \<and> Delete ((demo_orm no_rows)\<lparr>oe_hooks := reading_hook\<rparr>) s1 = (r, s2)
     \<and> stmts (w_log s2) = [(''PRAGMA optimize '', []), (''DELETE FROM User '', [])]"
proof -
  let ?env = "(demo_orm no_rows)\<lparr>oe_hooks := reading_hook\<rparr>"
  obtain s1 where w: "Where ?env ''Name = ?'' [VStr ''Tom''] (user_session demo_heap) = (Ret (), s1)"
    and h: "w_heap s1 = demo_heap"
    by (simp add: Where_def set_clause_def clause_Set_def gen_where_def arg_def)
  obtain r s2 where d: "Delete ?env s1 = (r, s2)" by fastforce
  have after: "oe_hooks ?env p T ''AfterDelete'' = None" for p T by (simp add: reading_hook_def)
  have "find_method ?env (sch_Model (user_schema (PtrTo 0))) ''BeforeDelete'' s1
      = Some (\<lambda>v s. (Ret None, snd (Exec ?env (Raw ''PRAGMA optimize'' [] s))))"
    by (simp add: find_method_def user_schema_def TypeOf_def h demo_heap_def user_def reading_hook_def Exec_hooks Let_def)
  from hook_statement_drops_condition [OF _ _ _ _ after w d, THEN conjunct2, rule_format, OF _ _ _ _ this]
  have "stmts (w_log s2) = [(''PRAGMA optimize '', []), (''DELETE FROM User '', [])]"
    by (simp add: user_schema_def Let_def)
  with w d show ?thesis by blast
qed

section \<open>Inserting\<close>

text \<open>A session whose schema was parsed from its model, as \<open>Model\<close> leaves it.\<close>

definition has_model :: "'db session \<Rightarrow> bool" where
  "has_model s \<longleftrightarrow> (\<exists>t. ss_refTable s = Some t \<and> Parse (w_heap s) (sch_Model t) (ss_dialect s) = Ret t)"

definition supported :: "dialect \<Rightarrow> struct_type \<Rightarrow> bool" where
  "supported d st \<longleftrightarrow> (\<forall>p \<in> set (columns st). \<exists>t. DataTypeOf d (sf_Type p) = Ret t)"

text \<open>\<open>Model\<close> on a value of type \<open>st\<close> leaves a schema for \<open>st\<close>, parsed now or before.\<close>

lemma session_Model_run:
  assumes "has_model s" and "Indirect (w_heap s) v = Some ob" and "supported (ss_dialect s) (o_type ob)"
  shows "\<exists>t. session_Model v s = (Ret (), s\<lparr>ss_refTable := Some t\<rparr>) \<and> has_model (s\<lparr>ss_refTable := Some t\<rparr>)
           \<and> sch_Name t = st_Name (o_type ob) \<and> sch_FieldNames t = map sf_Name (columns (o_type ob))
           \<and> list_all2 (field_of (ss_dialect s)) (columns (o_type ob)) (sch_Fields t)
           \<and> TypeOf (w_heap s) (sch_Model t) = TypeOf (w_heap s) v"
proof -
  obtain t0 where t0: "ss_refTable s = Some t0" "Parse (w_heap s) (sch_Model t0) (ss_dialect s) = Ret t0"
    using assms(1) by (auto simp: has_model_def)
  have facts: "sch_Name t = st_Name (o_type ob) \<and> sch_FieldNames t = map sf_Name (columns (o_type ob))
           \<and> list_all2 (field_of (ss_dialect s)) (columns (o_type ob)) (sch_Fields t)"
    if "Parse (w_heap s) v' (ss_dialect s) = Ret t" "TypeOf (w_heap s) v' = TypeOf (w_heap s) v" for v' t
  proof -
    from Parse_Ret [OF that(1)] obtain ob' where ob': "Indirect (w_heap s) v' = Some ob'"
      "sch_Name t = st_Name (o_type ob')" "list_all2 (field_of (ss_dialect s)) (columns (o_type ob')) (sch_Fields t)" by blast
    moreover have "o_type ob' = o_type ob" using that(2) assms(2) ob'(1) by (simp add: TypeOf_def)
    ultimately show ?thesis using Parse_FieldNames [OF that(1) ob'(1)] by simp
  qed
  show ?thesis
  proof (cases "TypeOf (w_heap s) v = TypeOf (w_heap s) (sch_Model t0)")
    case True
    then have "session_Model v s = (Ret (), s)" by (simp add: session_Model_def t0(1))
    with True t0 facts [OF t0(2)] assms(1) show ?thesis by (intro exI [of _ t0]) (simp add: has_model_def)
  next
    case False
    obtain t where t: "Parse (w_heap s) v (ss_dialect s) = Ret t"
      using Parse_total [OF assms(2)] assms(3) unfolding supported_def by blast
    then have "sch_Model t = v" using Parse_Ret by blast
    with False t facts [OF t] t0(1) show ?thesis by (intro exI [of _ t]) (simp add: session_Model_def has_model_def)
  qed
qed

definition insert_frag :: "struct_type \<Rightarrow> string" where
  "insert_frag st = ''INSERT INTO '' @ st_Name st @ '' ('' @ join '', '' (map sf_Name (columns st)) @ '')''"

text \<open>The loop of \<open>Insert\<close> without hooks: it sets the clause for the type and collects the rows.\<close>

lemma insert_loop_run:
  assumes "has_model s" and "supported (ss_dialect s) st" and hooks: "\<And>p T. oe_hooks env p T ''BeforeInsert'' = None"
    and "list_all2 (\<lambda>v ob. Indirect (w_heap s) v = Some ob \<and> o_type ob = st \<and> obj_ok ob) vs obs"
  shows "\<exists>t c. insert_loop env vs acc s = (Ret (acc @ map (\<lambda>ob. VRow (column_values ob)) obs), s\<lparr>ss_refTable := Some t, ss_clause := c\<rparr>)
           \<and> (vs \<noteq> [] \<longrightarrow> cs_sql c INSERT = Some (insert_frag st) \<and> cs_vars c INSERT = Some [])
           \<and> (\<forall>ct. ct \<noteq> INSERT \<longrightarrow> cs_sql c ct = cs_sql (ss_clause s) ct \<and> cs_vars c ct = cs_vars (ss_clause s) ct)"
  using assms(1,2,4)
proof (induction vs arbitrary: s obs acc)
  case Nil
  then obtain t where "ss_refTable s = Some t" by (auto simp: has_model_def)
  then have "s\<lparr>ss_refTable := Some t, ss_clause := ss_clause s\<rparr> = s" by simp
  with Nil show ?case by (auto simp: retS_def intro!: exI [of _ t] exI [of _ "ss_clause s"])
next
  case (Cons v vs)
  then obtain ob obs' where obs: "obs = ob # obs'" and v: "Indirect (w_heap s) v = Some ob" "o_type ob = st" "obj_ok ob"
    and rest: "list_all2 (\<lambda>v ob. Indirect (w_heap s) v = Some ob \<and> o_type ob = st \<and> obj_ok ob) vs obs'"
    by (auto simp: list_all2_Cons1)
  have hook: "CallMethod env ''BeforeInsert'' (Some v) s = (Ret (), s)"
    using Cons.prems(1) CallMethod_none [OF _ hooks] by (auto simp: has_model_def)
  from session_Model_run [OF Cons.prems(1) v(1)] Cons.prems(2) v(2) obtain t where
    m: "session_Model v s = (Ret (), s\<lparr>ss_refTable := Some t\<rparr>)" "has_model (s\<lparr>ss_refTable := Some t\<rparr>)"
    and t: "sch_Name t = st_Name st" "sch_FieldNames t = map sf_Name (columns st)"
      "list_all2 (field_of (ss_dialect s)) (columns st) (sch_Fields t)"
    by auto
  let ?s1 = "s\<lparr>ss_refTable := Some t\<rparr>"
  let ?c = "(ss_clause s)\<lparr>cs_sql := (cs_sql (ss_clause s))(INSERT \<mapsto> insert_frag st),
      cs_vars := (cs_vars (ss_clause s))(INSERT \<mapsto> [])\<rparr>"
  let ?s2 = "?s1\<lparr>ss_clause := ?c\<rparr>"
  have set: "set_clause env INSERT [VStr (sch_Name t), VStrs (sch_FieldNames t)] ?s1 = (Ret (), ?s2)"
    by (simp add: set_clause_def clause_Set_def gen_insert_def arg_def t insert_frag_def)
  have row: "RecordValues (w_heap s) t v = Ret (column_values ob)"
    by (rule RecordValues_columns [OF v(1,3)]) (use t(3) v(2) in simp)
  have step: "insert_loop env (v # vs) acc s = insert_loop env vs (acc @ [VRow (column_values ob)]) ?s2"
    using hook m(1) set row by (simp add: table_of_Ret bindS_def table_of_def RefTable_def)
  have "has_model ?s2" using m(2) by (simp add: has_model_def)
  from Cons.IH [OF this, of obs' "acc @ [VRow (column_values ob)]"] Cons.prems(2) rest
  obtain t' c where loop: "insert_loop env vs (acc @ [VRow (column_values ob)]) ?s2
      = (Ret ((acc @ [VRow (column_values ob)]) @ map (\<lambda>ob. VRow (column_values ob)) obs'), ?s2\<lparr>ss_refTable := Some t', ss_clause := c\<rparr>)"
    and c: "vs \<noteq> [] \<longrightarrow> cs_sql c INSERT = Some (insert_frag st) \<and> cs_vars c INSERT = Some []"
      "\<forall>ct. ct \<noteq> INSERT \<longrightarrow> cs_sql c ct = cs_sql ?c ct \<and> cs_vars c ct = cs_vars ?c ct"
    by auto
  have "c = ?c" if "vs = []" using loop that rest by (auto simp: retS_def dest: arg_cong [of _ _ ss_clause])
  with c have "cs_sql c INSERT = Some (insert_frag st) \<and> cs_vars c INSERT = Some []" by (cases "vs = []") auto
  with c(2) loop step obs show ?case by (intro exI [of _ t'] exI [of _ c]) simp
qed

definition insert_sql :: "struct_type \<Rightarrow> nat \<Rightarrow> string" where
  "insert_sql st n =
     insert_frag st @ '' VALUES '' @ join '', '' (replicate n (''('' @ genBindVars (length (columns st)) @ '')''))"

text \<open>C35: Inserting objects of one type sends exactly one statement: it names the columns of the type in
  the order of its fields, has one group of placeholders for each object, and its values are the
  values of the columns of the objects, object by object in the same order.  The result is the number
  of rows that the database reports, or its error with 0.\<close>

theorem insert_sends_all_rows:
  assumes model: "has_model s" and types: "supported (ss_dialect s) st" and fresh: "ss_sql s = []" "ss_vars s = []"
    and hooks: "\<And>p T. oe_hooks env p T ''BeforeInsert'' = None" "\<And>p T. oe_hooks env p T ''AfterInsert'' = None"
    and objs: "list_all2 (\<lambda>v ob. Indirect (w_heap s) v = Some ob \<and> o_type ob = st \<and> obj_ok ob) vs obs"
    and some: "vs \<noteq> []"
    and db: "oe_Exec env (session_DB s) (insert_sql st (length vs) @ '' '') (concat (map column_values obs)) (w_db s) = (x, db')"
    and run: "Insert env vs s = (r, s')"
  shows "r = Ret (case x of Inl err \<Rightarrow> (0, Some err) | Inr res \<Rightarrow> rows_affected res) \<and> w_db s' = db'
       \<and> stmts (w_log s') = stmts (w_log s) @ [(insert_sql st (length vs) @ '' '', concat (map column_values obs))]"
proof -
  obtain t c where loop: "insert_loop env vs [] s
      = (Ret (map VRow (map column_values obs)), s\<lparr>ss_refTable := Some t, ss_clause := c\<rparr>)"
    and c: "cs_sql c INSERT = Some (insert_frag st)" "cs_vars c INSERT = Some []"
    using insert_loop_run [OF model types hooks(1) objs, of "[]"] some by (auto simp: o_def)
  have "length obs = length vs" using list_all2_lengthD [OF objs] by simp
  have "\<forall>ob \<in> set obs. length (column_values ob) = length (columns st)"
    using objs by (auto simp: in_set_conv_nth list_all2_conv_all_nth length_column_values)
  then have "gen_values (map VRow (map column_values obs)) =
      Ret (''VALUES '' @ join '', '' (map (\<lambda>_. ''('' @ genBindVars (length (columns st)) @ '')'') (map column_values obs)),
           concat (map column_values obs))"
    by (intro gen_values_rows) simp
  moreover have "map (\<lambda>_. ''('' @ genBindVars (length (columns st)) @ '')'') (map column_values obs)
      = replicate (length vs) (''('' @ genBindVars (length (columns st)) @ '')'')"
    using \<open>length obs = length vs\<close> by (simp add: map_replicate_const o_def)
  ultimately have vals: "gen_values (map VRow (map column_values obs)) =
      Ret (''VALUES '' @ join '', '' (replicate (length vs) (''('' @ genBindVars (length (columns st)) @ '')'')), concat (map column_values obs))"
    by simp
  let ?c = "c\<lparr>cs_sql := (cs_sql c)(VALUES \<mapsto> ''VALUES '' @ join '', '' (replicate (length vs) (''('' @ genBindVars (length (columns st)) @ '')''))),
      cs_vars := (cs_vars c)(VALUES \<mapsto> concat (map column_values obs))\<rparr>"
  let ?s = "s\<lparr>ss_refTable := Some t, ss_clause := ?c\<rparr>"
  have set: "set_clause env VALUES (map VRow (map column_values obs)) (s\<lparr>ss_refTable := Some t, ss_clause := c\<rparr>) = (Ret (), ?s)"
    using vals by (simp add: set_clause_def clause_Set_def)
  have build: "clause_Build [INSERT, VALUES] (ss_clause ?s) = (insert_sql st (length vs), concat (map column_values obs))"
    by (simp add: clause_Build_def c insert_sql_def)
  have e: "exec_then env [INSERT, VALUES] ''AfterInsert'' ?s = (r, s')"
    using run loop set by (simp add: Insert_def)
  show ?thesis
    using exec_then_sent [OF _ hooks(2) _ _ build _ e, of t x db'] fresh db by (simp add: session_DB_def)
qed

lemma user_obj_ok: "obj_ok (user name age)"
  by (simp add: obj_ok_def user_def user_type_def)

lemma user_supported: "supported sqlite3 user_type"
  unfolding supported_def user_columns
  by (simp add: user_type_def sqlite3_def sqlite3_DataTypeOf_def string_type_def)

lemma user_has_model: "heap 0 = Some (user name age) \<Longrightarrow> has_model (user_session heap)"
  using Parse_user [of heap "PtrTo 0" "user name age"] by (simp add: has_model_def user_def user_schema_def Let_def)

lemma user_values: "column_values (user name age) = [VStr name, VInt age]"
  by (simp add: column_values_def user_def user_type_def column_field_def)

lemma demo_orm_simps [simp]:
  "oe_hooks (demo_orm rows) p T m = None" "oe_zero (demo_orm rows) t = VNil" "oe_iter (demo_orm rows) m' = m'"
  "oe_Query (demo_orm rows) h q vs db = (Inr rows, db)" "oe_Close (demo_orm rows) i db = (None, db)"
  by (simp_all add: demo_orm_def)

theorem insert_sends_all_rows_witness:
  "\<exists>s'. Insert (demo_orm no_rows) [PtrTo 0, PtrTo 1] (user_session demo_heap) = (Ret (1, None), s')
     \<and> stmts (w_log s') = [(''INSERT INTO User (Name, Age) VALUES (?, ?), (?, ?) '',
          [VStr ''Tom'', VInt 18, VStr ''Sam'', VInt 25])]"
proof -
  let ?s = "user_session demo_heap" and ?vs = "[PtrTo 0, PtrTo 1]" and ?obs = "[user ''Tom'' 18, user ''Sam'' 25]"
  have model: "has_model ?s" by (rule user_has_model [of _ "''Tom''" 18]) (simp add: demo_heap_def)
  have objs: "list_all2 (\<lambda>v ob. Indirect (w_heap ?s) v = Some ob \<and> o_type ob = user_type \<and> obj_ok ob) ?vs ?obs"
    by (simp add: demo_heap_def user_obj_ok) (simp add: user_def)
  obtain db' where db: "oe_Exec (demo_orm no_rows) (session_DB ?s) (insert_sql user_type (length ?vs) @ '' '')
      (concat (map column_values ?obs)) (w_db ?s) = (Inr (Inr 1), db')"
    by (simp add: demo_orm_def)
  obtain r s' where run: "Insert (demo_orm no_rows) ?vs ?s = (r, s')" by fastforce
  have sql: "insert_sql user_type (length ?vs) @ '' '' = ''INSERT INTO User (Name, Age) VALUES (?, ?), (?, ?) ''"
    by (simp add: insert_sql_def insert_frag_def user_columns) (simp add: user_type_def genBindVars_def numeral_2_eq_2)
  from insert_sends_all_rows [OF model _ _ _ _ _ objs _ db run] user_supported have
    "r = Ret (rows_affected (Inr 1)) \<and> stmts (w_log s') = [(insert_sql user_type (length ?vs) @ '' '', concat (map column_values ?obs))]"
    by simp
  with run show ?thesis unfolding sql by (simp add: user_values rows_affected_def)
qed

section \<open>Reading\<close>

definition select_frag :: "struct_type \<Rightarrow> string" where
  "select_frag st = ''SELECT '' @ join '','' (map sf_Name (columns st)) @ '' FROM '' @ st_Name st"

text \<open>The statement of \<open>Find\<close>: the columns, then the clauses that were set before.\<close>

definition find_stmt :: "struct_type \<Rightarrow> clause \<Rightarrow> string \<times> govalue list" where
  "find_stmt st c =
     (let (q, vs) = clause_Build [SELECT, WHERE, ORDERBY, LIMIT]
        (c\<lparr>cs_sql := (cs_sql c)(SELECT \<mapsto> select_frag st), cs_vars := (cs_vars c)(SELECT \<mapsto> [])\<rparr>)
      in (q @ '' '', vs))"

text \<open>The object that a scanned row becomes, and the types that \<open>Scan\<close> is given.\<close>

definition row_obj :: "'db orm_env \<Rightarrow> struct_type \<Rightarrow> govalue list \<Rightarrow> obj" where
  "row_obj env st vs = assign_fields (map sf_Name (columns st)) vs (zero_obj env st)"

definition names_distinct :: "struct_type \<Rightarrow> bool" where
  "names_distinct st \<longleftrightarrow> distinct (map sf_Name (st_fields st))"

lemma find_by_name:
  "distinct (map sf_Name ps) \<Longrightarrow> p \<in> set ps \<Longrightarrow> find (\<lambda>q. sf_Name q = sf_Name p) ps = Some p"
  by (induction ps) auto

lemma scan_types_columns:
  "names_distinct st \<Longrightarrow> scan_types st (map sf_Name (columns st)) = Ret (map sf_Type (columns st))"
proof -
  assume "names_distinct st"
  then have "scan_types st (map sf_Name ps) = Ret (map sf_Type ps)" if "set ps \<subseteq> set (st_fields st)" for ps
    using that by (induction ps) (auto simp: names_distinct_def find_by_name)
  then show ?thesis by (simp add: columns_def)
qed

text \<open>The loop over rows that can be scanned only allocates: the objects there were are as before.\<close>

lemma find_loop_heap:
  assumes hooks: "\<And>p T. oe_hooks env p T ''AfterQuery'' = None" and "ss_refTable s = Some t"
    and types: "scan_types st names = Ret types"
    and "list_all2 (\<lambda>r vs. oe_Scan env types r = Inr vs) good vals"
  shows "\<exists>h n. find_loop env st names rows (good @ rest) out s =
           find_loop env st names rows rest (out @ map (\<lambda>vs. assign_fields names vs (zero_obj env st)) vals)
             (s\<lparr>w_heap := h, w_next := n\<rparr>)
           \<and> w_next s \<le> n \<and> (\<forall>a < w_next s. h a = w_heap s a)"
  using assms(2,4)
proof (induction good arbitrary: vals out s)
  case Nil
  then show ?case by (auto intro!: exI [of _ "w_heap s"] exI [of _ "w_next s"])
next
  case (Cons r good)
  then obtain vs vals' where vals: "vals = vs # vals'" "oe_Scan env types r = Inr vs"
    and rest: "list_all2 (\<lambda>r vs. oe_Scan env types r = Inr vs) good vals'" by (auto simp: list_all2_Cons1)
  let ?ob = "assign_fields names vs (zero_obj env st)"
  let ?s = "s\<lparr>w_heap := (w_heap s)(w_next s \<mapsto> ?ob), w_next := Suc (w_next s)\<rparr>"
  have hook: "CallMethod env ''AfterQuery'' (Some (PtrTo (w_next s))) ?s = (Ret (), ?s)"
    by (rule CallMethod_none [OF _ hooks]) (use Cons.prems(1) in simp)
  have step: "find_loop env st names rows ((r # good) @ rest) out s = find_loop env st names rows (good @ rest) (out @ [?ob]) ?s"
    by (simp add: bindS_def types vals(2) Let_def hook)
  have "ss_refTable ?s = Some t" using Cons.prems(1) by simp
  from Cons.IH [OF this rest, of "out @ [?ob]"] obtain h n where
    "find_loop env st names rows (good @ rest) (out @ [?ob]) ?s = find_loop env st names rows rest
       ((out @ [?ob]) @ map (\<lambda>vs. assign_fields names vs (zero_obj env st)) vals') (?s\<lparr>w_heap := h, w_next := n\<rparr>)"
    "Suc (w_next s) \<le> n" "\<forall>a < Suc (w_next s). h a = ((w_heap s)(w_next s \<mapsto> ?ob)) a" by auto
  with step vals(1) show ?case by (intro exI [of _ h] exI [of _ n]) auto
qed

lemma find_loop_run:
  assumes "\<And>p T. oe_hooks env p T ''AfterQuery'' = None" and "ss_refTable s = Some t"
    and "scan_types st names = Ret types"
    and "list_all2 (\<lambda>r vs. oe_Scan env types r = Inr vs) good vals"
  shows "\<exists>h n. find_loop env st names rows (good @ rest) out s =
           find_loop env st names rows rest (out @ map (\<lambda>vs. assign_fields names vs (zero_obj env st)) vals)
             (s\<lparr>w_heap := h, w_next := n\<rparr>)"
  using find_loop_heap [OF assms, of rows rest out] by blast

lemma find_loop_quiet:
  assumes "\<And>p T. oe_hooks env p T ''AfterQuery'' = None" and "ss_refTable s = Some t"
  shows "stmts (w_log (snd (find_loop env st names rows rs out s))) = stmts (w_log s)
       \<and> ss_refTable (snd (find_loop env st names rows rs out s)) = Some t"
  using assms(2)
proof (induction rs arbitrary: out s)
  case Nil
  then show ?case by (simp add: close_rows_def split: prod.splits)
next
  case (Cons r rs)
  show ?case
  proof (cases "scan_types st names")
    case (Ret types)
    show ?thesis
    proof (cases "oe_Scan env types r")
      case (Inl err)
      with Ret Cons.prems show ?thesis by (simp add: bindS_def)
    next
      case (Inr vs)
      then have "\<exists>h n. find_loop env st names rows (r # rs) out s = find_loop env st names rows rs
          (out @ [assign_fields names vs (zero_obj env st)]) (s\<lparr>w_heap := h, w_next := n\<rparr>)"
        using find_loop_run [OF assms(1) Cons.prems Ret, where good = "[r]" and vals = "[vs]" and rest = rs
            and rows = rows and out = out] by (simp del: find_loop.simps)
      then obtain h n where "find_loop env st names rows (r # rs) out s = find_loop env st names rows rs
          (out @ [assign_fields names vs (zero_obj env st)]) (s\<lparr>w_heap := h, w_next := n\<rparr>)" by blast
      with Cons.IH [of "s\<lparr>w_heap := h, w_next := n\<rparr>"] Cons.prems show ?thesis by simp
    qed
  qed (use Cons.prems in \<open>simp add: bindS_def\<close>)
qed

lemma Find_run:
  assumes model: "has_model s" and types: "supported (ss_dialect s) st" "names_distinct st"
    and fresh: "ss_sql s = []" "ss_vars s = []"
    and hooks: "\<And>p T. oe_hooks env p T ''BeforeQuery'' = None" "\<And>p T. oe_hooks env p T ''AfterQuery'' = None"
    and db: "oe_Query env (session_DB s) (fst (find_stmt st (ss_clause s))) (snd (find_stmt st (ss_clause s))) (w_db s) = (x, db')"
    and run: "Find env st out s = (r, s')"
  shows "stmts (w_log s') = stmts (w_log s) @ [find_stmt st (ss_clause s)]
       \<and> (\<exists>t. ss_refTable s' = Some t \<and> TypeOf (w_heap s) (sch_Model t) = (False, Some st))
       \<and> (\<forall>err. x = Inl err \<longrightarrow> r = Ret (Some err, out) \<and> w_db s' = db')
       \<and> (\<forall>rows good vals rest. x = Inr rows \<longrightarrow> rows_data rows = good @ rest \<longrightarrow>
            list_all2 (\<lambda>row vs. oe_Scan env (map sf_Type (columns st)) row = Inr vs) good vals \<longrightarrow>
              (rest = [] \<longrightarrow> r = Ret (None, out @ map (row_obj env st) vals)
                 \<and> w_db s' = snd (oe_Close env (rows_id rows) db'))
            \<and> (\<forall>bad bads err. rest = bad # bads \<longrightarrow> oe_Scan env (map sf_Type (columns st)) bad = Inl err \<longrightarrow>
                 r = Ret (Some err, out @ map (row_obj env st) vals) \<and> w_db s' = db'))"
proof -
  obtain t0 where t0: "ss_refTable s = Some t0" using model by (auto simp: has_model_def)
  have hook: "CallMethod env ''BeforeQuery'' None s = (Ret (), s)" by (rule CallMethod_none [OF t0 hooks(1)])
  let ?z = "zero_obj env st"
  have z: "o_type ?z = st" by (simp add: zero_obj_def)
  from session_Model_run [OF model, of "StructVal ?z" ?z] types(1) z obtain t where
    m: "session_Model (StructVal ?z) s = (Ret (), s\<lparr>ss_refTable := Some t\<rparr>)"
    and t: "sch_Name t = st_Name st" "sch_FieldNames t = map sf_Name (columns st)"
      "TypeOf (w_heap s) (sch_Model t) = (False, Some st)"
    by (auto simp: TypeOf_def)
  let ?s1 = "s\<lparr>ss_refTable := Some t\<rparr>"
  let ?c = "(ss_clause s)\<lparr>cs_sql := (cs_sql (ss_clause s))(SELECT \<mapsto> select_frag st),
      cs_vars := (cs_vars (ss_clause s))(SELECT \<mapsto> [])\<rparr>"
  let ?s2 = "?s1\<lparr>ss_clause := ?c\<rparr>"
  have set: "set_clause env SELECT [VStr (sch_Name t), VStrs (sch_FieldNames t)] ?s1 = (Ret (), ?s2)"
    by (simp add: set_clause_def clause_Set_def gen_select_def arg_def t select_frag_def)
  let ?q = "build_raw [SELECT, WHERE, ORDERBY, LIMIT] ?s2"
  obtain q vs where q: "clause_Build [SELECT, WHERE, ORDERBY, LIMIT] ?c = (q, vs)" by fastforce
  have stmt: "find_stmt st (ss_clause s) = (q @ '' '', vs)" by (simp add: find_stmt_def q)
  have raw: "ss_sql ?q = q @ '' ''" "ss_vars ?q = vs" "session_DB ?q = session_DB s" "w_db ?q = w_db s"
    "stmts (w_log ?q) = stmts (w_log s)" "ss_refTable ?q = Some t"
    using fresh by (simp_all add: build_raw_def q) (simp add: session_DB_def)
  obtain y s3 where e: "QueryRows env ?q = (y, s3)" by fastforce
  from QueryRows_sent(2) [OF e] raw db stmt have y: "y = x" "w_db s3 = db'" by simp_all
  from QueryRows_sent(1) [OF e] raw stmt have s3: "stmts (w_log s3) = stmts (w_log s) @ [find_stmt st (ss_clause s)]"
    "ss_refTable s3 = Some t" by (simp_all add: sent_by_def)
  have find: "(r, s') = (case x of Inl err \<Rightarrow> (Ret (Some err, out), s3)
      | Inr rows \<Rightarrow> find_loop env st (map sf_Name (columns st)) rows (rows_data rows) out s3)"
    using run hook m set e y(1) by (cases x) (simp_all add: Find_def table_of_Ret bindS_def table_of_def RefTable_def t)
  have quiet: "stmts (w_log s') = stmts (w_log s3) \<and> ss_refTable s' = Some t"
  proof (cases x)
    case (Inr rows)
    with find have "s' = snd (find_loop env st (map sf_Name (columns st)) rows (rows_data rows) out s3)"
      by (simp add: prod_eq_iff)
    with find_loop_quiet [OF hooks(2) s3(2), where names = "map sf_Name (columns st)" and rs = "rows_data rows"
        and st = st and rows = rows and out = out] show ?thesis by simp
  qed (use find s3 in simp)
  have loop: "(rest = [] \<longrightarrow> r = Ret (None, out @ map (row_obj env st) vals) \<and> w_db s' = snd (oe_Close env (rows_id rows) db'))
      \<and> (\<forall>bad bads err. rest = bad # bads \<longrightarrow> oe_Scan env (map sf_Type (columns st)) bad = Inl err \<longrightarrow>
           r = Ret (Some err, out @ map (row_obj env st) vals) \<and> w_db s' = db')"
    if "x = Inr rows" "rows_data rows = good @ rest"
      "list_all2 (\<lambda>row vs. oe_Scan env (map sf_Type (columns st)) row = Inr vs) good vals" for rows good rest vals
  proof -
    from find_loop_run [OF hooks(2) s3(2) scan_types_columns [OF types(2)] that(3), of rows rest out] obtain h n where
      "find_loop env st (map sf_Name (columns st)) rows (good @ rest) out s3 =
       find_loop env st (map sf_Name (columns st)) rows rest (out @ map (row_obj env st) vals) (s3\<lparr>w_heap := h, w_next := n\<rparr>)"
      unfolding row_obj_def by blast
    with find that(1,2) have "(r, s') =
       find_loop env st (map sf_Name (columns st)) rows rest (out @ map (row_obj env st) vals) (s3\<lparr>w_heap := h, w_next := n\<rparr>)"
      by simp
    then show ?thesis
      using y(2) scan_types_columns [OF types(2)] by (cases rest) (auto simp: close_rows_def bindS_def split: prod.splits)
  qed
  have "\<forall>err. x = Inl err \<longrightarrow> r = Ret (Some err, out) \<and> w_db s' = db'"
    using find y(2) by auto
  moreover have "stmts (w_log s') = stmts (w_log s) @ [find_stmt st (ss_clause s)]"
    "\<exists>t. ss_refTable s' = Some t \<and> TypeOf (w_heap s) (sch_Model t) = (False, Some st)"
    using quiet s3 t(3) by auto
  ultimately show ?thesis by (intro conjI) (assumption+, (intro allI impI, rule loop))
qed

text \<open>C36: \<open>Find\<close> sends one query, for the columns of the type with the clauses set before, and appends to the
  slice one object for each row, in the order of the rows and with the values of its columns; it
  then closes the rows.  If the query fails, it returns the error and appends nothing.  If a row
  cannot be scanned, it returns that error with the objects before it, and leaves the rows open.
  An error that ended the iteration early is never reported.  (There are no hooks for queries here, and
  no statement is pending.)\<close>

theorem find_returns_rows:
  assumes "has_model s" and "supported (ss_dialect s) st" and "names_distinct st" and "ss_sql s = []" "ss_vars s = []"
    and "\<And>p T. oe_hooks env p T ''BeforeQuery'' = None" "\<And>p T. oe_hooks env p T ''AfterQuery'' = None"
    and "oe_Query env (session_DB s) (fst (find_stmt st (ss_clause s))) (snd (find_stmt st (ss_clause s))) (w_db s) = (x, db')"
    and "Find env st out s = (r, s')"
  shows "stmts (w_log s') = stmts (w_log s) @ [find_stmt st (ss_clause s)]
       \<and> (\<forall>err. x = Inl err \<longrightarrow> r = Ret (Some err, out) \<and> w_db s' = db')
       \<and> (\<forall>rows good vals rest. x = Inr rows \<longrightarrow> rows_data rows = good @ rest \<longrightarrow>
            list_all2 (\<lambda>row vs. oe_Scan env (map sf_Type (columns st)) row = Inr vs) good vals \<longrightarrow>
              (rest = [] \<longrightarrow> r = Ret (None, out @ map (row_obj env st) vals)
                 \<and> w_db s' = snd (oe_Close env (rows_id rows) db'))
            \<and> (\<forall>bad bads err. rest = bad # bads \<longrightarrow> oe_Scan env (map sf_Type (columns st)) bad = Inl err \<longrightarrow>
                 r = Ret (Some err, out @ map (row_obj env st) vals) \<and> w_db s' = db'))"
proof (intro conjI)
  note run = Find_run [OF assms]
  show "stmts (w_log s') = stmts (w_log s) @ [find_stmt st (ss_clause s)]" by (rule run [THEN conjunct1])
  show "\<forall>err. x = Inl err \<longrightarrow> r = Ret (Some err, out) \<and> w_db s' = db'" by (rule run [THEN conjunct2, THEN conjunct2, THEN conjunct1])
qed (rule Find_run [OF assms, THEN conjunct2, THEN conjunct2, THEN conjunct2])

text \<open>A connection that is lost after the first row: the caller sees no error.\<close>

definition lost_rows :: sql_rows where
  "lost_rows = \<lparr>rows_id = 0, rows_Columns = [''Name'', ''Age''], rows_data = [[VStr ''Tom'', VInt 18]],
     rows_Err = Some ''driver: bad connection''\<rparr>"

lemma row_obj_user: "row_obj (demo_orm rows) user_type [VStr name, VInt age] = user name age"
  unfolding row_obj_def user_columns
  by (simp add: assign_fields_def zero_obj_def user_def user_type_def)

lemma user_distinct: "names_distinct user_type"
  by (simp add: names_distinct_def user_type_def)

theorem find_returns_rows_witness:
  "\<exists>s'. Find (demo_orm lost_rows) user_type [] (user_session demo_heap) = (Ret (None, [user ''Tom'' 18]), s')"
proof -
  let ?s = "user_session demo_heap" and ?env = "demo_orm lost_rows"
  have model: "has_model ?s" by (rule user_has_model [of _ "''Tom''" 18]) (simp add: demo_heap_def)
  obtain r s' where run: "Find ?env user_type [] ?s = (r, s')" by fastforce
  have scan: "list_all2 (\<lambda>row vs. oe_Scan ?env (map sf_Type (columns user_type)) row = Inr vs)
      [[VStr ''Tom'', VInt 18]] [[VStr ''Tom'', VInt 18]]"
    unfolding user_columns by (simp add: demo_orm_def user_type_def)
  have sup: "supported (ss_dialect ?s) user_type" by (simp add: user_supported)
  have query: "oe_Query ?env (session_DB ?s) (fst (find_stmt user_type (ss_clause ?s))) (snd (find_stmt user_type (ss_clause ?s)))
      (w_db ?s) = (Inr lost_rows, ([], []))" by simp
  note res = find_returns_rows [OF model sup user_distinct user_session_simps(1,2) demo_orm_simps(1) demo_orm_simps(1)
      query run, THEN conjunct2, THEN conjunct2, rule_format, OF refl _ scan, of "[]"]
  have "rows_data lost_rows = [[VStr ''Tom'', VInt 18]] @ []" by (simp add: lost_rows_def)
  from res [OF this, THEN conjunct1] have "r = Ret (None, [user ''Tom'' 18])" by (simp add: row_obj_user)
  with run show ?thesis by simp
qed

text \<open>\<open>Find\<close> sets the model of the session to a struct, not to a pointer to one.  A hook whose receiver
  is a pointer, which the operations on the session called before, is therefore not called any more
  after it: they go on silently without the hook.\<close>

theorem pointer_hooks_lost_after_find:
  assumes "has_model s" and "supported (ss_dialect s) st" and "names_distinct st" and "ss_sql s = []" "ss_vars s = []"
    and "\<And>p T. oe_hooks env p T ''BeforeQuery'' = None" "\<And>p T. oe_hooks env p T ''AfterQuery'' = None"
    and ptr: "ss_refTable s = Some t" "sch_Model t = PtrTo a" "w_heap s a = Some ob" "o_type ob = st"
    and recv: "oe_hooks env True (st_Name st) m = Some hook" "oe_hooks env False (st_Name st) m = None"
    and run: "Find env st out s = (r, s')"
  shows "CallMethod env m None s = bindS (hook (PtrTo a)) (\<lambda>e s'. case e of Some err \<Rightarrow> (Panic err, s') | None \<Rightarrow> (Ret (), s')) s
       \<and> CallMethod env m None s' = (Ret (), s')"
proof
  have "find_method env (PtrTo a) m s = Some hook"
    using ptr recv by (simp add: find_method_def TypeOf_def)
  then show "CallMethod env m None s = bindS (hook (PtrTo a)) (\<lambda>e s'. case e of Some err \<Rightarrow> (Panic err, s') | None \<Rightarrow> (Ret (), s')) s"
    using ptr by (simp add: CallMethod_def table_of_Ret bindS_def table_of_def RefTable_def Let_def)
  obtain x db' where "oe_Query env (session_DB s) (fst (find_stmt st (ss_clause s))) (snd (find_stmt st (ss_clause s))) (w_db s) = (x, db')"
    by fastforce
  from Find_run [OF assms(1-7) this run, THEN conjunct2, THEN conjunct1] obtain t' where t': "ss_refTable s' = Some t'"
    "TypeOf (w_heap s) (sch_Model t') = (False, Some st)" by blast
  then obtain ob' where "sch_Model t' = StructVal ob'" "o_type ob' = st"
    by (cases "sch_Model t'") (auto simp: TypeOf_def)
  then have "find_method env (sch_Model t') m s' = None" using recv by (simp add: find_method_def TypeOf_def)
  then show "CallMethod env m None s' = (Ret (), s')"
    using t'(1) by (simp add: CallMethod_def bindS_def table_of_def RefTable_def Let_def)
qed

text \<open>A hook with a pointer receiver that forbids the deletion, as a soft-delete guard would.\<close>

definition guard_hook :: "bool \<Rightarrow> string \<Rightarrow> string \<Rightarrow> (string list \<times> string list) hook option" where
  "guard_hook ptr T m = (if ptr \<and> m = ''BeforeDelete'' then Some (\<lambda>v s. (Ret (Some ''protected''), s)) else None)"

theorem pointer_hooks_lost_after_find_witness:
  "\<exists>r s'. Find ((demo_orm no_rows)\<lparr>oe_hooks := guard_hook\<rparr>) user_type [] (user_session demo_heap) = (r, s')
     \<and> CallMethod ((demo_orm no_rows)\<lparr>oe_hooks := guard_hook\<rparr>) ''BeforeDelete'' None (user_session demo_heap)
         = (Panic ''protected'', user_session demo_heap)
     \<and> CallMethod ((demo_orm no_rows)\<lparr>oe_hooks := guard_hook\<rparr>) ''BeforeDelete'' None s' = (Ret (), s')"
proof -
  let ?env = "(demo_orm no_rows)\<lparr>oe_hooks := guard_hook\<rparr>" and ?s = "user_session demo_heap"
  have model: "has_model ?s" by (rule user_has_model [of _ "''Tom''" 18]) (simp add: demo_heap_def)
  obtain r s' where run: "Find ?env user_type [] ?s = (r, s')" by fastforce
  have quiet: "oe_hooks ?env p T ''BeforeQuery'' = None" "oe_hooks ?env p T ''AfterQuery'' = None" for p T
    by (simp_all add: guard_hook_def)
  have ob: "w_heap ?s 0 = Some (user ''Tom'' 18)" "o_type (user ''Tom'' 18) = user_type"
    "sch_Model (user_schema (PtrTo 0)) = PtrTo 0" "supported (ss_dialect ?s) user_type"
    by (simp_all add: demo_heap_def user_def user_schema_def Let_def user_supported)
  have recv: "oe_hooks ?env True (st_Name user_type) ''BeforeDelete'' = Some (\<lambda>v s. (Ret (Some ''protected''), s))"
    "oe_hooks ?env False (st_Name user_type) ''BeforeDelete'' = None" by (simp_all add: guard_hook_def)
  from pointer_hooks_lost_after_find [OF model ob(4) user_distinct _ _ quiet _ ob(3) ob(1,2) recv run] run show ?thesis
    by (auto simp: bindS_def)
qed

end
