(* ===== verification/OrmTable.thy ===== *)
theory OrmTable
  imports RecordBehaviour "HOL-Library.Multiset"
begin

text \<open>
  The operations on records against a table.  What a database does with the statements that the
  package sends is a hypothesis, \<open>table_db\<close>: a table is a multiset of rows, and each of the five kinds of
  statements does to it, or reads from it, what SQL says, or fails and leaves it alone.  Against it stand
  the operations on a multiset of rows that \<open>Insert\<close>, \<open>Find\<close>, \<open>First\<close>, \<open>Update\<close>, \<open>Delete\<close> and \<open>Count\<close>,
  with conditions, orders and limits, are to be.  The theory OrmRefine shows that they are.
\<close>

section \<open>A table\<close>

text \<open>The text of a condition with its values.  A row has the values of the columns, in order.\<close>

type_synonym cond = "(string \<times> govalue list) option"
type_synonym row = "govalue list"

text \<open>What the texts of conditions and of orders mean.\<close>

type_synonym row_test = "string \<times> govalue list \<Rightarrow> row \<Rightarrow> bool"
type_synonym row_order = "string \<Rightarrow> row list \<Rightarrow> bool"

definition selects :: "row_test \<Rightarrow> cond \<Rightarrow> row \<Rightarrow> bool" where
  "selects sat c r = (case c of None \<Rightarrow> True | Some x \<Rightarrow> sat x r)"

definition set_columns :: "struct_type \<Rightarrow> (string \<times> govalue) list \<Rightarrow> row \<Rightarrow> row" where
  "set_columns st m r =
     map (\<lambda>(p, x). case map_of m (sf_Name p) of Some v \<Rightarrow> v | None \<Rightarrow> x) (zip (columns st) r)"

definition updated :: "row_test \<Rightarrow> struct_type \<Rightarrow> (string \<times> govalue) list \<Rightarrow> cond \<Rightarrow> row \<Rightarrow> row" where
  "updated sat st m c r = (if selects sat c r then set_columns st m r else r)"

definition limited :: "nat option \<Rightarrow> 'a list \<Rightarrow> 'a list" where
  "limited l xs = (case l of None \<Rightarrow> xs | Some n \<Rightarrow> take n xs)"

text \<open>The rows that satisfy a condition, in an order: any order at all when none is asked for.\<close>

definition arranged :: "row_test \<Rightarrow> row_order \<Rightarrow> cond \<Rightarrow> string option \<Rightarrow> row multiset \<Rightarrow> row list \<Rightarrow> bool" where
  "arranged sat srt c b t rs \<longleftrightarrow> mset rs = filter_mset (selects sat c) t \<and> (case b of None \<Rightarrow> True | Some d \<Rightarrow> srt d rs)"

text \<open>The operations, with their conditions, orders and limits.  The arguments of an insertion are
  pointers or structs, those of an update a map or keys and values in turn; \<open>DoFirst a\<close> reads into the
  object at \<open>a\<close>.\<close>

datatype table_op =
  DoInsert "dest list" | DoFind cond "string option" "nat option" | DoFirst nat cond "string option"
| DoUpdate "govalue list" cond | DoDelete cond | DoCount cond

datatype table_result = Affected int | Objects "obj list" | Loaded

text \<open>What each operation may do to a table and to the objects of the program, and what it returns.\<close>

definition dest_row :: "obj_heap \<Rightarrow> dest \<Rightarrow> row" where
  "dest_row h v = (case Indirect h v of None \<Rightarrow> [] | Some ob \<Rightarrow> column_values ob)"

definition kv_list :: "govalue list \<Rightarrow> (string \<times> govalue) list" where
  "kv_list kv = (case kv_map kv of Ret m \<Rightarrow> m | Panic p \<Rightarrow> [])"

fun table_step ::
    "'db orm_env \<Rightarrow> struct_type \<Rightarrow> row_test \<Rightarrow> row_order \<Rightarrow> table_op
       \<Rightarrow> row multiset \<times> obj_heap \<Rightarrow> table_result \<Rightarrow> row multiset \<times> obj_heap \<Rightarrow> bool" where
  "table_step env st sat srt (DoInsert vs) (t, h) y th' \<longleftrightarrow>
     y = Affected (int (length vs)) \<and> th' = (t + mset (map (dest_row h) vs), h)"
| "table_step env st sat srt (DoFind c b l) (t, h) y th' \<longleftrightarrow>
     (\<exists>rs. arranged sat srt c b t rs \<and> y = Objects (map (row_obj env st) (limited l rs))) \<and> th' = (t, h)"
| "table_step env st sat srt (DoFirst a c b) (t, h) y th' \<longleftrightarrow>
     y = Loaded \<and> (\<exists>r rs. arranged sat srt c b t (r # rs) \<and> th' = (t, h(a \<mapsto> row_obj env st r)))"
| "table_step env st sat srt (DoUpdate kv c) (t, h) y th' \<longleftrightarrow>
     y = Affected (int (size (filter_mset (selects sat c) t))) \<and> th' = (image_mset (updated sat st (kv_list kv) c) t, h)"
| "table_step env st sat srt (DoDelete c) (t, h) y th' \<longleftrightarrow>
     y = Affected (int (size (filter_mset (selects sat c) t))) \<and> th' = (filter_mset (\<lambda>r. \<not> selects sat c r) t, h)"
| "table_step env st sat srt (DoCount c) (t, h) y th' \<longleftrightarrow>
     y = Affected (int (size (filter_mset (selects sat c) t))) \<and> th' = (t, h)"

section \<open>The operations of a session\<close>

text \<open>A chain of calls, such as \<^verbatim>\<open>s.Where("Age > ?", 18).OrderBy("Name").Limit(3).Find(&users)\<close>.\<close>

type_synonym ('db, 'a) session_call = "'db session \<Rightarrow> 'a outcome \<times> 'db session"

definition with_cond :: "'db orm_env \<Rightarrow> cond \<Rightarrow> ('db, 'a) session_call \<Rightarrow> ('db, 'a) session_call" where
  "with_cond env c m = (case c of None \<Rightarrow> m | Some (desc, args) \<Rightarrow> bindS (Where env desc args) (\<lambda>_. m))"

definition with_order :: "'db orm_env \<Rightarrow> string option \<Rightarrow> ('db, 'a) session_call \<Rightarrow> ('db, 'a) session_call" where
  "with_order env b m = (case b of None \<Rightarrow> m | Some desc \<Rightarrow> bindS (OrderBy env desc) (\<lambda>_. m))"

definition with_limit :: "'db orm_env \<Rightarrow> nat option \<Rightarrow> ('db, 'a) session_call \<Rightarrow> ('db, 'a) session_call" where
  "with_limit env l m = (case l of None \<Rightarrow> m | Some n \<Rightarrow> bindS (Limit env (int n)) (\<lambda>_. m))"

definition affected :: "int \<times> goerror option \<Rightarrow> goerror + table_result" where
  "affected r = (case r of (n, Some err) \<Rightarrow> Inl err | (n, None) \<Rightarrow> Inr (Affected n))"

definition found :: "goerror option \<times> obj list \<Rightarrow> goerror + table_result" where
  "found r = (case r of (Some err, out) \<Rightarrow> Inl err | (None, out) \<Rightarrow> Inr (Objects out))"

definition loaded :: "goerror option \<Rightarrow> goerror + table_result" where
  "loaded r = (case r of Some err \<Rightarrow> Inl err | None \<Rightarrow> Inr Loaded)"

fun session_do :: "'db orm_env \<Rightarrow> struct_type \<Rightarrow> table_op \<Rightarrow> ('db, goerror + table_result) session_call" where
  "session_do env st (DoInsert vs) = bindS (Insert env vs) (\<lambda>r. retS (affected r))"
| "session_do env st (DoFind c b l) =
     with_cond env c (with_order env b (with_limit env l (bindS (Find env st []) (\<lambda>r. retS (found r)))))"
| "session_do env st (DoFirst a c b) = with_cond env c (with_order env b (bindS (First env a) (\<lambda>r. retS (loaded r))))"
| "session_do env st (DoUpdate kv c) = with_cond env c (bindS (Update env kv) (\<lambda>r. retS (affected r)))"
| "session_do env st (DoDelete c) = with_cond env c (bindS (Delete env) (\<lambda>r. retS (affected r)))"
| "session_do env st (DoCount c) = with_cond env c (bindS (Count env) (\<lambda>r. retS (affected r)))"

fun session_run :: "'db orm_env \<Rightarrow> struct_type \<Rightarrow> table_op list \<Rightarrow> ('db, (goerror + table_result) list) session_call" where
  "session_run env st [] = retS []"
| "session_run env st (x # xs) = bindS (session_do env st x) (\<lambda>r. bindS (session_run env st xs) (\<lambda>rs. retS (r # rs)))"

section \<open>What is asked of the database\<close>

definition where_text :: "cond \<Rightarrow> string" where
  "where_text c = (case c of None \<Rightarrow> '''' | Some (desc, args) \<Rightarrow> '' WHERE '' @ desc)"

definition cond_args :: "cond \<Rightarrow> govalue list" where
  "cond_args c = (case c of None \<Rightarrow> [] | Some (desc, args) \<Rightarrow> args)"

definition select_text :: "struct_type \<Rightarrow> cond \<Rightarrow> string option \<Rightarrow> nat option \<Rightarrow> string" where
  "select_text st c b l =
     ''SELECT '' @ join '','' (map sf_Name (columns st)) @ '' FROM '' @ st_Name st @ where_text c
       @ (case b of None \<Rightarrow> '''' | Some desc \<Rightarrow> '' ORDER BY '' @ desc)
       @ (case l of None \<Rightarrow> '''' | Some n \<Rightarrow> '' LIMIT ?'')"

definition limit_args :: "nat option \<Rightarrow> govalue list" where
  "limit_args l = (case l of None \<Rightarrow> [] | Some n \<Rightarrow> [VInt (int n)])"

definition count_text :: "struct_type \<Rightarrow> cond \<Rightarrow> string" where
  "count_text st c = ''SELECT count(*) FROM '' @ st_Name st @ where_text c"

definition delete_text :: "struct_type \<Rightarrow> cond \<Rightarrow> string" where
  "delete_text st c = ''DELETE FROM '' @ st_Name st @ where_text c"

definition update_text :: "struct_type \<Rightarrow> string list \<Rightarrow> cond \<Rightarrow> string" where
  "update_text st ks c = ''UPDATE '' @ st_Name st @ '' SET '' @ join '', '' (map (\<lambda>k. k @ '' = ?'') ks) @ where_text c"

text \<open>A statement that writes makes the change and reports a number, or fails and leaves the table; one
  that reads returns rows, or fails.  The texts end in the space that \<open>Raw\<close> adds.\<close>

definition executes ::
    "'db orm_env \<Rightarrow> handle \<Rightarrow> ('db \<Rightarrow> row multiset) \<Rightarrow> string \<Rightarrow> govalue list
       \<Rightarrow> (row multiset \<Rightarrow> row multiset) \<Rightarrow> (row multiset \<Rightarrow> nat) \<Rightarrow> bool" where
  "executes env hl tbl q vs f n \<longleftrightarrow>
     (\<forall>db. case oe_Exec env hl (q @ '' '') vs db of
        (Inl err, db') \<Rightarrow> tbl db' = tbl db
      | (Inr res, db') \<Rightarrow> tbl db' = f (tbl db) \<and> res = Inr (int (n (tbl db))))"

definition queries ::
    "'db orm_env \<Rightarrow> handle \<Rightarrow> ('db \<Rightarrow> row multiset) \<Rightarrow> string \<Rightarrow> govalue list \<Rightarrow> (row multiset \<Rightarrow> row list \<Rightarrow> bool) \<Rightarrow> bool" where
  "queries env hl tbl q vs P \<longleftrightarrow>
     (\<forall>db. case oe_Query env hl (q @ '' '') vs db of
        (Inl err, db') \<Rightarrow> tbl db' = tbl db
      | (Inr rows, db') \<Rightarrow> tbl db' = tbl db \<and> P (tbl db) (rows_data rows))"

text \<open>A row whose values come back from the database, and through \<open>Scan\<close>, as they are.\<close>

definition clean_row :: "'db orm_env \<Rightarrow> struct_type \<Rightarrow> row \<Rightarrow> bool" where
  "clean_row env st r \<longleftrightarrow> length r = length (columns st) \<and> oe_Scan env (map sf_Type (columns st)) r = Inr r"

text \<open>An update of columns of the table, each once, with values that fit them.\<close>

definition good_update :: "'db orm_env \<Rightarrow> struct_type \<Rightarrow> (string \<times> govalue) list \<Rightarrow> bool" where
  "good_update env st m \<longleftrightarrow> m \<noteq> [] \<and> distinct (map fst m) \<and> fst ` set m \<subseteq> sf_Name ` set (columns st)
     \<and> (\<forall>r. clean_row env st r \<longrightarrow> clean_row env st (set_columns st m r))"

text \<open>The texts that the program uses for conditions and orders.\<close>

definition uses :: "string set \<Rightarrow> string option \<Rightarrow> bool" where
  "uses C d \<longleftrightarrow> (case d of None \<Rightarrow> True | Some desc \<Rightarrow> desc \<in> C)"

definition table_db ::
    "'db orm_env \<Rightarrow> handle \<Rightarrow> struct_type \<Rightarrow> string set \<Rightarrow> string set \<Rightarrow> row_test \<Rightarrow> row_order \<Rightarrow> ('db \<Rightarrow> row multiset) \<Rightarrow> bool" where
  "table_db env hl st C B sat srt tbl \<longleftrightarrow>
     (\<forall>rows. rows \<noteq> [] \<and> (\<forall>r \<in> set rows. clean_row env st r) \<longrightarrow>
        executes env hl tbl (insert_sql st (length rows)) (concat rows) (\<lambda>t. t + mset rows) (\<lambda>t. length rows)) \<and>
     (\<forall>c. uses C (map_option fst c) \<longrightarrow>
        executes env hl tbl (delete_text st c) (cond_args c) (filter_mset (\<lambda>r. \<not> selects sat c r))
          (\<lambda>t. size (filter_mset (selects sat c) t)) \<and>
        (\<forall>m. good_update env st m \<longrightarrow> executes env hl tbl (update_text st (map fst m) c) (map snd m @ cond_args c)
           (image_mset (updated sat st m c)) (\<lambda>t. size (filter_mset (selects sat c) t))) \<and>
        (\<forall>b l. uses B b \<longrightarrow> queries env hl tbl (select_text st c b l) (cond_args c @ limit_args l)
           (\<lambda>t rs. \<exists>all. arranged sat srt c b t all \<and> rs = limited l all)) \<and>
        queries env hl tbl (count_text st c) (cond_args c)
          (\<lambda>t rs. rs = [[VInt (int (size (filter_mset (selects sat c) t)))]])) \<and>
     (\<forall>i db. tbl (snd (oe_Close env i db)) = tbl db) \<and>
     (\<forall>n. oe_Scan env [int64_type] [VInt n] = Inr [VInt n])"

section \<open>What the program may ask for\<close>

text \<open>\<open>types\<close> are the types of the objects that the program can point to.\<close>

definition clean_obj :: "'db orm_env \<Rightarrow> struct_type \<Rightarrow> obj \<Rightarrow> bool" where
  "clean_obj env st ob \<longleftrightarrow> obj_ok ob \<and> clean_row env st (column_values ob)"

fun of_type :: "(nat \<rightharpoonup> struct_type) \<Rightarrow> struct_type \<Rightarrow> dest \<Rightarrow> bool" where
  "of_type types st (PtrTo a) \<longleftrightarrow> types a = Some st"
| "of_type types st (StructVal ob) \<longleftrightarrow> o_type ob = st"

fun clean_dest :: "'db orm_env \<Rightarrow> struct_type \<Rightarrow> dest \<Rightarrow> bool" where
  "clean_dest env st (PtrTo a) \<longleftrightarrow> True"
| "clean_dest env st (StructVal ob) \<longleftrightarrow> clean_obj env st ob"

definition asks :: "string set \<Rightarrow> string set \<Rightarrow> cond \<Rightarrow> string option \<Rightarrow> bool" where
  "asks C B c b \<longleftrightarrow> uses C (map_option fst c) \<and> uses B b"

fun op_fits :: "'db orm_env \<Rightarrow> struct_type \<Rightarrow> string set \<Rightarrow> string set \<Rightarrow> (nat \<rightharpoonup> struct_type) \<Rightarrow> table_op \<Rightarrow> bool" where
  "op_fits env st C B types (DoInsert vs) \<longleftrightarrow> vs \<noteq> [] \<and> (\<forall>v \<in> set vs. of_type types st v \<and> clean_dest env st v)"
| "op_fits env st C B types (DoFind c b l) \<longleftrightarrow> asks C B c b"
| "op_fits env st C B types (DoFirst a c b) \<longleftrightarrow> asks C B c b \<and> types a = Some st"
| "op_fits env st C B types (DoUpdate kv c) \<longleftrightarrow>
     asks C B c None \<and> kv_map kv = Ret (kv_list kv) \<and> good_update env st (kv_list kv)"
| "op_fits env st C B types (DoDelete c) \<longleftrightarrow> asks C B c None"
| "op_fits env st C B types (DoCount c) \<longleftrightarrow> asks C B c None"

definition fits_objects :: "'db orm_env \<Rightarrow> struct_type \<Rightarrow> (nat \<rightharpoonup> struct_type) \<Rightarrow> obj_heap \<Rightarrow> bool" where
  "fits_objects env st types h \<longleftrightarrow> (\<forall>a. map_option o_type (h a) = types a)
     \<and> (\<forall>a ob. h a = Some ob \<longrightarrow> o_type ob = st \<longrightarrow> clean_obj env st ob)"

text \<open>The results of a run are those of the table, but for operations that fail and change nothing.\<close>

fun follows ::
    "'db orm_env \<Rightarrow> struct_type \<Rightarrow> row_test \<Rightarrow> row_order \<Rightarrow> table_op list \<Rightarrow> (goerror + table_result) list
       \<Rightarrow> row multiset \<times> obj_heap \<Rightarrow> row multiset \<times> obj_heap \<Rightarrow> bool" where
  "follows env st sat srt [] [] th th' \<longleftrightarrow> th' = th"
| "follows env st sat srt (x # xs) (Inl err # rs) th th' \<longleftrightarrow> follows env st sat srt xs rs th th'"
| "follows env st sat srt (x # xs) (Inr y # rs) th th' \<longleftrightarrow>
     (\<exists>th1. table_step env st sat srt x th y th1 \<and> follows env st sat srt xs rs th1 th')"
| "follows env st sat srt _ _ th th' \<longleftrightarrow> False"

section \<open>A session on a table\<close>

definition no_hooks :: "'db orm_env \<Rightarrow> bool" where
  "no_hooks env \<longleftrightarrow> (\<forall>p T m. oe_hooks env p T m = None)"

text \<open>The schema that a session on a table has.\<close>

definition table_schema :: "struct_type \<Rightarrow> (nat \<rightharpoonup> struct_type) \<Rightarrow> dialect \<Rightarrow> schema \<Rightarrow> bool" where
  "table_schema st types d t \<longleftrightarrow> sch_Name t = st_Name st \<and> sch_FieldNames t = map sf_Name (columns st)
     \<and> list_all2 (field_of d) (columns st) (sch_Fields t) \<and> of_type types st (sch_Model t)"

text \<open>Between operations nothing is pending; the session runs on the database or in the transaction \<open>hl\<close>.\<close>

definition on_table :: "handle \<Rightarrow> struct_type \<Rightarrow> (nat \<rightharpoonup> struct_type) \<Rightarrow> 'db session \<Rightarrow> bool" where
  "on_table hl st types s \<longleftrightarrow> ss_sql s = [] \<and> ss_vars s = [] \<and> ss_clause s = no_clause \<and> supported (ss_dialect s) st
     \<and> session_DB s = hl \<and> (\<exists>t. ss_refTable s = Some t \<and> table_schema st types (ss_dialect s) t)"

definition same_objects :: "(nat \<rightharpoonup> struct_type) \<Rightarrow> 'db session \<Rightarrow> obj_heap \<Rightarrow> bool" where
  "same_objects types s h \<longleftrightarrow> (\<forall>a. types a \<noteq> None \<longrightarrow> a < w_next s \<and> w_heap s a = h a)"

lemma on_tableE:
  assumes "on_table hl st types s"
  obtains t where "ss_refTable s = Some t" and "table_schema st types (ss_dialect s) t"
    and "ss_sql s = []" and "ss_vars s = []" and "ss_clause s = no_clause" and "supported (ss_dialect s) st"
    and "session_DB s = hl"
  using assms unfolding on_table_def by blast

lemma of_type_Indirect:
  assumes "fits_objects env st types h" and "same_objects types s h" and "of_type types st v"
  obtains ob where "Indirect (w_heap s) v = Some ob" and "Indirect h v = Some ob" and "o_type ob = st"
proof (cases v)
  case (PtrTo a)
  with assms(3) have "types a = Some st" by simp
  moreover have "map_option o_type (h a) = types a" using assms(1) by (simp add: fits_objects_def)
  moreover have "types a \<noteq> None \<longrightarrow> w_heap s a = h a" using assms(2) by (simp add: same_objects_def)
  ultimately show thesis using that PtrTo by (cases "h a") auto
qed (use that assms(3) in auto)

text \<open>\<open>Model\<close> on a value of the type may set another model, of the same type.\<close>

lemma Model_table:
  assumes objs: "fits_objects env st types h" "same_objects types s h" and v: "of_type types st v"
    and t: "\<And>t. ss_refTable s = Some t \<Longrightarrow> table_schema st types (ss_dialect s) t" and sup: "supported (ss_dialect s) st"
  shows "\<exists>t'. session_Model v s = (Ret (), s\<lparr>ss_refTable := Some t'\<rparr>) \<and> table_schema st types (ss_dialect s) t'"
proof -
  obtain ob where ob: "Indirect (w_heap s) v = Some ob" "o_type ob = st" by (rule of_type_Indirect [OF objs v])
  show ?thesis
  proof (cases "\<exists>t. ss_refTable s = Some t \<and> TypeOf (w_heap s) v = TypeOf (w_heap s) (sch_Model t)")
    case True
    then obtain t1 where "ss_refTable s = Some t1" "TypeOf (w_heap s) v = TypeOf (w_heap s) (sch_Model t1)" by blast
    with t show ?thesis by (intro exI [of _ t1]) (simp add: session_Model_def)
  next
    case False
    obtain t' where t': "Parse (w_heap s) v (ss_dialect s) = Ret t'"
      using Parse_total [OF ob(1)] sup ob(2) unfolding supported_def by blast
    from Parse_Ret [OF t'] Parse_FieldNames [OF t' ob(1)] ob v have "table_schema st types (ss_dialect s) t'"
      by (auto simp: table_schema_def)
    with False t' show ?thesis
      by (intro exI [of _ t'], cases "ss_refTable s") (simp_all add: session_Model_def)
  qed
qed

lemma CallMethod_quiet: "no_hooks env \<Longrightarrow> ss_refTable s = Some t \<Longrightarrow> CallMethod env m v s = (Ret (), s)"
  by (rule CallMethod_none) (simp_all add: no_hooks_def)

section \<open>Pending clauses\<close>

definition cond_clause :: "cond \<Rightarrow> clause \<Rightarrow> clause" where
  "cond_clause c k = (case c of None \<Rightarrow> k
     | Some (desc, args) \<Rightarrow> k\<lparr>cs_sql := (cs_sql k)(WHERE \<mapsto> ''WHERE '' @ desc), cs_vars := (cs_vars k)(WHERE \<mapsto> args)\<rparr>)"

definition order_clause :: "string option \<Rightarrow> clause \<Rightarrow> clause" where
  "order_clause b k = (case b of None \<Rightarrow> k
     | Some desc \<Rightarrow> k\<lparr>cs_sql := (cs_sql k)(ORDERBY \<mapsto> ''ORDER BY '' @ desc), cs_vars := (cs_vars k)(ORDERBY \<mapsto> [])\<rparr>)"

definition limit_clause :: "nat option \<Rightarrow> clause \<Rightarrow> clause" where
  "limit_clause l k = (case l of None \<Rightarrow> k
     | Some n \<Rightarrow> k\<lparr>cs_sql := (cs_sql k)(LIMIT \<mapsto> ''LIMIT ?''), cs_vars := (cs_vars k)(LIMIT \<mapsto> [VInt (int n)])\<rparr>)"

definition select_clause :: "cond \<Rightarrow> string option \<Rightarrow> nat option \<Rightarrow> clause" where
  "select_clause c b l = limit_clause l (order_clause b (cond_clause c no_clause))"

lemma with_cond_run: "with_cond env c m s = m (s\<lparr>ss_clause := cond_clause c (ss_clause s)\<rparr>)"
  by (cases s) (simp add: with_cond_def cond_clause_def Where_def set_clause_def clause_Set_def gen_where_def arg_def
      bindS_def split: option.splits)

lemma with_order_run: "with_order env b m s = m (s\<lparr>ss_clause := order_clause b (ss_clause s)\<rparr>)"
  by (cases s) (simp add: with_order_def order_clause_def OrderBy_def set_clause_def clause_Set_def gen_orderBy_def
      arg_def bindS_def split: option.splits)

lemma Limit_run: "Limit env (int n) s = (Ret (), s\<lparr>ss_clause := limit_clause (Some n) (ss_clause s)\<rparr>)"
  by (cases s) (simp add: limit_clause_def Limit_def set_clause_def clause_Set_def gen_limit_def)

lemma with_limit_run: "with_limit env l m s = m (s\<lparr>ss_clause := limit_clause l (ss_clause s)\<rparr>)"
  by (cases s) (simp add: with_limit_def limit_clause_def Limit_def set_clause_def clause_Set_def gen_limit_def bindS_def
      split: option.splits)

lemma cond_clause_simps [simp]:
  "cs_sql (cond_clause c no_clause) t = (if t = WHERE then map_option (\<lambda>x. ''WHERE '' @ fst x) c else None)"
  "cs_vars (cond_clause c no_clause) t = (if t = WHERE then map_option snd c else None)"
  by (auto simp: cond_clause_def no_clause_def split: option.splits)

lemma select_clause_simps [simp]:
  "cs_sql (select_clause c b l) t = (case t of
      WHERE \<Rightarrow> map_option (\<lambda>x. ''WHERE '' @ fst x) c | ORDERBY \<Rightarrow> map_option (\<lambda>d. ''ORDER BY '' @ d) b
    | LIMIT \<Rightarrow> map_option (\<lambda>n. ''LIMIT ?'') l | _ \<Rightarrow> None)"
  "cs_vars (select_clause c b l) t = (case t of
      WHERE \<Rightarrow> map_option snd c | ORDERBY \<Rightarrow> map_option (\<lambda>d. []) b | LIMIT \<Rightarrow> map_option (\<lambda>n. [VInt (int n)]) l | _ \<Rightarrow> None)"
  by (auto simp: select_clause_def limit_clause_def order_clause_def split: option.splits clause_type.splits)

end
