(* ===== verification/OrmUsers.thy ===== *)
theory OrmUsers
  imports OrmTable
begin

text \<open>
  A database with one table, of users, that satisfies the laws of a table: the instance to which the
  theorems on tables and transactions are applied.
\<close>

text \<open>A database with the table of users alone, which understands the statements on it: conditions on the
  name, the order of age, and updates of either column or both.\<close>

fun two_columns :: "govalue list \<Rightarrow> row list" where
  "two_columns (a # b # vs) = [a, b] # two_columns vs"
| "two_columns vs = []"

lemma two_columns_concat: "\<forall>r \<in> set rows. length r = 2 \<Longrightarrow> two_columns (concat rows) = rows"
  by (induction rows) (auto simp: length_Suc_conv numeral_2_eq_2)

lemma length_two_columns: "\<forall>r \<in> set rows. length r = 2 \<Longrightarrow> length (concat rows) = 2 * length rows"
  by (induction rows) auto

definition name_is :: row_test where
  "name_is x r \<longleftrightarrow> take 1 r = take 1 (snd x)"

fun row_age :: "row \<Rightarrow> int" where
  "row_age [v, VInt n] = n"
| "row_age r = 0"

definition by_age :: row_order where
  "by_age d rs \<longleftrightarrow> sorted (map row_age rs)"

definition by_name :: "govalue list \<Rightarrow> cond" where
  "by_name vs = Some (''Name = ?'', vs)"

definition users_change :: "(row list \<Rightarrow> row list) \<Rightarrow> nat \<Rightarrow> row list \<Rightarrow> (goerror + sql_result) \<times> row list" where
  "users_change f n t = (Inr (Inr (int n)), f t)"

definition users_updates :: "string list list" where
  "users_updates = [[''Name''], [''Age''], [''Name'', ''Age''], [''Age'', ''Name'']]"

definition users_Exec :: "string \<Rightarrow> govalue list \<Rightarrow> row list \<Rightarrow> (goerror + sql_result) \<times> row list" where
  "users_Exec q vs t =
     (let hits = (\<lambda>c. length (filter (selects name_is c) t));
          del = (\<lambda>c. users_change (filter (\<lambda>r. \<not> selects name_is c r)) (hits c) t);
          upd = (\<lambda>ks c. users_change (map (updated name_is user_type (zip ks vs) c)) (hits c) t)
      in if q = insert_sql user_type (length vs div 2) @ '' '' then users_change (\<lambda>t. t @ two_columns vs) (length vs div 2) t
         else if q = delete_text user_type None @ '' '' then del None
         else if q = delete_text user_type (by_name []) @ '' '' then del (by_name vs)
         else case find (\<lambda>ks. q = update_text user_type ks None @ '' '') users_updates of Some ks \<Rightarrow> upd ks None
         | None \<Rightarrow> (case find (\<lambda>ks. q = update_text user_type ks (by_name []) @ '' '') users_updates of
               Some ks \<Rightarrow> upd ks (by_name (drop (length ks) vs))
             | None \<Rightarrow> (Inl ''syntax error'', t)))"

definition users_select :: "bool \<Rightarrow> bool \<Rightarrow> bool \<Rightarrow> string" where
  "users_select w b l = select_text user_type (if w then by_name [] else None) (if b then Some ''Age'' else None)
     (if l then Some 0 else None) @ '' ''"

definition users_shapes :: "(bool \<times> bool \<times> bool) list" where
  "users_shapes = List.product [False, True] (List.product [False, True] [False, True])"

definition users_Query :: "string \<Rightarrow> govalue list \<Rightarrow> row list \<Rightarrow> (goerror + sql_rows) \<times> row list" where
  "users_Query q vs t =
     (let rows = (\<lambda>rs. (Inr (no_rows\<lparr>rows_Columns := [''Name'', ''Age''], rows_data := rs\<rparr>), t));
          hits = (\<lambda>c. filter (selects name_is c) t);
          lim = (\<lambda>rs. case last vs of VInt n \<Rightarrow> take (nat n) rs | v \<Rightarrow> rs)
      in if q = count_text user_type None @ '' '' then rows [[VInt (int (length (hits None)))]]
         else if q = count_text user_type (by_name []) @ '' '' then rows [[VInt (int (length (hits (by_name vs))))]]
         else case find (\<lambda>(w, b, l). q = users_select w b l) users_shapes of
           Some (w, b, l) \<Rightarrow>
             (let rs = hits (if w then by_name (if l then butlast vs else vs) else None);
                  rs' = (if b then sort_key row_age rs else rs)
              in rows (if l then lim rs' else rs'))
         | None \<Rightarrow> (Inl ''syntax error'', t))"

text \<open>The rows that are committed, and those that the only transaction there can be sees.\<close>

type_synonym users = "row list \<times> row list"

definition users_rows :: "handle \<Rightarrow> users \<Rightarrow> row list" where
  "users_rows h db = (case h of OnDB \<Rightarrow> fst db | OnTx i \<Rightarrow> snd db)"

definition users_at :: "handle \<Rightarrow> (row list \<Rightarrow> 'a \<times> row list) \<Rightarrow> users \<Rightarrow> 'a \<times> users" where
  "users_at h f db =
     (let (r, t) = f (users_rows h db) in (r, case h of OnDB \<Rightarrow> (t, snd db) | OnTx i \<Rightarrow> (fst db, t)))"

definition users_env :: "users orm_env" where
  "users_env =
     \<lparr>oe_Exec = (\<lambda>h q vs. users_at h (users_Exec q vs)), oe_Query = (\<lambda>h q vs. users_at h (users_Query q vs)),
      oe_Close = (\<lambda>i t. (None, t)),
      oe_Scan = (\<lambda>types vs. if length types = length vs then Inr vs else Inl ''sql: expected other destinations''),
      oe_Begin = (\<lambda>(com, now). (Inr 0, (com, com))), oe_Commit = (\<lambda>i (com, now). (None, (now, now))),
      oe_Rollback = (\<lambda>i (com, now). (None, (com, com))),
      oe_zero = (\<lambda>t. VNil), oe_iter = rev, oe_hooks = (\<lambda>ptr T m. None)\<rparr>"

lemma users_executes:
  assumes "\<And>t. case users_Exec (q @ '' '') vs t of (Inl err, t') \<Rightarrow> mset t' = mset t
      | (Inr res, t') \<Rightarrow> mset t' = f (mset t) \<and> res = Inr (int (n (mset t)))"
  shows "executes users_env hl (mset \<circ> users_rows hl) q vs f n"
  unfolding executes_def
proof
  fix db
  show "case oe_Exec users_env hl (q @ '' '') vs db of (Inl err, db') \<Rightarrow> (mset \<circ> users_rows hl) db' = (mset \<circ> users_rows hl) db
    | (Inr res, db') \<Rightarrow> (mset \<circ> users_rows hl) db' = f ((mset \<circ> users_rows hl) db) \<and> res = Inr (int (n ((mset \<circ> users_rows hl) db)))"
    using assms [of "users_rows hl db"]
    by (cases hl) (auto simp: users_env_def users_at_def users_rows_def split: prod.splits sum.splits)
qed

lemma users_queries:
  assumes "\<And>t. \<exists>rows. users_Query (q @ '' '') vs t = (Inr rows, t) \<and> P (mset t) (rows_data rows)"
  shows "queries users_env hl (mset \<circ> users_rows hl) q vs P"
  unfolding queries_def
proof
  fix db
  show "case oe_Query users_env hl (q @ '' '') vs db of (Inl err, db') \<Rightarrow> (mset \<circ> users_rows hl) db' = (mset \<circ> users_rows hl) db
    | (Inr rows, db') \<Rightarrow> (mset \<circ> users_rows hl) db' = (mset \<circ> users_rows hl) db \<and> P ((mset \<circ> users_rows hl) db) (rows_data rows)"
    using assms [of "users_rows hl db"]
    by (cases hl) (auto simp: users_env_def users_at_def users_rows_def split: prod.splits sum.splits)
qed

lemma user_table [simp]: "st_Name user_type = ''User''" "map sf_Name (columns user_type) = [''Name'', ''Age'']" "length (columns user_type) = 2"
  unfolding user_columns by (simp_all add: user_type_def)

lemma user_names: "sf_Name ` set (columns user_type) = {''Name'', ''Age''}"
  unfolding list.set_map [symmetric] user_table by simp

lemma clean_users: "clean_row users_env user_type r \<longleftrightarrow> length r = 2"
  by (auto simp: clean_row_def users_env_def)

lemma users_texts:
  "delete_text user_type c = ''DELETE FROM User'' @ where_text c"
  "update_text user_type ks c = ''UPDATE User SET '' @ join '', '' (map (\<lambda>k. k @ '' = ?'') ks) @ where_text c"
  "select_text user_type c b l = ''SELECT Name,Age FROM User'' @ where_text c
     @ (case b of None \<Rightarrow> '''' | Some desc \<Rightarrow> '' ORDER BY '' @ desc) @ (case l of None \<Rightarrow> '''' | Some n \<Rightarrow> '' LIMIT ?'')"
  "count_text user_type c = ''SELECT count(*) FROM User'' @ where_text c"
  by (simp_all add: delete_text_def update_text_def select_text_def count_text_def)

lemma users_conds: "uses {''Name = ?''} (map_option fst c) \<longleftrightarrow> c = None \<or> (\<exists>vs. c = by_name vs)"
  by (cases c) (auto simp: uses_def by_name_def)

lemma users_orders: "uses {''Age''} b \<longleftrightarrow> b = None \<or> b = Some ''Age''"
  by (cases b) (auto simp: uses_def)

lemma users_good_update:
  assumes "good_update users_env user_type m"
  shows "map fst m \<in> set users_updates"
proof -
  have "distinct (map fst m)" "m \<noteq> []" "set (map fst m) \<subseteq> {''Name'', ''Age''}"
    using assms by (simp_all add: good_update_def user_names)
  then show ?thesis
    by (cases "map fst m"; cases "tl (map fst m)"; cases "tl (tl (map fst m))") (auto simp: users_updates_def)
qed

lemma users_insert_text: "\<exists>z. insert_sql user_type n = CHR ''I'' # z"
  by (simp add: insert_sql_def insert_frag_def)

lemma users_update_run:
  assumes "ks \<in> set users_updates"
  shows "users_Exec (update_text user_type ks None @ '' '') vs t =
      users_change (map (updated name_is user_type (zip ks vs) None)) (length t) t"
    and "users_Exec (update_text user_type ks (by_name xs) @ '' '') vs t =
      users_change (map (updated name_is user_type (zip ks vs) (by_name (drop (length ks) vs))))
        (length (filter (selects name_is (by_name (drop (length ks) vs))) t)) t"
  using assms users_insert_text [of "length vs div 2"]
  by (auto simp: users_updates_def users_Exec_def users_texts where_text_def by_name_def selects_def Let_def)

lemma users_delete_run:
  "users_Exec (delete_text user_type None @ '' '') vs t = users_change (filter (\<lambda>r. \<not> selects name_is None r)) (length (filter (selects name_is None) t)) t"
  "users_Exec (delete_text user_type (by_name xs) @ '' '') vs t =
     users_change (filter (\<lambda>r. \<not> selects name_is (by_name vs) r)) (length (filter (selects name_is (by_name vs)) t)) t"
  using users_insert_text [of "length vs div 2"]
  by (auto simp: users_Exec_def users_texts where_text_def by_name_def Let_def)

lemma users_count_run:
  "users_Query (count_text user_type None @ '' '') vs t = (Inr (no_rows\<lparr>rows_Columns := [''Name'', ''Age''],
     rows_data := [[VInt (int (length (filter (selects name_is None) t)))]]\<rparr>), t)"
  "users_Query (count_text user_type (by_name xs) @ '' '') vs t = (Inr (no_rows\<lparr>rows_Columns := [''Name'', ''Age''],
     rows_data := [[VInt (int (length (filter (selects name_is (by_name vs)) t)))]]\<rparr>), t)"
  by (simp_all add: users_Query_def users_texts where_text_def by_name_def Let_def)

lemma users_select_find:
  "find (\<lambda>(w, b, l). users_select w' b' l' = users_select w b l) users_shapes = Some (w', b', l')"
  by (cases w'; cases b'; cases l') (simp_all add: users_shapes_def users_select_def users_texts where_text_def by_name_def)

lemma users_select_run:
  "users_Query (users_select w b l) vs t =
     (let rs = filter (selects name_is (if w then by_name (if l then butlast vs else vs) else None)) t;
          rs' = (if b then sort_key row_age rs else rs)
      in (Inr (no_rows\<lparr>rows_Columns := [''Name'', ''Age''],
            rows_data := (if l then case last vs of VInt n \<Rightarrow> take (nat n) rs' | v \<Rightarrow> rs' else rs')\<rparr>), t))"
proof -
  have "users_select w b l \<noteq> count_text user_type c @ '' ''" for c
    by (simp add: users_select_def users_texts)
  then show ?thesis unfolding users_Query_def Let_def users_select_find by simp
qed

lemma users_select_shape:
  "uses {''Name = ?''} (map_option fst c) \<Longrightarrow> uses {''Age''} b \<Longrightarrow>
     select_text user_type c b l @ '' '' = users_select (c \<noteq> None) (b \<noteq> None) (l \<noteq> None)"
  by (auto simp: users_conds users_orders users_select_def users_texts where_text_def by_name_def split: option.splits)

lemma users_select_law:
  assumes c: "uses {''Name = ?''} (map_option fst c)" and b: "uses {''Age''} b"
  shows "queries users_env hl (mset \<circ> users_rows hl) (select_text user_type c b l) (cond_args c @ limit_args l)
           (\<lambda>t rs. \<exists>all. arranged name_is by_age c b t all \<and> rs = limited l all)"
proof (rule users_queries)
  fix t
  let ?vs = "cond_args c @ limit_args l"
  let ?rs = "filter (selects name_is c) t"
  let ?all = "if b \<noteq> None then sort_key row_age ?rs else ?rs"
  have cond: "(if c \<noteq> None then by_name (if l \<noteq> None then butlast ?vs else ?vs) else None) = c"
    using c by (auto simp: users_conds by_name_def cond_args_def limit_args_def split: option.splits)
  have lim: "(if l \<noteq> None then case last ?vs of VInt n \<Rightarrow> take (nat n) ?all | v \<Rightarrow> ?all else ?all) = limited l ?all"
    by (auto simp: limited_def limit_args_def)
  have run: "users_Query (select_text user_type c b l @ '' '') ?vs t =
      (Inr (no_rows\<lparr>rows_Columns := [''Name'', ''Age''], rows_data := limited l ?all\<rparr>), t)"
    unfolding users_select_shape [OF assms] users_select_run Let_def cond lim by (rule refl)
  have "arranged name_is by_age c b (mset t) ?all"
    using b by (auto simp: arranged_def by_age_def users_orders)
  then show "\<exists>rows. users_Query (select_text user_type c b l @ '' '') ?vs t = (Inr rows, t)
      \<and> (\<exists>all. arranged name_is by_age c b (mset t) all \<and> rows_data rows = limited l all)"
    unfolding run by (auto intro: exI [of _ ?all])
qed

lemma users_insert_law:
  assumes "rows \<noteq> []" and "\<forall>r \<in> set rows. clean_row users_env user_type r"
  shows "executes users_env hl (mset \<circ> users_rows hl) (insert_sql user_type (length rows)) (concat rows)
    (\<lambda>t. t + mset rows) (\<lambda>t. length rows)"
proof (rule users_executes)
  have "length (concat rows) div 2 = length rows" "two_columns (concat rows) = rows"
    using assms length_two_columns [of rows] two_columns_concat [of rows] by (simp_all add: clean_users)
  then show "case users_Exec (insert_sql user_type (length rows) @ '' '') (concat rows) t of (Inl err, t') \<Rightarrow> mset t' = mset t
      | (Inr res, t') \<Rightarrow> mset t' = mset t + mset rows \<and> res = Inr (int (length rows))" for t
    by (simp add: users_Exec_def users_change_def Let_def)
qed

lemma users_update_law:
  assumes c: "uses {''Name = ?''} (map_option fst c)" and m: "good_update users_env user_type m"
  shows "executes users_env hl (mset \<circ> users_rows hl) (update_text user_type (map fst m) c) (map snd m @ cond_args c)
    (image_mset (updated name_is user_type m c)) (\<lambda>t. size (filter_mset (selects name_is c) t))"
proof (rule users_executes)
  note run = users_update_run [OF users_good_update [OF m]]
  have zip: "zip (map fst m) (map snd m @ xs) = m" for xs :: "govalue list"
    by (induction m) auto
  have exec: "users_Exec (update_text user_type (map fst m) c @ '' '') (map snd m @ cond_args c) t =
      (Inr (Inr (int (length (filter (selects name_is c) t)))), map (updated name_is user_type m c) t)" for t
  proof (cases c)
    case None
    have "filter (selects name_is None) t = t" by (simp add: selects_def)
    with None show ?thesis unfolding None run zip by (simp add: users_change_def)
  next
    case (Some x)
    then obtain xs where c: "c = by_name xs" using c users_conds [of c] by auto
    have "drop (length (map fst m)) (map snd m @ cond_args c) = xs" by (simp add: c by_name_def cond_args_def)
    then show ?thesis unfolding c run zip by (simp add: users_change_def)
  qed
  show "case users_Exec (update_text user_type (map fst m) c @ '' '') (map snd m @ cond_args c) t of
        (Inl err, t') \<Rightarrow> mset t' = mset t
      | (Inr res, t') \<Rightarrow> mset t' = image_mset (updated name_is user_type m c) (mset t)
          \<and> res = Inr (int (size (filter_mset (selects name_is c) (mset t))))" for t
    unfolding exec by (simp add: mset_filter [symmetric] del: mset_filter)
qed

lemma users_delete_law:
  assumes "uses {''Name = ?''} (map_option fst c)"
  shows "executes users_env hl (mset \<circ> users_rows hl) (delete_text user_type c) (cond_args c)
    (filter_mset (\<lambda>r. \<not> selects name_is c r)) (\<lambda>t. size (filter_mset (selects name_is c) t))"
proof (rule users_executes)
  have "c = None \<or> (\<exists>vs. c = by_name vs)" using assms by (simp add: users_conds)
  then show "case users_Exec (delete_text user_type c @ '' '') (cond_args c) t of (Inl err, t') \<Rightarrow> mset t' = mset t
      | (Inr res, t') \<Rightarrow> mset t' = filter_mset (\<lambda>r. \<not> selects name_is c r) (mset t)
          \<and> res = Inr (int (size (filter_mset (selects name_is c) (mset t))))" for t
    by (auto simp: users_change_def users_delete_run users_delete_run [unfolded by_name_def]
        cond_args_def by_name_def mset_filter [symmetric] simp del: mset_filter)
qed

lemma users_count_law:
  assumes "uses {''Name = ?''} (map_option fst c)"
  shows "queries users_env hl (mset \<circ> users_rows hl) (count_text user_type c) (cond_args c)
    (\<lambda>t rs. rs = [[VInt (int (size (filter_mset (selects name_is c) t)))]])"
proof (rule users_queries)
  have "c = None \<or> (\<exists>vs. c = by_name vs)" using assms by (simp add: users_conds)
  then show "\<exists>rows. users_Query (count_text user_type c @ '' '') (cond_args c) t = (Inr rows, t)
      \<and> rows_data rows = [[VInt (int (size (filter_mset (selects name_is c) (mset t))))]]" for t
    by (auto simp: users_count_run users_count_run [unfolded by_name_def]
        cond_args_def by_name_def mset_filter [symmetric] simp del: mset_filter)
qed

lemma users_db: "table_db users_env hl user_type {''Name = ?''} {''Age''} name_is by_age (mset \<circ> users_rows hl)"
  unfolding table_db_def
proof (intro conjI allI impI)
  fix i db
  show "(mset \<circ> users_rows hl) (snd (oe_Close users_env i db)) = (mset \<circ> users_rows hl) db" by (simp add: users_env_def)
next
  fix n
  show "oe_Scan users_env [int64_type] [VInt n] = Inr [VInt n]" by (simp add: users_env_def int64_type_def)
qed (auto intro: users_insert_law users_update_law users_select_law users_delete_law users_count_law)

end
