(* ===== verification/OrmRefine.thy ===== *)
theory OrmRefine
  imports OrmUsers
begin

text \<open>
  A session is a table of objects: any sequence of the operations of \<^verbatim>\<open>session/record.go\<close>, with conditions,
  orders and limits, on objects passed by pointer or by value, does and returns what the same operations
  on a multiset of rows do.
\<close>

section \<open>Each operation\<close>

lemma session_DB_updates [simp]:
  "session_DB (s\<lparr>w_db := d\<rparr>) = session_DB s" "session_DB (s\<lparr>w_heap := hp\<rparr>) = session_DB s"
  "session_DB (s\<lparr>w_next := n\<rparr>) = session_DB s" "session_DB (s\<lparr>ss_refTable := t\<rparr>) = session_DB s"
  "session_DB (s\<lparr>ss_clause := k\<rparr>) = session_DB s"
  by (simp_all add: session_DB_def)

text \<open>What a step of a session says about the table and the objects.\<close>

definition does ::
    "'db orm_env \<Rightarrow> handle \<Rightarrow> struct_type \<Rightarrow> (nat \<rightharpoonup> struct_type) \<Rightarrow> row_test \<Rightarrow> row_order \<Rightarrow> ('db \<Rightarrow> row multiset) \<Rightarrow> table_op
       \<Rightarrow> 'db session \<Rightarrow> obj_heap \<Rightarrow> (goerror + table_result) outcome \<times> 'db session \<Rightarrow> bool" where
  "does env hl st types sat srt tbl x s h res \<longleftrightarrow>
     (\<exists>y s'. res = (Ret y, s') \<and> on_table hl st types s' \<and>
        (case y of
           Inl err \<Rightarrow> tbl (w_db s') = tbl (w_db s) \<and> same_objects types s' h
         | Inr z \<Rightarrow> \<exists>h'. table_step env st sat srt x (tbl (w_db s), h) z (tbl (w_db s'), h') \<and> same_objects types s' h'))"

text \<open>What is sent with nothing pending leaves a session on the table, whatever its clauses were.\<close>

lemma on_table_sent:
  assumes "on_table hl st types s" and "sent_by s0 s'" and "ss_dialect s0 = ss_dialect s" and "ss_tx s0 = ss_tx s"
    and "ss_refTable s0 = Some t" and "table_schema st types (ss_dialect s) t"
  shows "on_table hl st types s'"
  using assms by (auto simp: on_table_def sent_by_def session_DB_def)

lemma same_objects_sent:
  "same_objects types s h \<Longrightarrow> sent_by s0 s' \<Longrightarrow> w_heap s0 = w_heap s \<Longrightarrow> w_next s0 = w_next s \<Longrightarrow> same_objects types s' h"
  by (simp add: same_objects_def sent_by_def)

text \<open>The end of the writing operations.\<close>

lemma exec_op_does:
  assumes table: "on_table hl st types s0" and objs: "same_objects types s0 h" and hooks: "no_hooks env"
    and t: "table_schema st types (ss_dialect s0) t"
    and s: "s = s0\<lparr>ss_refTable := Some t, ss_clause := k\<rparr>"
    and q: "clause_Build orders k = (q, vs)" and ex: "executes env hl tbl q vs f n"
    and step: "table_step env st sat srt x (tbl (w_db s0), h) (Affected (int (n (tbl (w_db s0))))) (f (tbl (w_db s0)), h)"
  shows "does env hl st types sat srt tbl x s0 h (bindS (exec_then env orders after) (\<lambda>r. retS (affected r)) s)"
proof -
  obtain y db where y: "oe_Exec env (session_DB s) (q @ '' '') vs (w_db s) = (y, db)" by fastforce
  obtain r s' where e: "exec_then env orders after s = (r, s')" by fastforce
  have pend: "ss_refTable s = Some t" "ss_sql s = []" "ss_vars s = []" "clause_Build orders (ss_clause s) = (q, vs)"
    "w_db s = w_db s0" "session_DB s = hl" using table q by (simp_all add: s on_table_def session_DB_def)
  have none: "\<And>p T. oe_hooks env p T after = None" using hooks by (simp add: no_hooks_def)
  note sent = exec_then_sent [OF pend(1) none pend(2-4) y e]
  have "on_table hl st types s'" by (rule on_table_sent [OF table, of "Raw q vs s"]) (use sent t in \<open>simp_all add: s\<close>)
  moreover have "same_objects types s' h"
    by (rule same_objects_sent [OF objs, of "Raw q vs s"]) (use sent in \<open>simp_all add: s\<close>)
  moreover have "case y of Inl err \<Rightarrow> tbl db = tbl (w_db s0) | Inr res \<Rightarrow> tbl db = f (tbl (w_db s0)) \<and> res = Inr (int (n (tbl (w_db s0))))"
    using ex [unfolded executes_def, rule_format, of "w_db s"] y pend(5,6) by (cases y) simp_all
  ultimately show ?thesis
    using sent e step by (cases y) (auto simp: does_def retS_def affected_def rows_affected_def)
qed

text \<open>Each operation is taken through its calls to the statement that it sends.\<close>

lemma delete_does:
  assumes table: "on_table hl st types s" and objs: "same_objects types s h" and hooks: "no_hooks env"
    and db: "table_db env hl st C B sat srt tbl" and c: "asks C B c None"
  shows "does env hl st types sat srt tbl (DoDelete c) s h (session_do env st (DoDelete c) s)"
proof -
  from on_tableE [OF table] obtain t where t: "ss_refTable s = Some t" "table_schema st types (ss_dialect s) t"
    and fresh: "ss_clause s = no_clause" by blast
  let ?s1 = "s\<lparr>ss_clause := cond_clause c no_clause\<rparr>"
  obtain frag where frag: "frag = ''DELETE FROM '' @ st_Name st" by blast
  let ?k = "(cond_clause c no_clause)\<lparr>cs_sql := (cs_sql (cond_clause c no_clause))(DELETE \<mapsto> frag),
      cs_vars := (cs_vars (cond_clause c no_clause))(DELETE \<mapsto> [])\<rparr>"
  have run: "Delete env ?s1 = exec_then env [DELETE, WHERE] ''AfterDelete'' (s\<lparr>ss_clause := ?k\<rparr>)"
    using t by (simp add: Delete_def CallMethod_quiet [OF hooks] table_of_Ret set_clause_def clause_Set_def gen_delete_def
        arg_def table_schema_def frag)
  have q: "clause_Build [DELETE, WHERE] ?k = (delete_text st c, cond_args c)"
    by (cases c) (auto simp: clause_Build_def delete_text_def where_text_def cond_args_def frag)
  have ex: "executes env hl tbl (delete_text st c) (cond_args c) (filter_mset (\<lambda>r. \<not> selects sat c r))
          (\<lambda>t. size (filter_mset (selects sat c) t))"
    using db c by (simp add: table_db_def asks_def)
  have "does env hl st types sat srt tbl (DoDelete c) s h
      (bindS (exec_then env [DELETE, WHERE] ''AfterDelete'') (\<lambda>r. retS (affected r)) (s\<lparr>ss_clause := ?k\<rparr>))"
    by (rule exec_op_does [OF table objs hooks t(2) _ q ex]) (use t(1) in simp_all)
  then show ?thesis using fresh run by (simp add: with_cond_run bindS_def)
qed

text \<open>The order of the columns of an update is that of the iteration over the map, which does not matter.\<close>

definition iter_ok :: "'db orm_env \<Rightarrow> bool" where
  "iter_ok env \<longleftrightarrow> (\<forall>m. mset (oe_iter env m) = mset m)"

lemma good_update_iter:
  assumes "iter_ok env" and "good_update env st m"
  shows "good_update env st (oe_iter env m)" and "set_columns st (oe_iter env m) = set_columns st m"
proof -
  have m: "mset (oe_iter env m) = mset m" using assms(1) by (simp add: iter_ok_def)
  then have set: "set (oe_iter env m) = set m" by (rule mset_eq_setD)
  have "mset (map fst (oe_iter env m)) = mset (map fst m)" by (simp only: mset_map m)
  then have dist: "distinct (map fst (oe_iter env m))"
    using assms(2) mset_eq_imp_distinct_iff [of "map fst (oe_iter env m)" "map fst m"] by (simp add: good_update_def)
  have "map_of (oe_iter env m) = map_of m"
    by (rule map_of_inject_set [THEN iffD2]) (use dist assms(2) set in \<open>auto simp: good_update_def\<close>)
  then show same: "set_columns st (oe_iter env m) = set_columns st m" by (simp add: fun_eq_iff set_columns_def)
  from assms(2) dist set m show "good_update env st (oe_iter env m)"
    unfolding good_update_def same by (cases m) auto
qed

lemma update_does:
  assumes table: "on_table hl st types s" and objs: "same_objects types s h" and hooks: "no_hooks env"
    and db: "table_db env hl st C B sat srt tbl" and c: "asks C B c None" and iter: "iter_ok env"
    and kv: "kv_map kv = Ret (kv_list kv)" "good_update env st (kv_list kv)"
  shows "does env hl st types sat srt tbl (DoUpdate kv c) s h (session_do env st (DoUpdate kv c) s)"
proof -
  from on_tableE [OF table] obtain t where t: "ss_refTable s = Some t" "table_schema st types (ss_dialect s) t"
    and fresh: "ss_clause s = no_clause" by blast
  let ?m = "oe_iter env (kv_list kv)" and ?s1 = "s\<lparr>ss_clause := cond_clause c no_clause\<rparr>"
  have m: "good_update env st ?m" "set_columns st ?m = set_columns st (kv_list kv)"
    by (rule good_update_iter [OF iter kv(2)])+
  obtain frag where frag: "frag = ''UPDATE '' @ st_Name st @ '' SET '' @ join '', '' (map (\<lambda>(k, x). k @ '' = ?'') ?m)" by blast
  let ?k = "(cond_clause c no_clause)\<lparr>cs_sql := (cs_sql (cond_clause c no_clause))(UPDATE \<mapsto> frag),
      cs_vars := (cs_vars (cond_clause c no_clause))(UPDATE \<mapsto> map snd ?m)\<rparr>"
  have kvS: "bindS (\<lambda>s. (kv_map kv, s)) g s' = g (kv_list kv) s'" for g :: "_ \<Rightarrow> _ \<Rightarrow> 'z outcome \<times> _" and s'
    using kv(1) by (simp add: bindS_def)
  have run: "Update env kv ?s1 = exec_then env [UPDATE, WHERE] ''AfterUpdate'' (s\<lparr>ss_clause := ?k\<rparr>)"
    using t by (simp add: Update_def CallMethod_quiet [OF hooks] kvS table_of_Ret set_clause_def clause_Set_def
        gen_update_def arg_def table_schema_def frag)
  have ks: "map (\<lambda>k. k @ '' = ?'') (map fst ?m) = map (\<lambda>(k, x). k @ '' = ?'') ?m" by (simp add: split_beta)
  have q: "clause_Build [UPDATE, WHERE] ?k = (update_text st (map fst ?m) c, map snd ?m @ cond_args c)"
    unfolding update_text_def ks by (cases c) (auto simp: clause_Build_def where_text_def cond_args_def frag)
  have ex: "executes env hl tbl (update_text st (map fst ?m) c) (map snd ?m @ cond_args c)
      (image_mset (updated sat st ?m c)) (\<lambda>t. size (filter_mset (selects sat c) t))"
    using db c m(1) by (simp add: table_db_def asks_def)
  have up: "updated sat st ?m c = updated sat st (kv_list kv) c" using m(2) by (simp add: updated_def fun_eq_iff)
  have "does env hl st types sat srt tbl (DoUpdate kv c) s h
      (bindS (exec_then env [UPDATE, WHERE] ''AfterUpdate'') (\<lambda>r. retS (affected r)) (s\<lparr>ss_clause := ?k\<rparr>))"
    by (rule exec_op_does [OF table objs hooks t(2) _ q ex]) (use t(1) up in simp_all)
  then show ?thesis using fresh run by (simp add: with_cond_run bindS_def)
qed

lemma clean_dest_Indirect:
  assumes "fits_objects env st types h" and "of_type types st v" and "clean_dest env st v" and "Indirect h v = Some ob"
  shows "clean_obj env st ob"
proof (cases v)
  case (PtrTo a)
  then have "h a = Some ob" "types a = Some st" using assms(2,4) by simp_all
  moreover have "map_option o_type (h a) = types a" using assms(1) by (simp add: fits_objects_def)
  ultimately show ?thesis using assms(1) by (simp add: fits_objects_def)
qed (use assms(3,4) in simp)

text \<open>The session while \<open>Insert\<close> goes through its arguments.\<close>

definition inserting :: "struct_type \<Rightarrow> schema \<Rightarrow> 'db session \<Rightarrow> 'db session" where
  "inserting st t s = s\<lparr>ss_refTable := Some t, ss_clause := (ss_clause s)\<lparr>cs_sql := (cs_sql (ss_clause s))(INSERT \<mapsto> insert_frag st),
     cs_vars := (cs_vars (ss_clause s))(INSERT \<mapsto> [])\<rparr>\<rparr>"

lemma inserting_again [simp]: "inserting st t' (inserting st t s) = inserting st t' s"
  by (cases s) (simp add: inserting_def)

lemma inserting_simps [simp]:
  "ss_refTable (inserting st t s) = Some t" "ss_dialect (inserting st t s) = ss_dialect s"
  "w_heap (inserting st t s) = w_heap s" "w_next (inserting st t s) = w_next s"
  by (simp_all add: inserting_def)

lemma insert_loop_table:
  assumes hooks: "no_hooks env" and fits: "fits_objects env st types h" and objs: "same_objects types s h"
    and t: "ss_refTable s = Some t" "table_schema st types (ss_dialect s) t" and sup: "supported (ss_dialect s) st"
    and vs: "\<forall>v \<in> set vs. of_type types st v \<and> clean_dest env st v"
  shows "\<exists>t'. insert_loop env vs acc s =
     (Ret (acc @ map VRow (map (dest_row h) vs)), if vs = [] then s else inserting st t' s) \<and> table_schema st types (ss_dialect s) t'"
  using objs t sup vs
proof (induction vs arbitrary: s t acc)
  case (Cons v vs)
  have v: "of_type types st v" "clean_dest env st v" using Cons.prems(5) by simp_all
  obtain ob where ob: "Indirect (w_heap s) v = Some ob" "Indirect h v = Some ob" "o_type ob = st"
    by (rule of_type_Indirect [OF fits Cons.prems(1) v(1)])
  from Model_table [OF fits Cons.prems(1) v(1) _ Cons.prems(4)] Cons.prems(2,3) obtain t1 where
    t1: "session_Model v s = (Ret (), s\<lparr>ss_refTable := Some t1\<rparr>)" "table_schema st types (ss_dialect s) t1" by auto
  let ?s1 = "inserting st t1 s"
  have set: "set_clause env INSERT [VStr (sch_Name t1), VStrs (sch_FieldNames t1)] (s\<lparr>ss_refTable := Some t1\<rparr>) = (Ret (), ?s1)"
    using t1(2) by (simp add: inserting_def set_clause_def clause_Set_def gen_insert_def arg_def table_schema_def insert_frag_def)
  have "obj_ok ob" using clean_dest_Indirect [OF fits v ob(2)] by (simp add: clean_obj_def)
  then have row: "RecordValues (w_heap ?s1) t1 v = Ret (dest_row h v)"
    using RecordValues_columns [OF ob(1), of "ss_dialect s" t1] t1(2) ob(2,3) by (simp add: table_schema_def dest_row_def)
  have rec: "bindS (\<lambda>s. (RecordValues (w_heap s) t1 v, s)) g ?s1 = g (dest_row h v) ?s1"
    for g :: "_ \<Rightarrow> _ \<Rightarrow> 'z outcome \<times> _"
    using row by (simp add: bindS_def)
  have step: "insert_loop env (v # vs) acc s = insert_loop env vs (acc @ [VRow (dest_row h v)]) ?s1"
    using Cons.prems(2) by (simp add: CallMethod_quiet [OF hooks] t1(1) table_of_Ret set rec)
  have "same_objects types ?s1 h" using Cons.prems(1) by (simp add: same_objects_def)
  from Cons.IH [OF this, of t1 "acc @ [VRow (dest_row h v)]"] t1(2) Cons.prems(4,5) obtain t' where
    "insert_loop env vs (acc @ [VRow (dest_row h v)]) ?s1 = (Ret ((acc @ [VRow (dest_row h v)]) @ map VRow (map (dest_row h) vs)),
       if vs = [] then ?s1 else inserting st t' s)" "table_schema st types (ss_dialect s) t'" by (cases "vs = []") auto
  with step t1(2) show ?case by (cases "vs = []") (auto intro: exI [of _ t1] exI [of _ t'])
qed (auto simp: retS_def)

lemma insert_does:
  assumes table: "on_table hl st types s" and objs: "same_objects types s h" and hooks: "no_hooks env"
    and db: "table_db env hl st C B sat srt tbl" and fits: "fits_objects env st types h"
    and vs: "vs \<noteq> []" "\<forall>v \<in> set vs. of_type types st v \<and> clean_dest env st v"
  shows "does env hl st types sat srt tbl (DoInsert vs) s h (session_do env st (DoInsert vs) s)"
proof -
  from on_tableE [OF table] obtain t where t: "ss_refTable s = Some t" "table_schema st types (ss_dialect s) t"
    and fresh: "ss_clause s = no_clause" and sup: "supported (ss_dialect s) st" by blast
  let ?rows = "map (dest_row h) vs"
  obtain vals where vals: "vals = ''VALUES '' @ join '', '' (replicate (length vs) (''('' @ genBindVars (length (columns st)) @ '')''))"
    by blast
  let ?k1 = "no_clause\<lparr>cs_sql := [INSERT \<mapsto> insert_frag st], cs_vars := [INSERT \<mapsto> []]\<rparr>"
  let ?k = "?k1\<lparr>cs_sql := (cs_sql ?k1)(VALUES \<mapsto> vals), cs_vars := (cs_vars ?k1)(VALUES \<mapsto> concat ?rows)\<rparr>"
  obtain t' where loop: "insert_loop env vs [] s = (Ret (map VRow ?rows), s\<lparr>ss_refTable := Some t', ss_clause := ?k1\<rparr>)"
    and t': "table_schema st types (ss_dialect s) t'"
    using insert_loop_table [OF hooks fits objs t sup vs(2), of "[]"] vs(1) fresh by (auto simp: no_clause_def inserting_def)
  have clean: "clean_row env st (dest_row h v)" if "v \<in> set vs" for v
  proof -
    have v: "of_type types st v" "clean_dest env st v" using vs(2) that by simp_all
    obtain ob where "Indirect h v = Some ob" by (rule of_type_Indirect [OF fits objs v(1)])
    with clean_dest_Indirect [OF fits v] show ?thesis by (simp add: clean_obj_def dest_row_def)
  qed
  then have len: "\<forall>r \<in> set ?rows. length r = length (columns st)" by (simp add: clean_row_def)
  have gen: "gen_values (map VRow ?rows) = Ret (vals, concat ?rows)"
    using gen_values_rows [OF len] vals by (simp add: map_replicate_const o_def)
  have run: "Insert env vs s = exec_then env [INSERT, VALUES] ''AfterInsert'' (s\<lparr>ss_refTable := Some t', ss_clause := ?k\<rparr>)"
    using gen by (simp add: Insert_def loop set_clause_def clause_Set_def)
  have q: "clause_Build [INSERT, VALUES] ?k = (insert_sql st (length vs), concat ?rows)"
    by (simp add: clause_Build_def insert_sql_def vals)
  have ex: "executes env hl tbl (insert_sql st (length vs)) (concat ?rows) (\<lambda>t. t + mset ?rows) (\<lambda>t. length ?rows)"
    using db [unfolded table_db_def, THEN conjunct1, rule_format, of ?rows] vs(1) clean by auto
  have "does env hl st types sat srt tbl (DoInsert vs) s h
      (bindS (exec_then env [INSERT, VALUES] ''AfterInsert'') (\<lambda>r. retS (affected r)) (s\<lparr>ss_refTable := Some t', ss_clause := ?k\<rparr>))"
    by (rule exec_op_does [OF table objs hooks t' _ q ex]) simp_all
  then show ?thesis using run by (simp add: bindS_def)
qed

text \<open>The two reading operations.\<close>

lemma queriesD:
  "queries env hl tbl q vs P \<Longrightarrow> oe_Query env hl (q @ '' '') vs db = (y, db') \<Longrightarrow>
     (case y of Inl err \<Rightarrow> tbl db' = tbl db | Inr rows \<Rightarrow> tbl db' = tbl db \<and> P (tbl db) (rows_data rows))"
  unfolding queries_def by (cases y) (auto dest: spec [of _ db])

lemma find_table:
  assumes table: "on_table hl st types s" and objs: "same_objects types s h" and hooks: "no_hooks env"
    and db: "table_db env hl st C B sat srt tbl" and c: "asks C B c b" and fits: "fits_objects env st types h"
    and names: "names_distinct st" and clean: "\<forall>r \<in># tbl (w_db s). clean_row env st r"
  shows "\<exists>e out s'. Find env st [] (s\<lparr>ss_clause := select_clause c b l\<rparr>) = (Ret (e, out), s') \<and> on_table hl st types s'
     \<and> same_objects types s' h \<and> tbl (w_db s') = tbl (w_db s)
     \<and> (e = None \<longrightarrow> (\<exists>rs. arranged sat srt c b (tbl (w_db s)) rs \<and> out = map (row_obj env st) (limited l rs)))"
proof -
  from on_tableE [OF table] obtain t where t: "ss_refTable s = Some t" "table_schema st types (ss_dialect s) t"
    and fresh: "ss_sql s = []" "ss_vars s = []" "session_DB s = hl" and sup: "supported (ss_dialect s) st" by blast
  let ?s1 = "s\<lparr>ss_clause := select_clause c b l\<rparr>" and ?names = "map sf_Name (columns st)"
  have z: "of_type types st (StructVal (zero_obj env st))" by (simp add: zero_obj_def)
  have "same_objects types ?s1 h" using objs by (simp add: same_objects_def)
  from Model_table [OF fits this z] t sup obtain t1 where
    t1: "session_Model (StructVal (zero_obj env st)) ?s1 = (Ret (), ?s1\<lparr>ss_refTable := Some t1\<rparr>)"
      "table_schema st types (ss_dialect s) t1" by auto
  let ?k = "(select_clause c b l)\<lparr>cs_sql := (cs_sql (select_clause c b l))(SELECT \<mapsto> select_frag st),
      cs_vars := (cs_vars (select_clause c b l))(SELECT \<mapsto> [])\<rparr>"
  let ?s2 = "s\<lparr>ss_refTable := Some t1, ss_clause := ?k\<rparr>"
  let ?q = "Raw (select_text st c b l) (cond_args c @ limit_args l) ?s2"
  have q: "clause_Build [SELECT, WHERE, ORDERBY, LIMIT] ?k = (select_text st c b l, cond_args c @ limit_args l)"
    by (cases c; cases b; cases l)
      (auto simp: clause_Build_def select_text_def select_frag_def where_text_def cond_args_def limit_args_def)
  have names_t: "sch_Name t1 = st_Name st" "sch_FieldNames t1 = ?names" using t1(2) by (simp_all add: table_schema_def)
  have set: "set_clause env SELECT [VStr (st_Name st), VStrs ?names] (?s1\<lparr>ss_refTable := Some t1\<rparr>) = (Ret (), ?s2)"
    by (simp add: set_clause_def clause_Set_def gen_select_def arg_def select_frag_def)
  have raw: "build_raw [SELECT, WHERE, ORDERBY, LIMIT] ?s2 = ?q" by (simp add: build_raw_def q)
  obtain y s3 where e: "QueryRows env ?q = (y, s3)" by fastforce
  note sent = QueryRows_sent [OF e]
  have s3: "on_table hl st types s3" by (rule on_table_sent [OF table sent(1)]) (use t1(2) in simp_all)
  have o3: "same_objects types s3 h" by (rule same_objects_sent [OF objs sent(1)]) simp_all
  have qs: "queries env hl tbl (select_text st c b l) (cond_args c @ limit_args l)
      (\<lambda>t rs. \<exists>all. arranged sat srt c b t all \<and> rs = limited l all)"
    using db c unfolding table_db_def asks_def by blast
  have y: "case y of Inl err \<Rightarrow> tbl (w_db s3) = tbl (w_db s)
      | Inr rows \<Rightarrow> tbl (w_db s3) = tbl (w_db s) \<and> (\<exists>all. arranged sat srt c b (tbl (w_db s)) all \<and> rows_data rows = limited l all)"
    by (rule queriesD [OF qs]) (use sent(2) fresh in simp)
  have run: "Find env st [] ?s1 = (case y of Inl err \<Rightarrow> (Ret (Some err, []), s3)
      | Inr rows \<Rightarrow> find_loop env st ?names rows (rows_data rows) [] s3)"
    using t(1) by (cases y) (simp_all add: Find_def CallMethod_quiet [OF hooks] t1(1) table_of_Ret names_t set raw e)
  show ?thesis
  proof (cases y)
    case (Inl err)
    with run y s3 o3 show ?thesis by auto
  next
    case (Inr rows)
    with y obtain all where all: "arranged sat srt c b (tbl (w_db s)) all" "rows_data rows = limited l all"
      and same: "tbl (w_db s3) = tbl (w_db s)" by auto
    have "mset all = filter_mset (selects sat c) (tbl (w_db s))" using all(1) by (simp add: arranged_def)
    then have "set all \<subseteq> set_mset (tbl (w_db s))" by (metis filter_mset_eq_conv mset_subset_eq_multiset_union_diff_commute multiset_filter_subset set_mset_mono set_mset_mset)
    then have "\<forall>r \<in> set (rows_data rows). oe_Scan env (map sf_Type (columns st)) r = Inr r"
      using clean all(2) by (auto simp: limited_def clean_row_def split: option.splits dest: in_set_takeD)
    then have scan: "list_all2 (\<lambda>r vs. oe_Scan env (map sf_Type (columns st)) r = Inr vs) (rows_data rows) (rows_data rows)"
      by (simp add: list.rel_refl_strong)
    have quiet: "\<And>p T. oe_hooks env p T ''AfterQuery'' = None" using hooks by (simp add: no_hooks_def)
    from on_tableE [OF s3] obtain t3 where t3: "ss_refTable s3 = Some t3" by blast
    from find_loop_heap [OF quiet t3 scan_types_columns [OF names] scan, of rows "[]" "[]"] obtain hp n where
      loop: "find_loop env st ?names rows (rows_data rows) [] s3
        = (Ret (None, map (row_obj env st) (rows_data rows)), snd (close_rows env rows (s3\<lparr>w_heap := hp, w_next := n\<rparr>)))"
      and hp: "w_next s3 \<le> n" "\<forall>a < w_next s3. hp a = w_heap s3 a"
      by (auto simp: row_obj_def)
    obtain ce d where cl: "oe_Close env (rows_id rows) (w_db s3) = (ce, d)" by fastforce
    have "tbl (snd (oe_Close env (rows_id rows) (w_db s3))) = tbl (w_db s3)" using db by (simp add: table_db_def)
    then have "tbl d = tbl (w_db s)" using cl same by simp
    moreover have "on_table hl st types (s3\<lparr>w_heap := hp, w_next := n, w_db := d\<rparr>)" using s3 by (simp add: on_table_def)
    moreover have "same_objects types (s3\<lparr>w_heap := hp, w_next := n, w_db := d\<rparr>) h" using o3 hp by (auto simp: same_objects_def)
    ultimately show ?thesis using run Inr loop all cl by (auto simp: close_rows_def)
  qed
qed

lemma find_does:
  assumes table: "on_table hl st types s" and "same_objects types s h" and "no_hooks env" and "table_db env hl st C B sat srt tbl"
    and "asks C B c b" and "fits_objects env st types h" and "names_distinct st" and "\<forall>r \<in># tbl (w_db s). clean_row env st r"
  shows "does env hl st types sat srt tbl (DoFind c b l) s h (session_do env st (DoFind c b l) s)"
proof -
  from find_table [OF assms, of l] obtain e out s' where
    run: "Find env st [] (s\<lparr>ss_clause := select_clause c b l\<rparr>) = (Ret (e, out), s')" "on_table hl st types s'"
      "same_objects types s' h" "tbl (w_db s') = tbl (w_db s)"
    and out: "e = None \<longrightarrow> (\<exists>rs. arranged sat srt c b (tbl (w_db s)) rs \<and> out = map (row_obj env st) (limited l rs))" by blast
  have "ss_clause s = no_clause" using table by (simp add: on_table_def)
  then have "session_do env st (DoFind c b l) s = (Ret (found (e, out)), s')"
    using run(1) by (simp add: with_cond_run with_order_run with_limit_run select_clause_def [symmetric] retS_def)
  with run(2-4) out show ?thesis by (cases e) (auto simp: does_def found_def)
qed

lemma first_does:
  assumes table: "on_table hl st types s" and objs: "same_objects types s h" and "no_hooks env" and "table_db env hl st C B sat srt tbl"
    and "asks C B c b" and fits: "fits_objects env st types h" and "names_distinct st" and "\<forall>r \<in># tbl (w_db s). clean_row env st r"
    and a: "types a = Some st"
  shows "does env hl st types sat srt tbl (DoFirst a c b) s h (session_do env st (DoFirst a c b) s)"
proof -
  from find_table [OF assms(1-8), of "Some 1"] obtain e out s' where
    run: "Find env st [] (s\<lparr>ss_clause := select_clause c b (Some 1)\<rparr>) = (Ret (e, out), s')" "on_table hl st types s'"
      "same_objects types s' h" "tbl (w_db s') = tbl (w_db s)"
    and out: "e = None \<longrightarrow> (\<exists>rs. arranged sat srt c b (tbl (w_db s)) rs \<and> out = map (row_obj env st) (limited (Some 1) rs))" by blast
  have fresh: "ss_clause s = no_clause" using table by (simp add: on_table_def)
  obtain ob where ob: "w_heap s a = Some ob" "o_type ob = st" using of_type_Indirect [OF fits objs, of "PtrTo a"] a by auto
  have lim: "Limit env 1 (s\<lparr>ss_clause := order_clause b (cond_clause c no_clause)\<rparr>)
      = (Ret (), s\<lparr>ss_clause := select_clause c b (Some 1)\<rparr>)"
    using Limit_run [of env 1 "s\<lparr>ss_clause := order_clause b (cond_clause c no_clause)\<rparr>"] by (simp add: select_clause_def)
  have first: "session_do env st (DoFirst a c b) s = (case e of
       Some err \<Rightarrow> (Ret (Inl err), s')
     | None \<Rightarrow> (case out of
          [] \<Rightarrow> (Ret (Inl ''NOT FOUND''), s')
        | ob' # _ \<Rightarrow> (Ret (Inr Loaded), s'\<lparr>w_heap := (w_heap s')(a \<mapsto> ob')\<rparr>)))"
    using run(1) [simplified] ob fresh
    by (simp add: with_cond_run with_order_run First_def lim [simplified] bindS_def retS_def loaded_def split: option.splits list.splits)
  show ?thesis
  proof (cases e)
    case (Some err)
    with run first show ?thesis by (simp add: does_def)
  next
    case None
    with out obtain rs where rs: "arranged sat srt c b (tbl (w_db s)) rs" "out = map (row_obj env st) (limited (Some 1) rs)" by blast
    show ?thesis
    proof (cases rs)
      case Nil
      with rs(2) None run first show ?thesis by (simp add: does_def limited_def)
    next
      case (Cons r rest)
      let ?s = "s'\<lparr>w_heap := (w_heap s')(a \<mapsto> row_obj env st r)\<rparr>"
      have "session_do env st (DoFirst a c b) s = (Ret (Inr Loaded), ?s)"
        using first None rs(2) Cons by (simp add: limited_def)
      moreover have "on_table hl st types ?s" using run(2) by (simp add: on_table_def)
      moreover have "same_objects types ?s (h(a \<mapsto> row_obj env st r))" using run(3) by (auto simp: same_objects_def)
      moreover have "table_step env st sat srt (DoFirst a c b) (tbl (w_db s), h) Loaded (tbl (w_db ?s), h(a \<mapsto> row_obj env st r))"
        using rs(1) Cons run(4) by auto
      ultimately show ?thesis unfolding does_def by (intro exI conjI) (assumption, assumption, auto)
    qed
  qed
qed

lemma count_does:
  assumes table: "on_table hl st types s" and objs: "same_objects types s h" and hooks: "no_hooks env"
    and db: "table_db env hl st C B sat srt tbl" and c: "asks C B c None"
  shows "does env hl st types sat srt tbl (DoCount c) s h (session_do env st (DoCount c) s)"
proof -
  from on_tableE [OF table] obtain t where t: "ss_refTable s = Some t" "table_schema st types (ss_dialect s) t"
    and fresh: "ss_sql s = []" "ss_vars s = []" "ss_clause s = no_clause" "session_DB s = hl" by blast
  let ?s1 = "s\<lparr>ss_clause := cond_clause c no_clause\<rparr>"
  obtain frag where frag: "frag = ''SELECT count(*) FROM '' @ st_Name st" by blast
  let ?k = "(cond_clause c no_clause)\<lparr>cs_sql := (cs_sql (cond_clause c no_clause))(COUNT \<mapsto> frag),
      cs_vars := (cs_vars (cond_clause c no_clause))(COUNT \<mapsto> [])\<rparr>"
  let ?q = "Raw (count_text st c) (cond_args c) (s\<lparr>ss_clause := ?k\<rparr>)"
  have q: "clause_Build [COUNT, WHERE] ?k = (count_text st c, cond_args c)"
    by (cases c) (auto simp: clause_Build_def count_text_def where_text_def cond_args_def frag)
  have set: "set_clause env COUNT [VStr (sch_Name t)] ?s1 = (Ret (), s\<lparr>ss_clause := ?k\<rparr>)"
    using t(2) by (simp add: set_clause_def clause_Set_def gen_count_def gen_select_def arg_def table_schema_def frag)
  have raw: "build_raw [COUNT, WHERE] (s\<lparr>ss_clause := ?k\<rparr>) = ?q" using q by (simp add: build_raw_def)
  obtain y s3 where e: "QueryRow env ?q = (y, s3)" by fastforce
  note sent = QueryRow_sent [OF e]
  obtain r s4 where r: "row_Scan env [int64_type] y s3 = (r, s4)" by fastforce
  have s3: "on_table hl st types s3" by (rule on_table_sent [OF table sent(1)]) (use t in simp_all)
  have o3: "same_objects types s3 h" by (rule same_objects_sent [OF objs sent(1)]) simp_all
  have "s4 = s3\<lparr>w_db := w_db s4\<rparr>" using row_Scan_db [of env "[int64_type]" y s3] r by auto
  moreover have "on_table hl st types (s3\<lparr>w_db := d\<rparr>) \<and> same_objects types (s3\<lparr>w_db := d\<rparr>) h" for d
    using s3 o3 by (simp add: on_table_def same_objects_def)
  ultimately have s4: "on_table hl st types s4" "same_objects types s4 h" by metis+
  let ?n = "int (size (filter_mset (selects sat c) (tbl (w_db s))))"
  have qs: "queries env hl tbl (count_text st c) (cond_args c) (\<lambda>t rs. rs = [[VInt (int (size (filter_mset (selects sat c) t)))]])"
    using db c unfolding table_db_def asks_def by blast
  have y: "case y of Inl err \<Rightarrow> tbl (w_db s3) = tbl (w_db s) | Inr rows \<Rightarrow> tbl (w_db s3) = tbl (w_db s) \<and> rows_data rows = [[VInt ?n]]"
    by (rule queriesD [OF qs]) (use sent(2) fresh in simp)
  have close: "\<And>i d. tbl (snd (oe_Close env i d)) = tbl d" "\<And>n. oe_Scan env [int64_type] [VInt n] = Inr [VInt n]"
    using db by (simp_all add: table_db_def)
  have res: "tbl (w_db s4) = tbl (w_db s) \<and> (\<forall>vs. r = Inr vs \<longrightarrow> vs = [VInt ?n])"
  proof (cases y)
    case (Inr rows)
    obtain ce d where cl: "oe_Close env (rows_id rows) (w_db s3) = (ce, d)" by fastforce
    with close(1) [of "rows_id rows" "w_db s3"] have "tbl d = tbl (w_db s3)" by simp
    with y Inr r cl show ?thesis by (auto simp: row_Scan_def close_rows_def close(2) split: option.splits)
  qed (use y r in \<open>auto simp: row_Scan_def\<close>)
  have run: "Count env ?s1 = (case r of Inl err \<Rightarrow> (Ret (0, Some err), s4)
      | Inr vs \<Rightarrow> (Ret (case vs of VInt n # _ \<Rightarrow> n | _ \<Rightarrow> 0, None), s4))"
    using t by (simp add: Count_def table_of_Ret set raw e r)
  have "does env hl st types sat srt tbl (DoCount c) s h (bindS (Count env) (\<lambda>r. retS (affected r)) ?s1)"
    using run res s4 by (cases r) (simp_all add: does_def retS_def affected_def)
  then show ?thesis using fresh(3) by (simp add: with_cond_run)
qed

section \<open>Refinement\<close>

text \<open>What was inserted comes back: the columns of the object that a row becomes are the row.\<close>

lemma zip_map_self: "zip xs (map f (zip xs (map g xs))) = map (\<lambda>x. (x, f (x, g x))) xs"
  by (induction xs) auto

lemma column_values_row_obj:
  assumes "names_distinct st" and "length r = length (columns st)"
  shows "column_values (row_obj env st r) = r"
proof -
  let ?f = "\<lambda>p. case map_of (zip (map sf_Name (columns st)) r) (sf_Name p) of Some x \<Rightarrow> x | None \<Rightarrow> oe_zero env (sf_Type p)"
  have "column_values (row_obj env st r) = map ?f (columns st)"
    by (simp add: column_values_def row_obj_def assign_fields_def zero_obj_def zip_map_self columns_def filter_map o_def)
  also have "\<dots> = r"
  proof (rule nth_equalityI)
    fix i assume "i < length (map ?f (columns st))"
    then have i: "i < length (map sf_Name (columns st))" by simp
    have "distinct (map sf_Name (columns st))"
      using assms(1) by (simp add: names_distinct_def columns_def distinct_map_filter)
    with map_of_zip_nth [of "map sf_Name (columns st)" r i] assms(2) i show "map ?f (columns st) ! i = r ! i" by simp
  qed (use assms(2) in simp)
  finally show ?thesis .
qed

lemma row_obj_clean:
  assumes "names_distinct st" and "clean_row env st r"
  shows "o_type (row_obj env st r) = st" and "clean_obj env st (row_obj env st r)"
proof -
  show st: "o_type (row_obj env st r) = st" by (simp add: row_obj_def assign_fields_def zero_obj_def)
  have "obj_ok (row_obj env st r)"
    using assms(1) by (simp add: obj_ok_def names_distinct_def row_obj_def assign_fields_def zero_obj_def)
  with assms column_values_row_obj [of st r env] show "clean_obj env st (row_obj env st r)"
    by (simp add: clean_obj_def clean_row_def)
qed

lemma session_do_does:
  assumes "on_table hl st types s" and "same_objects types s h" and "no_hooks env" and "table_db env hl st C B sat srt tbl"
    and "fits_objects env st types h" and "names_distinct st" and "iter_ok env"
    and "\<forall>r \<in># tbl (w_db s). clean_row env st r" and "op_fits env st C B types x"
  shows "does env hl st types sat srt tbl x s h (session_do env st x s)"
proof (cases x)
  case (DoInsert vs)
  show ?thesis unfolding DoInsert by (rule insert_does) (use assms DoInsert in auto)
next
  case (DoFind c b l)
  show ?thesis unfolding DoFind by (rule find_does) (use assms DoFind in auto)
next
  case (DoFirst a c b)
  show ?thesis unfolding DoFirst by (rule first_does) (use assms DoFirst in auto)
next
  case (DoUpdate kv c)
  show ?thesis unfolding DoUpdate by (rule update_does) (use assms DoUpdate in auto)
next
  case (DoDelete c)
  show ?thesis unfolding DoDelete by (rule delete_does) (use assms DoDelete in auto)
next
  case (DoCount c)
  show ?thesis unfolding DoCount by (rule count_does) (use assms DoCount in auto)
qed

text \<open>A step of the table keeps its rows and the objects clean.\<close>

lemma table_step_clean:
  assumes "op_fits env st C B types x" and "table_step env st sat srt x (t, h) y (t', h')"
    and "\<forall>r \<in># t. clean_row env st r" and "fits_objects env st types h" and "names_distinct st"
    and "same_objects types s h"
  shows "(\<forall>r \<in># t'. clean_row env st r) \<and> fits_objects env st types h'"
proof (cases x)
  case (DoInsert vs)
  have "clean_row env st (dest_row h v)" if "v \<in> set vs" for v
  proof -
    have v: "of_type types st v" "clean_dest env st v" using assms(1) that by (simp_all add: DoInsert)
    obtain ob where "Indirect h v = Some ob" by (rule of_type_Indirect [OF assms(4,6) v(1)])
    with clean_dest_Indirect [OF assms(4) v] show ?thesis by (simp add: clean_obj_def dest_row_def)
  qed
  with assms(2-4) show ?thesis by (auto simp: DoInsert)
next
  case (DoFirst a c b)
  with assms(2) obtain r rs where r: "arranged sat srt c b t (r # rs)" "t' = t" "h' = h(a \<mapsto> row_obj env st r)" by auto
  then have "r \<in># filter_mset (selects sat c) t" by (metis arranged_def list.set_intros(1) set_mset_mset)
  then have "clean_row env st r" using assms(3) by simp
  from row_obj_clean [OF assms(5) this] r assms(1,3,4) show ?thesis by (auto simp: DoFirst fits_objects_def)
next
  case (DoUpdate kv c)
  with assms(1-4) show ?thesis by (auto simp: good_update_def updated_def)
qed (use assms(2-4) in auto)

text \<open>C37: A session is a table of objects.  If the database does to the table what SQL says of the five
  kinds of statements, or fails, then any sequence of insertions, queries, updates, deletions and counts on
  objects of one type, with conditions, orders and limits, returns without a panic; each operation either
  returns an error and leaves the table and the objects of the program as they were, or returns what the
  same operation on a multiset of rows may return, and leaves the table and the objects as it does.\<close>

theorem orm_refines_table:
  assumes "table_db env hl st C B sat srt tbl" and "no_hooks env" and "iter_ok env" and "names_distinct st"
    and "on_table hl st types s" and "same_objects types s h" and "fits_objects env st types h"
    and "\<forall>r \<in># tbl (w_db s). clean_row env st r" and "\<forall>x \<in> set ops. op_fits env st C B types x"
  shows "\<exists>rs s' h'. session_run env st ops s = (Ret rs, s') \<and> same_objects types s' h'
     \<and> follows env st sat srt ops rs (tbl (w_db s), h) (tbl (w_db s'), h')"
  using assms(5-9)
proof (induction ops arbitrary: s h)
  case (Cons x ops)
  have x: "op_fits env st C B types x" using Cons.prems(5) by simp
  have "does env hl st types sat srt tbl x s h (session_do env st x s)"
    by (rule session_do_does [OF Cons.prems(1,2) assms(2,1) Cons.prems(3) assms(4,3) Cons.prems(4) x])
  then obtain y s1 where do: "session_do env st x s = (Ret y, s1)" "on_table hl st types s1"
    and y: "case y of Inl err \<Rightarrow> tbl (w_db s1) = tbl (w_db s) \<and> same_objects types s1 h
      | Inr z \<Rightarrow> \<exists>h'. table_step env st sat srt x (tbl (w_db s), h) z (tbl (w_db s1), h') \<and> same_objects types s1 h'"
    unfolding does_def by blast
  then obtain h1 where h1: "same_objects types s1 h1" "case y of Inl err \<Rightarrow> tbl (w_db s1) = tbl (w_db s) \<and> h1 = h
      | Inr z \<Rightarrow> table_step env st sat srt x (tbl (w_db s), h) z (tbl (w_db s1), h1)"
    by (cases y) auto
  have "(\<forall>r \<in># tbl (w_db s1). clean_row env st r) \<and> fits_objects env st types h1"
    using h1(2) Cons.prems(3,4) table_step_clean [OF x _ Cons.prems(4,3) assms(4) Cons.prems(2)] by (cases y) auto
  with Cons.IH [OF do(2) h1(1)] Cons.prems(5) obtain rs s' h' where
    "session_run env st ops s1 = (Ret rs, s')" "same_objects types s' h'"
    "follows env st sat srt ops rs (tbl (w_db s1), h1) (tbl (w_db s'), h')" by auto
  with do(1) h1(2) show ?case
    by (intro exI [of _ "y # rs"] exI [of _ s'] exI [of _ h'], cases y) (auto simp: retS_def)
qed (auto simp: retS_def)

section \<open>A program on the table of users\<close>

definition users_heap :: obj_heap where
  "users_heap = [0 \<mapsto> user ''Tom'' 18, 1 \<mapsto> user ''Sam'' 25, 2 \<mapsto> user '''' 0]"

definition users_types :: "nat \<rightharpoonup> struct_type" where
  "users_types a = map_option o_type (users_heap a)"

definition users_session :: "users session" where
  "users_session = (session_new \<lparr>w_db = ([], []), w_heap = users_heap, w_next = 3, w_log = [], eng_dialect = sqlite3\<rparr> sqlite3)
     \<lparr>ss_refTable := Some (user_schema (PtrTo 2))\<rparr>"

lemma users_on_table: "on_table OnDB user_type users_types users_session"
proof -
  have p: "Parse users_heap (PtrTo 2) sqlite3 = Ret (user_schema (PtrTo 2))" "Indirect users_heap (PtrTo 2) = Some (user '''' 0)"
    by (simp_all add: Parse_user users_heap_def) (simp_all add: Parse_user user_def)
  from Parse_Ret [OF p(1)] Parse_FieldNames [OF p] p(2) have "table_schema user_type users_types sqlite3 (user_schema (PtrTo 2))"
    by (auto simp: table_schema_def users_types_def user_def)
  then show ?thesis by (simp add: on_table_def users_session_def user_supported) (simp add: session_DB_def)
qed

lemma users_same_objects: "same_objects users_types users_session users_heap"
  by (auto simp: same_objects_def users_types_def users_session_def users_heap_def split: if_splits)

lemma user_clean: "clean_obj users_env user_type (user name age)"
  by (simp add: clean_obj_def user_obj_ok user_values clean_users)

lemma users_fit: "fits_objects users_env user_type users_types users_heap"
  by (auto simp: fits_objects_def users_types_def users_heap_def user_clean split: if_splits)

text \<open>Two users are inserted through pointers and one by value; one grows older, is read into a third
  object, and that object is inserted; the youngest are listed, one is deleted, the rest are counted.\<close>

definition users_program :: "table_op list" where
  "users_program =
     [DoInsert [PtrTo 0, PtrTo 1, StructVal (user ''Ann'' 40)],
      DoUpdate [VStr ''Age'', VInt 30] (by_name [VStr ''Tom'']),
      DoFirst 2 (by_name [VStr ''Tom'']) None, DoInsert [PtrTo 2],
      DoFind None (Some ''Age'') (Some 3), DoDelete (by_name [VStr ''Sam'']), DoCount None]"

lemma users_keep_clean: "clean_row users_env user_type r \<Longrightarrow> clean_row users_env user_type (set_columns user_type m r)"
  by (simp add: clean_users set_columns_def)

lemma users_program_fits: "\<forall>x \<in> set users_program. op_fits users_env user_type {''Name = ?''} {''Age''} users_types x"
proof -
  have kv: "kv_map [VStr ''Age'', VInt 30] = Ret [(''Age'', VInt 30)]" by (simp add: kv_map_def arg_def)
  have up: "good_update users_env user_type [(''Age'', VInt 30)]"
    unfolding good_update_def user_names using users_keep_clean by simp
  have types: "users_types 0 = Some user_type" "users_types 1 = Some user_type" "users_types 2 = Some user_type"
    by (simp_all add: users_types_def users_heap_def user_def)
  have asks: "asks {''Name = ?''} {''Age''} (by_name vs) None" "asks {''Name = ?''} {''Age''} None None"
    "asks {''Name = ?''} {''Age''} None (Some ''Age'')" for vs
    by (simp_all add: asks_def uses_def by_name_def)
  show ?thesis
    using types [simplified] asks up user_clean [of "''Ann''" 40]
    by (simp add: users_program_def kv_list_def kv) (simp add: user_def)
qed

theorem orm_refines_table_witness:
  "\<exists>rs s' h'. session_run users_env user_type users_program users_session = (Ret rs, s') \<and> same_objects users_types s' h'
     \<and> follows users_env user_type name_is by_age users_program rs ({#}, users_heap) (mset (fst (w_db s')), h')"
proof -
  have "no_hooks users_env" "iter_ok users_env" "w_db users_session = ([], [])"
    by (simp_all add: no_hooks_def iter_ok_def users_env_def users_session_def)
  with orm_refines_table [OF users_db _ _ user_distinct users_on_table users_same_objects users_fit _ users_program_fits]
  show ?thesis by (simp add: users_rows_def)
qed

end
