(* ===== verification/OrmTransaction.thy ===== *)
theory OrmTransaction
  imports OrmRefine
begin

text \<open>
  Transactions of operations on a table: \<open>Transaction\<close> of \<^verbatim>\<open>geeorm.go\<close> around a function that sets a
  model and runs operations until one returns an error.  The laws of transactions, \<open>tx_laws\<close>, and those
  of a table inside a transaction, \<open>table_db\<close>, together make it all or nothing on the table that
  others see.
\<close>

section \<open>The function\<close>

text \<open>The operations in turn, up to the first error, which the function returns.\<close>

fun session_try :: "'db orm_env \<Rightarrow> struct_type \<Rightarrow> table_op list \<Rightarrow> ('db, unit) tx_func" where
  "session_try env st [] = retS (None, None)"
| "session_try env st (x # xs) =
     bindS (session_do env st x) (\<lambda>r. case r of Inl err \<Rightarrow> retS (None, Some err) | Inr y \<Rightarrow> session_try env st xs)"

definition table_tx :: "'db orm_env \<Rightarrow> struct_type \<Rightarrow> dest \<Rightarrow> table_op list \<Rightarrow> ('db, unit) tx_func" where
  "table_tx env st v ops = bindS (session_Model v) (\<lambda>_. session_try env st ops)"

lemma session_try_follows:
  assumes "table_db env hl st C B sat srt tbl" and "no_hooks env" and "iter_ok env" and "names_distinct st"
    and "on_table hl st types s" and "same_objects types s h" and "fits_objects env st types h"
    and "\<forall>r \<in># tbl (w_db s). clean_row env st r" and "\<forall>x \<in> set ops. op_fits env st C B types x"
  shows "\<exists>err s' h'. session_try env st ops s = (Ret (None, err), s') \<and> on_table hl st types s' \<and> same_objects types s' h'
     \<and> (err = None \<longrightarrow> (\<exists>ys. follows env st sat srt ops (map Inr ys) (tbl (w_db s), h) (tbl (w_db s'), h')))"
  using assms(5-9)
proof (induction ops arbitrary: s h)
  case Nil
  then show ?case by (auto simp: retS_def intro!: exI [of _ "[]"])
next
  case (Cons x ops)
  have x: "op_fits env st C B types x" using Cons.prems(5) by simp
  from session_do_does [OF Cons.prems(1,2) assms(2,1) Cons.prems(3) assms(4,3) Cons.prems(4) x] obtain y s1 where
    do: "session_do env st x s = (Ret y, s1)" "on_table hl st types s1"
    and y: "case y of Inl err \<Rightarrow> tbl (w_db s1) = tbl (w_db s) \<and> same_objects types s1 h
      | Inr z \<Rightarrow> \<exists>h'. table_step env st sat srt x (tbl (w_db s), h) z (tbl (w_db s1), h') \<and> same_objects types s1 h'"
    unfolding does_def by blast
  show ?case
  proof (cases y)
    case (Inl err)
    with do y show ?thesis by (auto simp: retS_def)
  next
    case (Inr z)
    with y obtain h1 where h1: "table_step env st sat srt x (tbl (w_db s), h) z (tbl (w_db s1), h1)" "same_objects types s1 h1"
      by auto
    have "(\<forall>r \<in># tbl (w_db s1). clean_row env st r) \<and> fits_objects env st types h1"
      by (rule table_step_clean [OF x h1(1) Cons.prems(4,3) assms(4) Cons.prems(2)])
    with Cons.IH [OF do(2) h1(2)] Cons.prems(5) obtain err s' h' where
      rest: "session_try env st ops s1 = (Ret (None, err), s')" "on_table hl st types s'" "same_objects types s' h'"
        "err = None \<longrightarrow> (\<exists>ys. follows env st sat srt ops (map Inr ys) (tbl (w_db s1), h1) (tbl (w_db s'), h'))" by auto
    have "\<exists>ys. follows env st sat srt (x # ops) (map Inr ys) (tbl (w_db s), h) (tbl (w_db s'), h')" if "err = None"
    proof -
      from rest(4) that obtain ys where "follows env st sat srt ops (map Inr ys) (tbl (w_db s1), h1) (tbl (w_db s'), h')" by blast
      with h1(1) show ?thesis by (intro exI [of _ "z # ys"]) auto
    qed
    with do(1) Inr rest(1-3) show ?thesis by auto
  qed
qed

section \<open>What others see meanwhile\<close>

lemma no_hooks_keep: "no_hooks env \<Longrightarrow> hooks_keep env P"
  by (simp add: no_hooks_def hooks_keep_def)

lemma chain_keeps [keeps]:
  assumes "keeps (on_db Q) m"
  shows "keeps (on_db Q) (with_cond env c m)" and "keeps (on_db Q) (with_order env b m)" and "keeps (on_db Q) (with_limit env l m)"
  using assms by (auto simp: with_cond_def with_order_def with_limit_def Where_def OrderBy_def Limit_def split: option.splits
      intro!: keeps_bindS set_clause_keeps)

lemma session_do_keeps:
  assumes "db_kept env Q" and "no_hooks env"
  shows "keeps (on_db Q) (session_do env st x)"
  by (cases x) (auto intro!: chain_keeps keeps_bindS keeps_retS Insert_keeps Find_keeps First_keeps Update_keeps
      Delete_keeps Count_keeps assms no_hooks_keep)

lemma session_try_keeps:
  assumes "db_kept env Q" and "no_hooks env"
  shows "keeps (on_db Q) (session_try env st ops)"
proof (induction ops)
  case (Cons x ops)
  have "keeps (on_db Q) (case r of Inl err \<Rightarrow> retS (None, Some err) | Inr y \<Rightarrow> session_try env st ops)"
    for r :: "goerror + table_result"
    using Cons.IH by (cases r) (simp_all add: keeps_retS)
  then show ?case using session_do_keeps [OF assms, of st x] by (auto intro!: keeps_bindS)
qed (simp add: keeps_retS)

lemma table_tx_keeps: "db_kept env Q \<Longrightarrow> no_hooks env \<Longrightarrow> keeps (on_db Q) (table_tx env st v ops)"
  by (auto simp: table_tx_def intro!: keeps_bindS session_Model_keeps session_try_keeps)

section \<open>All or nothing\<close>

lemma Begin_next: "Begin env s = (r, s') \<Longrightarrow> w_next s' = w_next s"
  by (auto simp: Begin_def Let_def split: prod.splits sum.splits)

text \<open>The function, on the session that has begun a transaction.\<close>

lemma table_tx_run:
  assumes laws: "tx_laws env committed view" and db: "\<And>t. table_db env (OnTx t) st C B sat srt (tb \<circ> view t)"
    and env: "no_hooks env" "iter_ok env" "names_distinct st"
    and sup: "supported (eng_dialect e) st" and v: "of_type types st v"
    and objs: "\<forall>a. types a \<noteq> None \<longrightarrow> a < w_next e \<and> w_heap e a = h a" and fits: "fits_objects env st types h"
    and clean: "\<forall>r \<in># tb (committed (w_db e)). clean_row env st r" and ops: "\<forall>x \<in> set ops. op_fits env st C B types x"
    and started: "Begin env (NewSession e) = (None, s0)"
  shows "\<exists>err s1 t h'. table_tx env st v ops s0 = (Ret (None, err), s1) \<and> ss_tx s1 = Some t
     \<and> (err = None \<longrightarrow> (\<exists>ys. follows env st sat srt ops (map Inr ys) (tb (committed (w_db e)), h) (tb (view t (w_db s1)), h')))"
proof -
  note cases = Begin_cases [OF laws started] Begin_next [OF started]
  obtain t where t: "ss_tx s0 = Some t" "view t (w_db s0) = committed (w_db e)"
    using cases(2) by (auto simp: NewSession_def)
  have s0: "ss_refTable s0 = None" "ss_dialect s0 = eng_dialect e" "ss_sql s0 = []" "ss_vars s0 = []" "ss_clause s0 = no_clause"
    "w_heap s0 = w_heap e" "w_next s0 = w_next e"
    using cases(3-8,10) by (simp_all add: NewSession_def)
  have objs0: "same_objects types s0 h" using objs s0 by (simp add: same_objects_def)
  from Model_table [OF fits objs0 v] s0(1,2) sup obtain t1 where
    m: "session_Model v s0 = (Ret (), s0\<lparr>ss_refTable := Some t1\<rparr>)" "table_schema st types (eng_dialect e) t1" by auto
  let ?s = "s0\<lparr>ss_refTable := Some t1\<rparr>"
  have table: "on_table (OnTx t) st types ?s" using s0 sup m(2) t(1) by (simp add: on_table_def) (simp add: session_DB_def)
  have "same_objects types ?s h" using objs0 by (simp add: same_objects_def)
  from session_try_follows [OF db env table this fits _ ops] clean t(2) obtain err s1 h' where
    "session_try env st ops ?s = (Ret (None, err), s1)" "on_table (OnTx t) st types s1"
    "err = None \<longrightarrow> (\<exists>ys. follows env st sat srt ops (map Inr ys) (tb (committed (w_db e)), h) (tb (view t (w_db s1)), h'))" by auto
  then show ?thesis using m(1)
    by (intro exI [of _ err] exI [of _ s1] exI [of _ t] exI [of _ h'])
      (auto simp: table_tx_def on_table_def session_DB_def split: option.splits)
qed

text \<open>C38: A transaction of operations on a table is all or nothing.  It returns without a panic; if it returns
  an error, whether of the begin, of an operation or of the commit, what other connections see has not changed;
  otherwise every operation has succeeded, and the table that others see is the one that the operations, in
  their order, make of the table there was.\<close>

theorem transaction_all_or_nothing:
  assumes laws: "tx_laws env committed view" and db: "\<And>t. table_db env (OnTx t) st C B sat srt (tb \<circ> view t)"
    and env: "no_hooks env" "iter_ok env" "names_distinct st"
    and sup: "supported (eng_dialect e) st" and v: "of_type types st v"
    and objs: "\<forall>a. types a \<noteq> None \<longrightarrow> a < w_next e \<and> w_heap e a = h a" and fits: "fits_objects env st types h"
    and clean: "\<forall>r \<in># tb (committed (w_db e)). clean_row env st r" and ops: "\<forall>x \<in> set ops. op_fits env st C B types x"
    and run: "Transaction env (table_tx env st v ops) e = (out, e')"
  shows "\<exists>res err. out = Ret (res, err) \<and> (case err of
       Some msg \<Rightarrow> committed (w_db e') = committed (w_db e)
     | None \<Rightarrow> \<exists>ys h'. follows env st sat srt ops (map Inr ys) (tb (committed (w_db e)), h) (tb (committed (w_db e')), h'))"
proof -
  note tx_run = table_tx_run [OF laws db env sup v objs fits clean ops]
  have "\<And>t c. keeps (on_db (in_tx committed t c)) (table_tx env st v ops)"
    by (rule table_tx_keeps [OF in_tx_kept [OF laws] env(1)])
  note cases = Transaction_cases [OF laws this run]
  show ?thesis
  proof (cases out)
    case (Panic p)
    with cases obtain s0 s1 where "Begin env (NewSession e) = (None, s0)" "table_tx env st v ops s0 = (Panic p, s1)" by auto
    with tx_run [of s0] show ?thesis by auto
  next
    case (Ret x)
    then obtain res err where out: "out = Ret (res, err)" by (cases x) simp
    show ?thesis
    proof (cases err)
      case None
      with cases out obtain s0 s1 t where s: "Begin env (NewSession e) = (None, s0)" "table_tx env st v ops s0 = (Ret (res, None), s1)"
        "ss_tx s1 = Some t" "committed (w_db e') = view t (w_db s1)" by auto
      with tx_run [of s0] None out show ?thesis by auto
    qed (use cases out in auto)
  qed
qed

lemma users_laws: "tx_laws users_env fst (\<lambda>t. snd)"
  by (auto simp: tx_laws_def users_env_def users_at_def Let_def split: prod.splits)

definition users_engine :: "users engine" where
  "users_engine = \<lparr>w_db = ([], []), w_heap = users_heap, w_next = 3, w_log = [], eng_dialect = sqlite3\<rparr>"

theorem transaction_all_or_nothing_witness:
  "\<exists>res err e'. Transaction users_env (table_tx users_env user_type (PtrTo 2) users_program) users_engine = (Ret (res, err), e')
     \<and> (case err of
          Some msg \<Rightarrow> fst (w_db e') = []
        | None \<Rightarrow> \<exists>ys h'. follows users_env user_type name_is by_age users_program (map Inr ys) ({#}, users_heap) (mset (fst (w_db e')), h'))"
proof -
  obtain out e' where run: "Transaction users_env (table_tx users_env user_type (PtrTo 2) users_program) users_engine = (out, e')"
    by fastforce
  have env: "no_hooks users_env" "iter_ok users_env" "supported (eng_dialect users_engine) user_type"
    "of_type users_types user_type (PtrTo 2)"
    by (simp_all add: no_hooks_def iter_ok_def users_env_def users_engine_def user_supported users_types_def users_heap_def user_def)
  have objs: "\<forall>a. users_types a \<noteq> None \<longrightarrow> a < w_next users_engine \<and> w_heap users_engine a = users_heap a"
    using users_same_objects by (simp add: same_objects_def users_session_def users_engine_def)
  have db: "table_db users_env (OnTx t) user_type {''Name = ?''} {''Age''} name_is by_age (mset \<circ> (\<lambda>t. snd) t)" for t
  proof -
    have "mset \<circ> users_rows (OnTx t) = mset \<circ> (\<lambda>t. snd) t" by (simp add: fun_eq_iff users_rows_def)
    with users_db [of "OnTx t"] show ?thesis by simp
  qed
  have start: "fst (w_db users_engine) = []" by (simp add: users_engine_def)
  have "\<forall>r \<in># mset (fst (w_db users_engine)). clean_row users_env user_type r" by (simp add: start)
  note res = transaction_all_or_nothing [OF users_laws db env(1,2) user_distinct env(3,4) objs users_fit this users_program_fits run]
  from res [unfolded start mset.simps] run show ?thesis by blast
qed

end
