(* ===== verification/Migration.thy ===== *)
theory Migration
  imports RecordBehaviour
begin

text \<open>
  What \<open>Migrate\<close> does to a table: the statements it sends when the table does not exist yet and when
  it has other columns than the struct, and that the whole migration is atomic.
\<close>

section \<open>Statements in a row\<close>

text \<open>From \<open>s\<close> to \<open>s'\<close> the statements \<open>L\<close> were sent, and the session is ready for the next.\<close>

definition sends :: "(string \<times> govalue list) list \<Rightarrow> 'db session \<Rightarrow> 'db session \<Rightarrow> bool" where
  "sends L s s' \<longleftrightarrow> stmts (w_log s') = stmts (w_log s) @ L \<and> ss_sql s' = [] \<and> ss_vars s' = []
     \<and> ss_refTable s' = ss_refTable s \<and> ss_tx s' = ss_tx s \<and> ss_dialect s' = ss_dialect s \<and> w_heap s' = w_heap s"

lemma sends_trans: "sends L s s' \<Longrightarrow> sends L' s' s'' \<Longrightarrow> sends (L @ L') s s''"
  by (simp add: sends_def)

lemma sent_by_sends: "sent_by s s' \<Longrightarrow> sends [(ss_sql s, ss_vars s)] s s'"
  by (simp add: sent_by_def sends_def)

lemma sends_from: "sends L s s' \<Longrightarrow> stmts (w_log s) = stmts (w_log s0) \<Longrightarrow> ss_refTable s = ss_refTable s0 \<Longrightarrow>
    ss_tx s = ss_tx s0 \<Longrightarrow> ss_dialect s = ss_dialect s0 \<Longrightarrow> w_heap s = w_heap s0 \<Longrightarrow> sends L s0 s'"
  by (simp add: sends_def)

text \<open>A database on which statements of the transaction succeed.\<close>

definition exec_succeeds :: "'db orm_env \<Rightarrow> nat \<Rightarrow> bool" where
  "exec_succeeds env t \<longleftrightarrow> (\<forall>sql db. \<exists>res. fst (oe_Exec env (OnTx t) sql [] db) = Inr res)"

lemma exec_error_run:
  assumes "exec_succeeds env t" and "ss_tx s = Some t" and "ss_vars s = []"
  shows "\<exists>s'. exec_error env s = (Ret None, s') \<and> sends [(ss_sql s, [])] s s'"
proof -
  obtain x s' where e: "Exec env s = (x, s')" by fastforce
  from Exec_sent(2) [OF e] assms obtain res where "x = Inr res"
    unfolding exec_succeeds_def session_DB_def by (metis fst_conv option.case(2))
  with e sent_by_sends [OF Exec_sent(1) [OF e]] assms(3) show ?thesis by (auto simp: exec_error_def)
qed

lemma exec_raw_run:
  assumes "exec_succeeds env t" and "ss_tx s = Some t" and "ss_vars s = []" and "ss_sql s = []"
  shows "\<exists>s'. exec_error env (Raw q [] s) = (Ret None, s') \<and> sends [(q @ '' '', [])] s s'"
proof -
  have "ss_tx (Raw q [] s) = Some t" "ss_vars (Raw q [] s) = []" using assms by simp_all
  from exec_error_run [OF assms(1) this] assms(4) show ?thesis by (auto simp: sends_def)
qed

section \<open>The steps of a migration\<close>

definition column_stmt :: "schema \<Rightarrow> field \<Rightarrow> string \<times> govalue list" where
  "column_stmt table f = (add_column_sql table f @ '' '', [])"

lemma add_columns_run:
  assumes "exec_succeeds env t" and "\<forall>f \<in> set fs. GetField table (f_Name f) = Some f"
    and "ss_tx s = Some t" and "ss_vars s = []" and "ss_sql s = []"
  shows "\<exists>s'. add_columns env table (map f_Name fs) s = (Ret None, s') \<and> sends (map (column_stmt table) fs) s s'"
  using assms(2-)
proof (induction fs arbitrary: s)
  case Nil
  then show ?case by (simp add: retS_def sends_def)
next
  case (Cons f fs)
  from exec_raw_run [OF assms(1) Cons.prems(2-4)] obtain s1 where
    s1: "exec_error env (Raw (add_column_sql table f) [] s) = (Ret None, s1)" "sends [column_stmt table f] s s1"
    unfolding column_stmt_def by blast
  then have "ss_tx s1 = Some t" "ss_vars s1 = []" "ss_sql s1 = []" using Cons.prems(2) by (simp_all add: sends_def)
  from Cons.IH [OF _ this] Cons.prems(1) obtain s2 where
    "add_columns env table (map f_Name fs) s1 = (Ret None, s2)" "sends (map (column_stmt table) fs) s1 s2" by auto
  with s1 sends_trans [OF s1(2)] Cons.prems(1) show ?case
    by (auto simp: bindS_def)
qed

definition exist_stmt :: "dialect \<Rightarrow> schema \<Rightarrow> string \<times> govalue list" where
  "exist_stmt d table = (let (q, vs) = TableExistSQL d (sch_Name table) in (q @ '' '', vs))"

text \<open>The answer of the database to the question for the table: its name, or no row.\<close>

definition exist_answer :: "'db orm_env \<Rightarrow> nat \<Rightarrow> dialect \<Rightarrow> schema \<Rightarrow> bool \<Rightarrow> bool" where
  "exist_answer env t d table has \<longleftrightarrow>
     (\<forall>db. case fst (oe_Query env (OnTx t) (fst (exist_stmt d table)) (snd (exist_stmt d table)) db) of
        Inl err \<Rightarrow> False
      | Inr rows \<Rightarrow> (\<forall>db'. fst (oe_Close env (rows_id rows) db') = None) \<and>
          (case rows_data rows of [] \<Rightarrow> \<not> has
           | row # _ \<Rightarrow> has \<and> oe_Scan env [string_type] row = Inr [VStr (sch_Name table)]))"

lemma HasTable_run:
  assumes "ss_refTable s = Some table" and "ss_tx s = Some t" and "ss_vars s = []" and "ss_sql s = []"
    and "exist_answer env t (ss_dialect s) table has" and "sch_Name table \<noteq> []"
  shows "\<exists>s'. HasTable env s = (Ret has, s') \<and> sends [exist_stmt (ss_dialect s) table] s s'"
proof -
  obtain q vs where q: "TableExistSQL (ss_dialect s) (sch_Name table) = (q, vs)" by fastforce
  obtain row s1 where e: "QueryRow env (Raw q vs s) = (row, s1)" by fastforce
  obtain r s2 where sc: "row_Scan env [string_type] row s1 = (r, s2)" by fastforce
  have stmt: "exist_stmt (ss_dialect s) table = (q @ '' '', vs)" by (simp add: exist_stmt_def q)
  have "sends [(q @ '' '', vs)] s s1"
    using sent_by_sends [OF QueryRow_sent(1) [OF e]] assms(3,4) by (simp add: sends_def)
  moreover obtain db where "s2 = s1\<lparr>w_db := db\<rparr>" using row_Scan_db [of env "[string_type]" row s1] sc by auto
  ultimately have s2: "sends [(q @ '' '', vs)] s s2" by (simp add: sends_def)
  then have tab: "table_of s2 = (Ret table, s2)" using assms(1) by (simp add: table_of_Ret sends_def)
  have "fst (oe_Query env (OnTx t) (q @ '' '') vs (w_db s)) = row"
    using QueryRow_sent(2) [OF e] assms(2-4) by (simp add: session_DB_def)
  with assms(5) [unfolded exist_answer_def, rule_format, of "w_db s"] stmt obtain rows where row: "row = Inr rows"
    and close: "\<forall>db'. fst (oe_Close env (rows_id rows) db') = None"
    and data: "case rows_data rows of [] \<Rightarrow> \<not> has
           | row # _ \<Rightarrow> has \<and> oe_Scan env [string_type] row = Inr [VStr (sch_Name table)]"
    by (cases row) auto
  obtain s1' where "close_rows env rows s1 = (None, s1')"
    using close [rule_format, of "w_db s1"] 
    by (cases "oe_Close env (rows_id rows) (w_db s1)") (simp add: close_rows_def)
  then have r: "case rows_data rows of [] \<Rightarrow> \<exists>e. r = Inl e | _ # _ \<Rightarrow> r = Inr [VStr (sch_Name table)]"
    using sc row data by (auto simp: row_Scan_def split: list.splits)
  have "(case r of Inr (v # _) \<Rightarrow> v | _ \<Rightarrow> VStr []) = VStr (sch_Name table) \<longleftrightarrow> has"
    using r data assms(6) by (auto split: list.splits)
  then have "HasTable env s = (Ret has, s2)"
    using assms(1) q e sc tab
    by (simp add: HasTable_def table_of_Ret bindS_def table_of_def RefTable_def Let_def retS_def)
  with s2 stmt show ?thesis by auto
qed

section \<open>The statements of a migration\<close>

definition select_stmt :: "schema \<Rightarrow> string \<times> govalue list" where
  "select_stmt table = (''SELECT * FROM '' @ sch_Name table @ '' LIMIT 1 '', [])"

definition rebuild_stmt :: "schema \<Rightarrow> string \<times> govalue list" where
  "rebuild_stmt table = (copy_sql table @ '' '' @ drop_sql table @ '' '' @ rename_sql table @ '' '', [])"

definition migrate_stmts :: "schema \<Rightarrow> string list \<Rightarrow> (string \<times> govalue list) list" where
  "migrate_stmts table cols =
     select_stmt table # map (column_stmt table) (filter (\<lambda>f. f_Name f \<notin> set cols) (sch_Fields table))
       @ (if set cols \<subseteq> set (sch_FieldNames table) then [] else [rebuild_stmt table])"

definition columns_answer :: "'db orm_env \<Rightarrow> nat \<Rightarrow> schema \<Rightarrow> string list \<Rightarrow> bool" where
  "columns_answer env t table cols \<longleftrightarrow>
     (\<forall>db. \<exists>rows. fst (oe_Query env (OnTx t) (fst (select_stmt table)) [] db) = Inr rows \<and> rows_Columns rows = cols)"

lemma rebuild_run:
  assumes "exec_succeeds env t" and "ss_tx s = Some t" and "ss_vars s = []" and "ss_sql s = []"
  shows "\<exists>s'. rebuild_table env table s = (Ret None, s') \<and> sends [rebuild_stmt table] s s'"
proof -
  let ?s = "Raw (rename_sql table) [] (Raw (drop_sql table) [] (Raw (copy_sql table) [] s))"
  from exec_error_run [OF assms(1), of ?s] assms(2,3) obtain s' where
    "exec_error env ?s = (Ret None, s')" "sends [(ss_sql ?s, [])] ?s s'" by auto
  moreover have "ss_sql ?s = fst (rebuild_stmt table)" using assms(4) by (simp add: rebuild_stmt_def)
  ultimately show ?thesis by (auto simp: rebuild_table_def rebuild_stmt_def sends_def)
qed

lemma migrate_existing_run:
  assumes "exec_succeeds env t" and "columns_answer env t table cols"
    and tab: "sch_FieldNames table = map f_Name (sch_Fields table)" "\<forall>f \<in> set (sch_Fields table). GetField table (f_Name f) = Some f"
    and s: "ss_tx s = Some t" "ss_vars s = []" "ss_sql s = []"
  shows "\<exists>s'. migrate_existing env table s = (Ret None, s') \<and> sends (migrate_stmts table cols) s s'"
proof -
  let ?q = "Raw (''SELECT * FROM '' @ sch_Name table @ '' LIMIT 1'') [] s"
  obtain x s1 where e: "QueryRows env ?q = (x, s1)" by fastforce
  from QueryRows_sent(2) [OF e] assms(2) s obtain rows where rows: "x = Inr rows" "rows_Columns rows = cols"
    unfolding columns_answer_def select_stmt_def by (auto simp: session_DB_def) (metis fst_conv sum.inject(2))
  have s1: "sends [select_stmt table] s s1"
    using sent_by_sends [OF QueryRows_sent(1) [OF e]] s by (simp add: sends_def select_stmt_def)
  let ?add = "filter (\<lambda>f. f_Name f \<notin> set cols) (sch_Fields table)"
  have add: "difference (sch_FieldNames table) cols = map f_Name ?add"
    by (simp add: difference_filter tab(1) filter_map o_def)
  let ?del = "difference cols (sch_FieldNames table)"
  have del: "?del = [] \<longleftrightarrow> set cols \<subseteq> set (sch_FieldNames table)"
    by (auto simp: difference_filter filter_empty_conv)
  define s2 where "s2 = log_add (LogInfo (''added cols '' @ sprint_strings (map f_Name ?add) @ '', deleted cols ''
                      @ sprint_strings ?del)) s1"
  have s2: "sends [select_stmt table] s s2" using s1 by (simp add: sends_def s2_def)
  then have "ss_tx s2 = Some t" "ss_vars s2 = []" "ss_sql s2 = []" using s by (simp_all add: sends_def)
  with add_columns_run [OF assms(1), of ?add table s2] tab(2) obtain s3 where
    s3: "add_columns env table (map f_Name ?add) s2 = (Ret None, s3)" "sends (map (column_stmt table) ?add) s2 s3" by auto
  then have ready: "ss_tx s3 = Some t" "ss_vars s3 = []" "ss_sql s3 = []"
    using \<open>ss_tx s2 = Some t\<close> by (simp_all add: sends_def)
  obtain s4 where s4: "(if ?del = [] then retS None else rebuild_table env table) s3 = (Ret None, s4)"
    "sends (if ?del = [] then [] else [rebuild_stmt table]) s3 s4"
    using rebuild_run [OF assms(1) ready, of table] ready by (cases "?del = []") (auto simp: retS_def sends_def)
  have "migrate_existing env table s = bindS (add_columns env table (map f_Name ?add)) (\<lambda>e. case e of
      Some err \<Rightarrow> retS (Some err) | None \<Rightarrow> if ?del = [] then retS None else rebuild_table env table) s2"
    unfolding migrate_existing_def Let_def e rows(1) s2_def by (simp add: rows(2) add)
  also have "\<dots> = (Ret None, s4)" using s3(1) s4(1) by simp
  finally show ?thesis
    using sends_trans [OF s2 sends_trans [OF s3(2) s4(2)]] del by (auto simp: migrate_stmts_def)
qed

text \<open>The schema that \<open>Parse\<close> returns: its names and its fields.\<close>

lemma Parse_schema:
  assumes "Parse heap v d = Ret table" and "Indirect heap v = Some ob" and "names_distinct (o_type ob)"
  shows "sch_Name table = st_Name (o_type ob)" and "sch_FieldNames table = map f_Name (sch_Fields table)"
    and "list_all2 (field_of d) (columns (o_type ob)) (sch_Fields table)"
    and "\<forall>f \<in> set (sch_Fields table). GetField table (f_Name f) = Some f"
proof -
  from Parse_Ret [OF assms(1)] assms(2) show name: "sch_Name table = st_Name (o_type ob)"
    and fields: "list_all2 (field_of d) (columns (o_type ob)) (sch_Fields table)"
    and names: "sch_FieldNames table = map f_Name (sch_Fields table)" by (auto simp: schema_ok_def)
  have ok: "schema_ok table" using Parse_Ret [OF assms(1)] by blast
  have "distinct (map f_Name (sch_Fields table))"
    using assms(3) field_of_names [OF fields] by (simp add: names_distinct_def columns_def distinct_map_filter)
  then have "map_of (rev (map (\<lambda>f. (f_Name f, f)) (sch_Fields table))) (f_Name f) = Some f" if "f \<in> set (sch_Fields table)" for f
    using that by (intro map_of_is_SomeI) (auto simp: rev_map [symmetric] o_def)
  with ok show "\<forall>f \<in> set (sch_Fields table). GetField table (f_Name f) = Some f"
    by (simp add: schema_ok_def GetField_def)
qed

lemma migrate_body_run:
  assumes ok: "exec_succeeds env t" and s: "ss_tx s = Some t" "ss_vars s = []" "ss_sql s = []" "ss_refTable s = None"
    and parse: "Parse (w_heap s) v (ss_dialect s) = Ret table"
    and tab: "sch_FieldNames table = map f_Name (sch_Fields table)" "\<forall>f \<in> set (sch_Fields table). GetField table (f_Name f) = Some f"
    and has: "exist_answer env t (ss_dialect s) table has" "sch_Name table \<noteq> []"
    and cols: "has \<Longrightarrow> columns_answer env t table cols"
  shows "\<exists>s'. migrate_body env v s = (Ret (None, None), s')
           \<and> sends (exist_stmt (ss_dialect s) table # (if has then migrate_stmts table cols else [(create_sql table @ '' '', [])]))
               (s\<lparr>ss_refTable := Some table\<rparr>) s'"
proof -
  let ?s = "s\<lparr>ss_refTable := Some table\<rparr>"
  have m: "session_Model v s = (Ret (), ?s)" by (simp add: session_Model_def s(4) parse)
  from HasTable_run [of ?s table t env has] s has obtain s1 where
    h: "HasTable env ?s = (Ret has, s1)" "sends [exist_stmt (ss_dialect s) table] ?s s1" by auto
  then have s1: "ss_tx s1 = Some t" "ss_vars s1 = []" "ss_sql s1 = []" "ss_refTable s1 = Some table"
    using s by (simp_all add: sends_def)
  have t1: "table_of s1 = (Ret table, s1)" by (simp add: table_of_Ret s1(4))
  define msg where "msg = LogInfo (''table '' @ sch_Name table @ '' doesn'' @ [CHR 0x27] @ ''t exist'')"
  have "\<exists>s2. (if \<not> has then CreateTable env (log_add msg s1) else migrate_existing env table s1) = (Ret None, s2)
      \<and> sends (if has then migrate_stmts table cols else [(create_sql table @ '' '', [])]) s1 s2"
  proof (cases has)
    case True
    with migrate_existing_run [OF ok cols tab s1(1-3)] show ?thesis by simp
  next
    case False
    have tl: "table_of (log_add msg s1) = (Ret table, log_add msg s1)" by (simp add: table_of_Ret s1(4))
    from exec_raw_run [OF ok, of "log_add msg s1" "create_sql table"] s1 obtain s2 where
      "exec_error env (Raw (create_sql table) [] (log_add msg s1)) = (Ret None, s2)"
      "sends [(create_sql table @ '' '', [])] (log_add msg s1) s2" by auto
    with False tl show ?thesis by (auto simp: CreateTable_def sends_def msg_def)
  qed
  then obtain s2 where s2: "(if \<not> has then CreateTable env (log_add msg s1) else migrate_existing env table s1) = (Ret None, s2)"
    "sends (if has then migrate_stmts table cols else [(create_sql table @ '' '', [])]) s1 s2" by blast
  have "migrate_body env v s = (Ret (None, None), s2)"
    unfolding migrate_body_def msg_def [symmetric]
    by (simp add: bindS_def m h(1) t1 s2(1) [unfolded msg_def] retS_def del: if_not_P)
  with sends_trans [OF h(2) s2(2)] show ?thesis by auto
qed

text \<open>C39: When the statements succeed, \<open>Migrate\<close> asks whether the table exists.  If not, it creates it with
  one column for each column of the struct.  Otherwise it adds exactly the columns of the struct that
  the table lacks, in the order of the struct, and, if the table has columns that the struct lacks,
  rebuilds it by one statement that copies the columns of the struct, drops the table and renames
  the copy.  It sends nothing else.\<close>

theorem migrate_statements:
  assumes obj: "Indirect (w_heap e) v = Some ob" "names_distinct (o_type ob)" "st_Name (o_type ob) \<noteq> []"
    and parse: "Parse (w_heap e) v (eng_dialect e) = Ret table"
    and begin_ok: "oe_Begin env (w_db e) = (Inr t, db0)" and exec: "exec_succeeds env t"
    and has: "exist_answer env t (eng_dialect e) table has" and cols: "has \<Longrightarrow> columns_answer env t table cols"
    and commit: "\<And>db. fst (oe_Commit env t db) = None" and run: "Migrate env v e = (r, e')"
  shows "r = Ret None
       \<and> stmts (w_log e') = stmts (w_log e) @ exist_stmt (eng_dialect e) table #
           (if has then
              (''SELECT * FROM '' @ sch_Name table @ '' LIMIT 1 '', [])
              # map (\<lambda>f. (''ALTER TABLE '' @ sch_Name table @ '' ADD COLUMN '' @ f_Name f @ '' '' @ f_Type f @ ''; '', []))
                  (filter (\<lambda>f. f_Name f \<notin> set cols) (sch_Fields table))
              @ (if set cols \<subseteq> set (sch_FieldNames table) then [] else [rebuild_stmt table])
            else [(create_sql table @ '' '', [])])"
proof -
  obtain s0 where b: "Begin env (NewSession e) = (None, s0)" and s0: "ss_tx s0 = Some t" "ss_vars s0 = []" "ss_sql s0 = []"
    "ss_refTable s0 = None" "w_heap s0 = w_heap e" "ss_dialect s0 = eng_dialect e" "stmts (w_log s0) = stmts (w_log e)"
    using begin_ok by (simp add: Begin_def NewSession_def Let_def)
  note tab = Parse_schema [OF parse obj(1,2)]
  have p0: "Parse (w_heap s0) v (ss_dialect s0) = Ret table" using parse s0 by simp
  have has0: "exist_answer env t (ss_dialect s0) table has" using has s0 by simp
  have name: "sch_Name table \<noteq> []" using tab(1) obj(3) by simp
  from migrate_body_run [OF exec s0(1-4) p0 tab(2,4) has0 name cols] obtain s1 where
    s1: "migrate_body env v s0 = (Ret (None, None), s1)"
    "sends (exist_stmt (eng_dialect e) table # (if has then migrate_stmts table cols else [(create_sql table @ '' '', [])]))
       (s0\<lparr>ss_refTable := Some table\<rparr>) s1" using s0(6) by auto
  have "ss_tx s1 = Some t" using s1(2) s0(1) by (simp add: sends_def)
  moreover obtain db1 where "oe_Commit env t (w_db s1) = (None, db1)" using commit by (metis prod.collapse)
  ultimately obtain s2 where s2: "Commit env s1 = (Ret None, s2)" "stmts (w_log s2) = stmts (w_log s1)"
    using end_tx_some [of s1 t "oe_Commit env"] unfolding Commit_def by blast
  have "r = Ret None" "stmts (w_log e') = stmts (w_log s1)"
    using run b s1(1) s2 by (auto simp: Migrate_def Transaction_def tx_defer_def retS_def back_to_def)
  moreover have "stmts (w_log s1) = stmts (w_log e) @ exist_stmt (eng_dialect e) table #
      (if has then migrate_stmts table cols else [(create_sql table @ '' '', [])])"
    using s1(2) s0(7) by (simp add: sends_def)
  ultimately show ?thesis
    by (simp add: migrate_stmts_def select_stmt_def column_stmt_def add_column_sql_def)
qed

text \<open>The test of the repository: a table with the columns \<open>Name\<close> and \<open>XXX\<close> becomes one with \<open>Name\<close> and
  \<open>Age\<close>.  Both questions to the database are answered by one result.\<close>

definition old_table :: sql_rows where
  "old_table = \<lparr>rows_id = 0, rows_Columns = [''Name'', ''XXX''], rows_data = [[VStr ''User'']], rows_Err = None\<rparr>"

theorem migrate_statements_witness:
  "\<exists>e'. Migrate (demo_orm old_table) (PtrTo 0) (demo_engine demo_heap) = (Ret None, e')
     \<and> map fst (drop 2 (stmts (w_log e'))) =
         [''ALTER TABLE User ADD COLUMN Age integer; '',
          ''CREATE TABLE tmp_User AS SELECT Name,Age from User; DROP TABLE User; ALTER TABLE tmp_User RENAME TO User; '']"
proof -
  let ?env = "demo_orm old_table" and ?e = "demo_engine demo_heap" and ?t = "user_schema (PtrTo 0)"
  obtain r e' where run: "Migrate ?env (PtrTo 0) ?e = (r, e')" by fastforce
  have obj: "Indirect (w_heap ?e) (PtrTo 0) = Some (user ''Tom'' 18)" "names_distinct (o_type (user ''Tom'' 18))"
    "st_Name (o_type (user ''Tom'' 18)) \<noteq> []"
    using user_distinct by (simp_all add: demo_engine_def demo_heap_def user_def) (simp add: user_type_def)
  have parse: "Parse (w_heap ?e) (PtrTo 0) (eng_dialect ?e) = Ret ?t"
    using Parse_user [OF obj(1)] by (simp add: demo_engine_def user_def)
  have exec: "exec_succeeds ?env 0" by (auto simp: exec_succeeds_def demo_orm_def)
  have has: "exist_answer ?env 0 (eng_dialect ?e) ?t True"
    by (simp add: exist_answer_def demo_orm_def old_table_def user_schema_def Let_def)
  have cols: "columns_answer ?env 0 ?t [''Name'', ''XXX'']"
    by (simp add: columns_answer_def demo_orm_def old_table_def)
  have commit: "fst (oe_Commit ?env 0 db) = None" for db by (auto simp: demo_orm_def split: prod.splits)
  have start: "oe_Begin ?env (w_db ?e) = (Inr 0, ([], []))" by (simp add: demo_orm_def demo_engine_def)
  from migrate_statements [OF obj parse start exec has cols commit run] run show ?thesis
    by (simp add: user_schema_def Let_def rebuild_stmt_def copy_sql_def drop_sql_def rename_sql_def demo_engine_def)
qed

text \<open>The whole migration is atomic, whatever fails in it.\<close>

lemma Migrate_atomic:
  assumes laws: "tx_laws env committed view" and run: "Migrate env v e = (r, e')" and "r \<noteq> Ret None"
  shows "committed (w_db e') = committed (w_db e)"
proof -
  obtain out where tr: "Transaction env (migrate_body env v) e = (out, e')"
    and r: "r = (case out of Ret (res, err) \<Rightarrow> Ret err | Panic p \<Rightarrow> Panic p)"
    using run by (auto simp: Migrate_def split: prod.splits outcome.splits)
  have "keeps (on_db (in_tx committed t c)) (migrate_body env v)" for t c
    by (intro keeps in_tx_kept [OF laws])
  from Transaction_cases [OF laws this tr] r assms(3) show ?thesis
    by (auto split: outcome.splits option.splits prod.splits)
qed

end
