(* ===== verification/OrmDemo.thy ===== *)
theory OrmDemo
  imports Engine
begin

text \<open>
  The demo program of \<^verbatim>\<open>geeorm/cmd_test/main.go\<close>: four statements on a new session, one of which is
  meant to fail, and the line that is printed.
\<close>

definition exec_raw :: "'db orm_env \<Rightarrow> string \<Rightarrow> govalue list \<Rightarrow> 'db session \<Rightarrow> (goerror + sql_result) \<times> 'db session" where
  "exec_raw env sql vs s = Exec env (Raw sql vs s)"

text \<open>
  An engine that could not be opened is nil, and so is the result of a statement that failed; methods
  on them panic.  The error of \<open>RowsAffected\<close> is dropped, and the number with it is 0.  The engine is closed
  in any case; only what is printed and logged until then is kept here.
\<close>

definition orm_main ::
    "'db orm_env \<Rightarrow> 'db open_env \<Rightarrow> dialects \<Rightarrow> 'db world \<Rightarrow> string outcome \<times> log_line list" where
  "orm_main env oe ds w =
     (case NewEngine oe ds ''sqlite3'' ''gee.db'' w of
        ((None, err), w') \<Rightarrow> (Panic nil_deref, w_log w')
      | ((Some engine, err), w') \<Rightarrow>
          (let s = NewSession engine;
               (r1, s1) = exec_raw env ''DROP TABLE IF EXISTS User;'' [] s;
               (r2, s2) = exec_raw env ''CREATE TABLE User(Name text);'' [] s1;
               (r3, s3) = exec_raw env ''CREATE TABLE User(Name text);'' [] s2;
               (r4, s4) = exec_raw env ''INSERT INTO User(`Name`) values (?), (?)'' [VStr ''Tom'', VStr ''Sam''] s3
           in (case r4 of
                 Inl err \<Rightarrow> (Panic nil_deref, w_log (Engine_Close oe (back_to engine s4)))
               | Inr result \<Rightarrow>
                   (let count = (case result of Inl err \<Rightarrow> 0 | Inr n \<Rightarrow> n)
                    in (Ret (''Exec success, '' @ itoa count @ '' affected'' @ [CHR 0x0A]),
                        w_log (Engine_Close oe (back_to engine s4)))))))"

definition is_stmt :: "log_line \<Rightarrow> bool" where
  "is_stmt l = (case l of LogStmt q vs \<Rightarrow> True | _ \<Rightarrow> False)"

definition demo_statements :: "log_line list" where
  "demo_statements =
     [LogStmt ''DROP TABLE IF EXISTS User; '' [], LogStmt ''CREATE TABLE User(Name text); '' [],
      LogStmt ''CREATE TABLE User(Name text); '' [],
      LogStmt ''INSERT INTO User(`Name`) values (?), (?) '' [VStr ''Tom'', VStr ''Sam'']]"

lemma exec_raw_log:
  assumes "exec_raw env sql vs s = (r, s')" and "ss_sql s = ''''" and "ss_vars s = []"
  shows "filter is_stmt (w_log s') = filter is_stmt (w_log s) @ [LogStmt (sql @ '' '') vs]"
    and "ss_sql s' = ''''" and "ss_vars s' = []"
  using assms
  by (auto simp: exec_raw_def Exec_def Raw_def Clear_def log_add_def Let_def is_stmt_def split: prod.splits sum.splits)

lemma Engine_Close_stmts: "filter is_stmt (w_log (Engine_Close oe e)) = filter is_stmt (w_log e)"
  by (simp add: Engine_Close_def log_add_def is_stmt_def Let_def split: prod.splits)

text \<open>Whatever the database answers, an engine that opens is sent the same four statements: an error, such
  as that of the second \<^verbatim>\<open>CREATE TABLE\<close>, stops nothing.\<close>

lemma orm_main_statements:
  assumes "NewEngine oe ds ''sqlite3'' ''gee.db'' w = ((Some engine, err), w')"
  shows "filter is_stmt (snd (orm_main env oe ds w)) = filter is_stmt (w_log w) @ demo_statements"
proof -
  have engine: "filter is_stmt (w_log engine) = filter is_stmt (w_log w)"
    using assms by (auto simp: NewEngine_def log_add_def is_stmt_def Let_def split: sum.splits prod.splits option.splits)
  obtain r1 s1 where e1: "exec_raw env ''DROP TABLE IF EXISTS User;'' [] (NewSession engine) = (r1, s1)" by fastforce
  obtain r2 s2 where e2: "exec_raw env ''CREATE TABLE User(Name text);'' [] s1 = (r2, s2)" by fastforce
  obtain r3 s3 where e3: "exec_raw env ''CREATE TABLE User(Name text);'' [] s2 = (r3, s3)" by fastforce
  obtain r4 s4 where e4: "exec_raw env ''INSERT INTO User(`Name`) values (?), (?)'' [VStr ''Tom'', VStr ''Sam''] s3 = (r4, s4)"
    by fastforce
  have new: "ss_sql (NewSession engine) = ''''" "ss_vars (NewSession engine) = []"
    "w_log (NewSession engine) = w_log engine" by (simp_all add: NewSession_def session_new_def)
  note s1 = exec_raw_log [OF e1 new(1,2)]
  note s2 = exec_raw_log [OF e2 s1(2,3)]
  note s3 = exec_raw_log [OF e3 s2(2,3)]
  note s4 = exec_raw_log [OF e4 s3(2,3)]
  have "filter is_stmt (w_log s4) = filter is_stmt (w_log w) @ demo_statements"
    by (simp only: s4(1) s3(1) s2(1) s1(1) new(3) engine demo_statements_def append.simps append_assoc)
  then show ?thesis
    by (cases r4) (simp_all add: orm_main_def assms e1 e2 e3 e4 Engine_Close_stmts back_to_def)
qed

end
