(* ===== verification/Spec2Isabelle.thy ===== *)
theory Spec2Isabelle
  imports Prelude GoStrings Lru ConsistentHash ByteView MainCache SingleFlight Group GroupSystem HttpPool
    HttpMux CacheDemo
    Codec Service Server ServeLoop RpcClient Registry Heartbeats Discovery Dial XClient
    RpcRoundTrip RpcWire RpcServerWire RpcSystem RpcTypes RpcHttp RpcDemo
    Clause Dialect Schema Session Records Engine TxKeeps Statements RecordBehaviour OrmTable OrmUsers OrmRefine OrmTransaction
    Migration OrmLog OrmDemo
begin

text \<open>
  \<^bold>\<open>The program.\<close>  The repository holds three small Go systems, each a library with a demo program:

  \<^item> \<^verbatim>\<open>src/geecache\<close>, a distributed cache: groups of cached values, filled from a local source or from
    the node that owns the key, which consistent hashing decides; concurrent misses of one key share
    one load; nodes talk HTTP.
  \<^item> \<^verbatim>\<open>src/geerpc\<close>, an RPC framework: a client and a server that exchange headers and bodies over a
    connection, services registered by reflection, timeouts, a registry with heartbeats, and a client
    that balances its calls over the servers it discovers.
  \<^item> \<^verbatim>\<open>src/geeorm\<close>, an object-relational mapper: structs parsed into schemas, SQL statements put
    together from clauses, sessions with hooks and transactions, and migration of tables.

  \<^bold>\<open>Theories and files.\<close>  A definition has the name of the Go function it translates where Isabelle
  allows it, with a prefix or suffix otherwise.

  \<^item> \<open>Prelude\<close>: machine integers as words, errors as their messages, the outcome of a call that may
    panic, and the locales \<open>transition_system\<close> and \<open>invariant_system\<close> of the concurrent components;
    \<open>GoStrings\<close>: the functions of \<^verbatim>\<open>strings\<close>, \<^verbatim>\<open>strconv\<close> and \<^verbatim>\<open>net/url\<close> that the code calls.
  \<^item> \<open>CacheStore\<close> (the interface of a bounded cache, a locale), \<open>Lru\<close> (\<^verbatim>\<open>lru/lru.go\<close>), \<open>ByteView\<close>
    (\<^verbatim>\<open>byteview.go\<close>), \<open>MainCache\<close> (\<^verbatim>\<open>cache.go\<close>), \<open>ConsistentHash\<close> (\<^verbatim>\<open>consistenthash.go\<close>), \<open>SingleFlight\<close>
    (\<^verbatim>\<open>singleflight.go\<close>), \<open>Group\<close> (\<^verbatim>\<open>geecache.go\<close> for one goroutine, and \<open>createGroup\<close> of \<^verbatim>\<open>main.go\<close>),
    \<open>GroupSystem\<close> (\<^verbatim>\<open>geecache.go\<close> for any number of goroutines), \<open>HttpPool\<close> (\<^verbatim>\<open>http.go\<close>), \<open>CacheDemo\<close>
    (\<^verbatim>\<open>main.go\<close>); \<open>HttpMux\<close> is the part of \<^verbatim>\<open>net/http\<close> that both demo programs mount their handlers on.
  \<^item> \<open>Codec\<close> (\<^verbatim>\<open>codec/codec.go\<close>, \<^verbatim>\<open>codec/gob.go\<close>), \<open>Service\<close> (\<^verbatim>\<open>service.go\<close>), \<open>Server\<close> and \<open>ServeLoop\<close>
    (\<^verbatim>\<open>server.go\<close>: lookup and requests; the goroutines of a connection), \<open>RpcClient\<close> and \<open>Dial\<close>
    (\<^verbatim>\<open>client.go\<close>: calls in flight; options and connections), \<open>Registry\<close> and
    \<open>Heartbeats\<close> (\<^verbatim>\<open>registry/registry.go\<close>: the table of servers; what is posted to it over HTTP),
    \<open>Discovery\<close> (\<^verbatim>\<open>xclient/discovery.go\<close>, \<^verbatim>\<open>xclient/discovery_gee.go\<close>), \<open>XClient\<close> (\<^verbatim>\<open>xclient/xclient.go\<close>),
    \<open>RpcHttp\<close> (\<^verbatim>\<open>debug.go\<close>, the mounting of handlers, and the accept loop), \<open>RpcDemo\<close>
    (\<^verbatim>\<open>main/main.go\<close>).  \<open>RpcRoundTrip\<close>, \<open>RpcWire\<close>, \<open>RpcServerWire\<close> and \<open>RpcSystem\<close> put a client and a
    server on the two ends of one connection, and \<open>RpcTypes\<close> follows the types of values through a server.
  \<^item> \<open>Clause\<close> (\<^verbatim>\<open>clause/\<close>), \<open>Dialect\<close> (\<^verbatim>\<open>dialect/\<close>), \<open>Schema\<close> (\<^verbatim>\<open>schema/schema.go\<close>), \<open>Session\<close>
    (\<^verbatim>\<open>session/raw.go\<close>, \<^verbatim>\<open>table.go\<close>, \<^verbatim>\<open>hooks.go\<close>, \<^verbatim>\<open>transaction.go\<close>), \<open>Records\<close> (\<^verbatim>\<open>session/record.go\<close>),
    \<open>Engine\<close> (\<^verbatim>\<open>geeorm.go\<close>), \<open>OrmLog\<close> (\<^verbatim>\<open>log/log.go\<close>), \<open>OrmDemo\<close> (\<^verbatim>\<open>cmd_test/main.go\<close>); \<open>TxKeeps\<close>, \<open>Statements\<close>, \<open>RecordBehaviour\<close> and
    \<open>Migration\<close> hold only proofs about these, and the small inputs of the witnesses.  \<open>OrmTable\<close> is the table
    that a session is to be, with the laws of SQL that this takes, \<open>OrmUsers\<close> a database that has them,
    \<open>OrmRefine\<close> and \<open>OrmTransaction\<close> the proofs that a session and a transaction refine the table.

  \<^bold>\<open>How state and operations correspond.\<close>  A struct is a record.  What Go shares by pointer lives in a
  store from addresses: the entries of the LRU list, the arrays behind slices in \<open>ByteView\<close>, the calls
  of \<open>SingleFlight\<close> and \<open>RpcClient\<close>, the clients of \<open>XClient\<close>, the objects of \<open>Schema\<close>.  Methods take and
  return the state; errors are the left side of a sum or an option, panics a value of \<open>outcome\<close>, with
  the state that is left where somebody recovers.  A section under a mutex is one step.  Concurrency is
  a step relation between states with any number of goroutines: \<open>sf_step\<close> for \<^verbatim>\<open>Do\<close>, \<open>get_step\<close> for \<^verbatim>\<open>Get\<close>
  on a group, \<open>conn_step\<close> for reader, handlers, workers and timers of a connection, \<open>client_step\<close> for
  senders, receiver, closers and expiring contexts, and \<open>rpc_step\<close> for a client and a server with the
  two streams between them.  \<open>get_step\<close> projects to \<open>sf_step\<close>, so that what is proved of the
  loader holds in the group; a step of \<open>rpc_step\<close> is one of \<open>client_step\<close> or \<open>conn_step\<close>, and what it
  has written arrives at the other end.  Each interprets
  \<open>invariant_system\<close>, \<open>conn_step\<close> a second time for well-typed servers.  The other locales are interfaces
  of the code: \<open>cache_store\<close> is used by \<open>Group\<close> and interpreted by \<open>Lru\<close> and \<open>MainCache\<close>; \<open>key_router\<close>
  says what a ring promises to those who look up keys, and is interpreted by \<open>ConsistentHash\<close>, whose
  properties rest on it; \<open>discovery\<close> is used by \<open>XClient\<close> and interpreted by
  both discoveries; \<open>sql_dialect\<close> is used by \<open>Statements\<close> and interpreted by SQLite.

  \<^bold>\<open>What the lemmas show.\<close>

  \<^item> The cache: the LRU cache refines a list in order of recency and keeps its memory bound; the ring
    finds the successor of a key, and growing it moves keys to new nodes only; \<^verbatim>\<open>Do\<close> runs one load per
    key at a time and shares its result; a group returns what its source says, caches it, and over HTTP
    returns what the remote group says; nodes with the same peers agree on the owner.  Concurrent \<open>Get\<close>s
    on a group return what the source says in every interleaving; finitely many of them all end, after at
    most nine steps each, and none blocks its key.  A node of the demo cluster
    answers as its database does.
  \<^item> RPC: in every interleaving a request is answered exactly once, responses reach the call with their
    number, no call is lost, and connections drain; registration and lookup agree; options are
    negotiated; a server is listed while its heartbeats
    arrive, and discovery sees the servers that are alive; cached clients are reused or replaced; a
    broadcast needs all servers.  With a client and a server on one connection, a call runs through both
    and back, and whatever else happens, a reply is the answer to its own call; a server whose methods
    have types that can be passed never crashes; the debug page lists what is registered.  The demo
    calls of \<^verbatim>\<open>Foo.Sum\<close> return sums.
  \<^item> ORM: every statement has as many placeholders as values, whatever came before it on the session;
    inserts, queries and migrations send the statements they should; transactions are atomic, panics
    included.  With a database that does what SQL says of the five kinds of statements, or fails, a session
    refines a multiset of rows and the objects of the program, and a transaction is all or nothing on them.
  \<^item> Defects: some theorems state what the code does where it does not do what it means to, such as the
    key that stays blocked after a panic in \<^verbatim>\<open>Do\<close>, the key that two overlapping \<open>Get\<close>s both load, the connection lost to a request for an unknown
    method, or the deletion of all rows after a hook that used the session.

  \<^bold>\<open>Bounds.\<close>  No definition uses fuel.  The eviction loop of the LRU cache, which can run for ever, is a
  \<open>partial_function\<close> whose \<open>None\<close> is the run that does not end; that \<open>Add\<close> returns for limits that are
  not negative is part of the theorems.  All other loops recurse on their data.  Sizes and sequence
  numbers are 64-bit words: the theorems on memory assume that the total stays below \<open>2 ^ 63\<close>, those on
  the client fewer than \<open>2 ^ 64 - 1\<close> calls, after which numbers would be reused.

  \<^bold>\<open>Taken from outside.\<close>  Encodings (gob, JSON, protobuf), the network, the clock and random numbers, the
  SQL database with its driver, the bodies of registered methods, of callbacks and of hooks, and the
  order of map iteration are arguments of the definitions that use them.  What a theorem needs of them
  is one of its hypotheses, and its witness gives a concrete instance.

  \<^bold>\<open>Not modelled.\<close>  The generated protobuf code; parsing flags, listening on sockets, sleeping and
  waiting in the demo programs; the text of log lines except where it shows the statements of a
  session; strings outside ASCII where the standard library treats them specially (\<^verbatim>\<open>TrimSpace\<close>, exported
  names); data races that the code leaves outside its mutexes; nil interfaces as arguments of the ORM.
  A connection that has been closed delivers no more messages, although the decoder of Go may still
  hold some; the counter of a method goes up in one step with its call.  The branch of the debug page for a template that fails is left out, because this template cannot
  fail on its data.

  \<^bold>\<open>Open.\<close>  The refinement of a table is for sessions without hooks and for one table at a time; what hooks
  may do to it is open.  Migration is
  stated on the statements that it sends, not on the rows that they move.
\<close>

end
